(* ===== verification/Prelude.thy ===== *)
theory Prelude
  imports Main "HOL-Library.Word" "HOL-Library.Sublist" "HOL-Library.Char_ord"
begin

text \<open>
  The prelude of the development: the collections the component proofs draw on, C's fixed-width
  signed integers on top of \<^typ>\<open>int\<close>, and the generic lemmas on lists that the models of
  character buffers share.
\<close>

unbundle bit_operations_syntax

section \<open>Collections of facts\<close>

named_theorems c_defs \<open>definitions of straight-line code, for unfolding\<close>
named_theorems c_len \<open>lengths of buffers and of the rests of streams\<close>
named_theorems c_frame \<open>what an operation leaves unchanged\<close>

section \<open>Machine integers\<close>

type_synonym byte = "8 word"
type_synonym u16 = "16 word"
type_synonym u32 = "32 word"

text \<open>
  A C \<open>int\<close> is kept as the integer it denotes; \<open>s32\<close> is the conversion of a wider value to
  \<open>int\<close> on a two's complement machine, and also what wrapping arithmetic on \<open>int\<close> yields.
\<close>

definition s32 :: "int \<Rightarrow> int" where
  "s32 x = signed_take_bit 31 x"

definition in_s32 :: "int \<Rightarrow> bool" where
  "in_s32 x \<longleftrightarrow> - (2 ^ 31) \<le> x \<and> x < 2 ^ 31"

lemma s32_range [simp, intro]: "in_s32 (s32 x)"
  by (simp add: s32_def in_s32_def) (use signed_take_bit_int_greater_eq_minus_exp [of 31 x]
      signed_take_bit_int_less_exp [of 31 x] in simp)

lemma s32_id [simp]: "in_s32 x \<Longrightarrow> s32 x = x"
  by (simp add: s32_def in_s32_def signed_take_bit_int_eq_self_iff)

lemma in_s32I: "- 2147483648 \<le> x \<Longrightarrow> x \<le> 2147483647 \<Longrightarrow> in_s32 x"
  by (simp add: in_s32_def)

lemma in_s32D: "in_s32 x \<Longrightarrow> - 2147483648 \<le> x \<and> x \<le> 2147483647"
  by (simp add: in_s32_def)

text \<open>The low byte of an \<open>int\<close>, as an assignment to a \<open>char\<close> object keeps it.\<close>

definition to_byte :: "int \<Rightarrow> byte" where
  "to_byte x = word_of_int x"

section \<open>Lists as buffers\<close>

lemma takeWhile_append_stop:
  "\<forall>x \<in> set xs. P x \<Longrightarrow> \<not> P y \<Longrightarrow> takeWhile P (xs @ y # ys) = xs"
  by (induction xs) auto

lemma takeWhile_all: "\<forall>x \<in> set (takeWhile P xs). P x"
  by (auto dest: set_takeWhileD)

lemma takeWhile_stop_nth:
  "length (takeWhile P xs) < length xs \<Longrightarrow> \<not> P (xs ! length (takeWhile P xs))"
  by (rule nth_length_takeWhile)

lemma length_takeWhile_lessI:
  "x \<in> set xs \<Longrightarrow> \<not> P x \<Longrightarrow> length (takeWhile P xs) < length xs"
  by (induction xs) auto

lemma nth_append_drop: "i < length ys \<Longrightarrow> (xs @ ys) ! (length xs + i) = ys ! i"
  by (simp add: nth_append)

text \<open>Writing a run of cells at an offset of a buffer; \<open>None\<close> where it leaves the buffer.\<close>

definition write_at :: "'a list \<Rightarrow> nat \<Rightarrow> 'a list \<Rightarrow> 'a list option" where
  "write_at buf i xs =
     (if i + length xs \<le> length buf
      then Some (take i buf @ xs @ drop (i + length xs) buf) else None)"

definition read_at :: "'a list \<Rightarrow> nat \<Rightarrow> 'a option" where
  "read_at buf i = (if i < length buf then Some (buf ! i) else None)"

lemma write_at_SomeI: "i + length xs \<le> length buf \<Longrightarrow>
    write_at buf i xs = Some (take i buf @ xs @ drop (i + length xs) buf)"
  by (simp add: write_at_def)

lemma length_write_at [c_len]: "write_at buf i xs = Some buf' \<Longrightarrow> length buf' = length buf"
  by (auto simp: write_at_def split: if_splits)

lemma read_at_Some [simp]: "i < length buf \<Longrightarrow> read_at buf i = Some (buf ! i)"
  by (simp add: read_at_def)

lemma read_at_None [simp]: "length buf \<le> i \<Longrightarrow> read_at buf i = None"
  by (simp add: read_at_def)

end
