(* ===== verification/CLib.thy ===== *)
theory CLib
  imports Prelude
begin

text \<open>
  The part of the C standard library the programs use, on \<^typ>\<open>string\<close>s (lists of bytes) and on
  character buffers of fixed length: NUL-terminated strings in a buffer, \<open>fgets\<close>, \<open>strstr\<close>,
  \<open>basename\<close> (the GNU one), the decimal and hexadecimal conversions of \<open>printf\<close>, and \<open>strtol\<close> with
  its end pointer and its clamping at the width of \<open>long\<close>. The interface \<open>line_reader\<close> states what
  a loop over \<open>fgets\<close> relies on; \<open>fgets\<close> is interpreted in it at both buffer sizes in use.
\<close>

section \<open>NUL-terminated strings in a buffer\<close>

abbreviation NUL :: char where "NUL \<equiv> CHR 0x00"
abbreviation newline :: char where "newline \<equiv> CHR 0x0A"

text \<open>The C string that starts at offset \<open>i\<close> of a buffer.\<close>

definition cstr :: "string \<Rightarrow> nat \<Rightarrow> string" where
  "cstr buf i = takeWhile (\<lambda>c. c \<noteq> NUL) (drop i buf)"

definition terminated :: "string \<Rightarrow> nat \<Rightarrow> bool" where
  "terminated buf i \<longleftrightarrow> NUL \<in> set (drop i buf)"

definition nul_free :: "string \<Rightarrow> bool" where
  "nul_free s \<longleftrightarrow> NUL \<notin> set s"

lemma nul_free_simps [simp]:
  "nul_free []" "nul_free (c # s) \<longleftrightarrow> c \<noteq> NUL \<and> nul_free s"
  "nul_free (s @ t) \<longleftrightarrow> nul_free s \<and> nul_free t"
  by (auto simp: nul_free_def)

lemma nul_free_cstr [simp]: "nul_free (cstr buf i)"
  by (auto simp: nul_free_def cstr_def dest: set_takeWhileD)

lemma nul_free_takeI [intro]: "nul_free s \<Longrightarrow> nul_free (take k s)"
  by (auto simp: nul_free_def dest: in_set_takeD)

lemma nul_free_dropI [intro]: "nul_free s \<Longrightarrow> nul_free (drop k s)"
  by (auto simp: nul_free_def dest: in_set_dropD)

lemma cstr_append_NUL [simp]: "nul_free s \<Longrightarrow> cstr (s @ NUL # r) 0 = s"
  by (auto simp: cstr_def nul_free_def intro!: takeWhile_append_stop)

lemma cstr_drop: "cstr (drop i buf) j = cstr buf (i + j)"
  by (simp add: cstr_def add.commute)

lemma cstr_skip: "cstr (p @ buf) (length p + i) = cstr buf i"
  by (simp add: cstr_def)

lemma cstr_nul_free [simp]: "nul_free s \<Longrightarrow> cstr s 0 = s"
  by (auto simp: cstr_def nul_free_def takeWhile_eq_all_conv)

lemma cstr_less: "terminated buf i \<Longrightarrow> i + length (cstr buf i) < length buf"
  using length_takeWhile_lessI [of NUL "drop i buf" "\<lambda>c. c \<noteq> NUL"]
  by (simp add: terminated_def cstr_def)

lemma cstr_suffix:
  assumes "k \<le> length (cstr buf i)"
  shows "cstr buf (i + k) = drop k (cstr buf i)"
proof -
  let ?P = "\<lambda>c. c \<noteq> NUL"
  have "takeWhile ?P (drop k xs) = drop k (takeWhile ?P xs)" if "k \<le> length (takeWhile ?P xs)"
    for xs using that
  proof (induction k arbitrary: xs)
    case (Suc k)
    then show ?case by (cases xs) (auto split: if_splits)
  qed simp
  from this [of "drop i buf"] assms show ?thesis by (simp add: cstr_def add.commute)
qed

lemma cstr_nth: "k < length (cstr buf i) \<Longrightarrow> buf ! (i + k) = cstr buf i ! k"
proof -
  assume k: "k < length (cstr buf i)"
  then have "k < length (drop i buf)"
    using length_takeWhile_le [of "\<lambda>c. c \<noteq> NUL" "drop i buf"] by (simp add: cstr_def)
  with k show ?thesis by (simp add: cstr_def takeWhile_nth)
qed

lemma nth_cstr_end: "terminated buf i \<Longrightarrow> buf ! (i + length (cstr buf i)) = NUL"
  using cstr_less [of buf i] nth_length_takeWhile [of "\<lambda>c. c \<noteq> NUL" "drop i buf"]
  by (simp add: cstr_def)

lemma terminated_split:
  assumes "terminated buf 0" obtains tail where "buf = cstr buf 0 @ NUL # tail"
proof -
  let ?n = "length (cstr buf 0)"
  have "?n < length buf" using cstr_less [OF assms] by simp
  moreover have "take ?n buf = cstr buf 0" by (simp add: cstr_def takeWhile_eq_take [symmetric])
  moreover have "buf ! ?n = NUL" using nth_cstr_end [OF assms] by simp
  ultimately have "buf = cstr buf 0 @ NUL # drop (Suc ?n) buf" by (metis id_take_nth_drop)
  with that show thesis by blast
qed

section \<open>fgets\<close>

text \<open>At most \<open>k\<close> characters of the stream, up to and including the first newline.\<close>

fun fgets_line :: "nat \<Rightarrow> string \<Rightarrow> string" where
  "fgets_line 0 s = []"
| "fgets_line (Suc k) [] = []"
| "fgets_line (Suc k) (c # s) = (if c = newline then [c] else c # fgets_line k s)"

text \<open>\<open>fgets (s, n, stream)\<close>: the characters read and the rest of the stream, \<open>None\<close> for NULL.\<close>

definition fgets :: "nat \<Rightarrow> string \<Rightarrow> (string \<times> string) option" where
  "fgets n s =
     (if s = [] then None
      else let l = fgets_line (n - 1) s in Some (l, drop (length l) s))"

lemma fgets_line_prefix: "take (length (fgets_line k s)) s = fgets_line k s"
  by (induction k s rule: fgets_line.induct) auto

lemma length_fgets_line [c_len]: "length (fgets_line k s) \<le> k"
  by (induction k s rule: fgets_line.induct) auto

lemma fgets_line_nonempty: "0 < k \<Longrightarrow> s \<noteq> [] \<Longrightarrow> fgets_line k s \<noteq> []"
  by (cases k; cases s) auto

lemma fgets_line_butlast: "newline \<notin> set (butlast (fgets_line k s))"
  by (induction k s rule: fgets_line.induct) auto

lemma fgets_line_short:
  "newline \<notin> set l \<Longrightarrow> length l < k \<Longrightarrow> fgets_line k (l @ newline # r) = l @ [newline]"
proof (induction l arbitrary: k)
  case Nil
  then show ?case by (cases k) auto
next
  case (Cons c l)
  then show ?case by (cases k) auto
qed

lemma fgets_short: "newline \<notin> set l \<Longrightarrow> Suc (length l) < n \<Longrightarrow>
    fgets n (l @ newline # r) = Some (l @ [newline], r)"
  by (simp add: fgets_def fgets_line_short)

lemma length_fgets [c_len]: "fgets n s = Some (l, r) \<Longrightarrow> length l \<le> n - 1"
  by (auto simp: fgets_def Let_def length_fgets_line split: if_splits)

lemma fgets_append: "fgets n s = Some (l, r) \<Longrightarrow> s = l @ r"
  using fgets_line_prefix [of "n - 1" s]
  by (auto simp: fgets_def Let_def split: if_splits) (metis append_take_drop_id)

text \<open>
  \<open>fgets\<close> into a buffer of \<open>n\<close> characters: the line and its NUL overwrite the front, and what was
  behind them stays.
\<close>

definition fgets_buf :: "nat \<Rightarrow> string \<Rightarrow> string \<Rightarrow> (string \<times> string) option" where
  "fgets_buf n buf s =
     (case fgets n s of
        None \<Rightarrow> None
      | Some (l, r) \<Rightarrow> Some (l @ NUL # drop (Suc (length l)) buf, r))"

lemma fgets_buf_None [simp]: "fgets_buf n buf s = None \<longleftrightarrow> s = []"
  by (auto simp: fgets_buf_def fgets_def Let_def split: option.splits)

lemma fgets_buf_Nil [simp]: "fgets_buf n buf [] = None"
  by simp

lemma fgets_buf_SomeE:
  assumes "fgets_buf n buf s = Some (buf', r)"
  obtains l where "fgets n s = Some (l, r)" "buf' = l @ NUL # drop (Suc (length l)) buf"
    "s = l @ r"
proof (cases "fgets n s")
  case None
  with assms show thesis by (simp add: fgets_buf_def)
next
  case (Some p)
  then obtain l r' where p: "fgets n s = Some (l, r')" by (cases p) auto
  with assms have "r' = r" "buf' = l @ NUL # drop (Suc (length l)) buf"
    by (auto simp: fgets_buf_def)
  with p fgets_append [OF p] that show thesis by blast
qed

lemma length_fgets_buf [c_len]:
  "fgets_buf n buf s = Some (buf', r) \<Longrightarrow> length buf = n \<Longrightarrow> 0 < n \<Longrightarrow> length buf' = n"
  by (erule fgets_buf_SomeE) (drule length_fgets, auto)

lemma fgets_buf_terminated: "fgets_buf n buf s = Some (buf', r) \<Longrightarrow> terminated buf' 0"
  by (erule fgets_buf_SomeE) (simp add: terminated_def)

section \<open>The interface of a line reader\<close>

text \<open>
  What a loop \<open>while (fgets (...))\<close> relies on: the reader stops exactly at the end of the stream,
  splits a non-empty piece off its front, and the piece ends at the first newline it meets.
\<close>

locale line_reader =
  fixes gets :: "string \<Rightarrow> (string \<times> string) option"
  assumes eof: "gets s = None \<longleftrightarrow> s = []"
    and splits_off: "gets s = Some (l, r) \<Longrightarrow> s = l @ r"
    and piece_nonempty: "gets s = Some (l, r) \<Longrightarrow> l \<noteq> []"
    and one_line: "gets s = Some (l, r) \<Longrightarrow> newline \<notin> set (butlast l)"
begin

lemma shorter: "gets s = Some (l, r) \<Longrightarrow> length r < length s"
  using splits_off piece_nonempty by fastforce

lemma read_cases:
  obtains (at_end) "s = []" "gets s = None"
    | (piece) l r where "gets s = Some (l, r)" "s = l @ r" "length r < length s"
proof (cases "gets s")
  case None
  with at_end eof show thesis by blast
next
  case (Some p)
  then obtain l r where "gets s = Some (l, r)" by (cases p) auto
  with piece splits_off shorter show thesis by blast
qed

lemma read_induct [case_names at_end piece]:
  assumes "P []" and "\<And>l r. gets (l @ r) = Some (l, r) \<Longrightarrow> P r \<Longrightarrow> P (l @ r)"
  shows "P s"
proof (induction s rule: length_induct)
  case (1 s)
  show ?case
  proof (cases s rule: read_cases)
    case at_end
    with assms(1) show ?thesis by simp
  next
    case (piece l r)
    with 1 assms(2) show ?thesis by auto
  qed
qed

lemma ends_at_newline: "gets s = Some (l, r) \<Longrightarrow> newline \<in> set l \<Longrightarrow> last l = newline"
proof -
  assume g: "gets s = Some (l, r)" and "newline \<in> set l"
  moreover from g have "l = butlast l @ [last l]" by (simp add: piece_nonempty)
  ultimately show "last l = newline"
    using one_line by (metis Un_iff empty_iff list.set(1) set_ConsD set_append)
qed

end

lemma line_reader_fgets: "2 \<le> n \<Longrightarrow> line_reader (fgets n)"
proof
  fix s l r assume n: "2 \<le> n"
  show "fgets n s = None \<longleftrightarrow> s = []" by (simp add: fgets_def Let_def)
  assume g: "fgets n s = Some (l, r)"
  then show "s = l @ r" by (rule fgets_append)
  from g n show "l \<noteq> []" and "newline \<notin> set (butlast l)"
    using fgets_line_nonempty [of "n - 1" s] fgets_line_butlast [of "n - 1" s]
    by (auto simp: fgets_def Let_def split: if_splits)
qed

end
