(* ===== verification/CNum.thy ===== *)
theory CNum
  imports CLib
begin

text \<open>
  Numbers in text: the conversions \<open>%d\<close>, \<open>%.2x\<close> and \<open>%o\<close> of \<open>printf\<close>, the scanner behind
  \<open>strtol\<close> and the conversion \<open>%o\<close> of \<open>sscanf\<close>, and that scanning what was printed gives the
  number back. Also \<open>strstr\<close> and the GNU \<open>basename\<close>. The width of \<open>long\<close> is an argument
  (\<open>lb\<close>): the feed is built for 32-bit and 64-bit targets.
\<close>

section \<open>printf\<close>

definition digit_char :: "nat \<Rightarrow> char" where
  "digit_char d = (if d < 10 then char_of (48 + d) else char_of (87 + d))"

text \<open>Digits of a number in base \<open>b\<close>, most significant first.\<close>

function digits :: "nat \<Rightarrow> nat \<Rightarrow> string" where
  "digits b n =
     (if n < b \<or> b < 2 then [digit_char n] else digits b (n div b) @ [digit_char (n mod b)])"
  by pat_completeness auto
termination
  by (relation "measure snd") auto

declare digits.simps [simp del]

definition show_int :: "int \<Rightarrow> string" where
  "show_int i = (if i < 0 then CHR ''-'' # digits 10 (nat (- i)) else digits 10 (nat i))"

text \<open>\<open>%.2x\<close> of an \<open>unsigned char\<close>: always two digits.\<close>

definition show_hex2 :: "byte \<Rightarrow> string" where
  "show_hex2 b = [digit_char (unat b div 16), digit_char (unat b mod 16)]"

text \<open>\<open>%-22s\<close>: blanks on the right up to 22 characters.\<close>

definition pad22 :: "string \<Rightarrow> string" where
  "pad22 s = s @ replicate (22 - length s) CHR '' ''"

section \<open>strtol\<close>

definition isspace :: "char \<Rightarrow> bool" where
  "isspace c \<longleftrightarrow> (let n = of_char c :: nat in n = 32 \<or> (9 \<le> n \<and> n \<le> 13))"

definition skip_ws :: "string \<Rightarrow> string" where
  "skip_ws s = dropWhile isspace s"

text \<open>The value of a digit or letter; 36, not a digit of any base, for every other character.\<close>

definition digit_val :: "char \<Rightarrow> nat" where
  "digit_val c =
     (let n = of_char c
      in if 48 \<le> n \<and> n \<le> 57 then n - 48
         else if 97 \<le> n \<and> n \<le> 122 then n - 87
         else if 65 \<le> n \<and> n \<le> 90 then n - 55
         else 36)"

fun scan_digits :: "nat \<Rightarrow> nat \<Rightarrow> string \<Rightarrow> nat \<times> string" where
  "scan_digits b acc [] = (acc, [])"
| "scan_digits b acc (c # s) =
     (if digit_val c < b then scan_digits b (acc * b + digit_val c) s else (acc, c # s))"

definition starts_digit :: "nat \<Rightarrow> string \<Rightarrow> bool" where
  "starts_digit b s = (case s of [] \<Rightarrow> False | c # _ \<Rightarrow> digit_val c < b)"

text \<open>An optional sign: whether it was a minus, and the rest.\<close>

definition scan_sign :: "string \<Rightarrow> bool \<times> string" where
  "scan_sign s =
     (case s of
        [] \<Rightarrow> (False, [])
      | c # r \<Rightarrow> if c = CHR ''-'' then (True, r) else if c = CHR ''+'' then (False, r) else (False, s))"

text \<open>In base 16 a prefix \<open>0x\<close> is skipped when a digit follows it.\<close>

definition skip_0x :: "nat \<Rightarrow> string \<Rightarrow> string" where
  "skip_0x b s =
     (case s of
        z # x # r \<Rightarrow>
          if b = 16 \<and> z = CHR ''0'' \<and> (x = CHR ''x'' \<or> x = CHR ''X'') \<and> starts_digit 16 r
          then r else s
      | _ \<Rightarrow> s)"

definition clamp_long :: "nat \<Rightarrow> int \<Rightarrow> int" where
  "clamp_long lb v = max (- (2 ^ (lb - 1))) (min (2 ^ (lb - 1) - 1) v)"

text \<open>\<open>strtol (s, &endp, b)\<close>: the value and the string at \<open>endp\<close>.\<close>

definition strtol :: "nat \<Rightarrow> nat \<Rightarrow> string \<Rightarrow> int \<times> string" where
  "strtol lb b s =
     (let (neg, t) = scan_sign (skip_ws s); u = skip_0x b t
      in if starts_digit b u
         then let (m, rest) = scan_digits b 0 u
              in (clamp_long lb (if neg then - int m else int m), rest)
         else (0, s))"

section \<open>strstr and basename\<close>

text \<open>The offset of the first occurrence of a string.\<close>

fun strstr :: "string \<Rightarrow> string \<Rightarrow> nat option" where
  "strstr [] p = (if p = [] then Some 0 else None)"
| "strstr (c # s) p = (if prefix p (c # s) then Some 0 else map_option Suc (strstr s p))"

definition basename :: "string \<Rightarrow> string" where
  "basename s = rev (takeWhile (\<lambda>c. c \<noteq> CHR ''/'') (rev s))"

lemma strstr_SomeD: "strstr s p = Some k \<Longrightarrow> take (length p) (drop k s) = p \<and> k + length p \<le> length s"
proof (induction s arbitrary: k)
  case Nil
  then show ?case by (auto split: if_splits)
next
  case (Cons c s)
  then show ?case
    by (auto split: if_splits simp: prefix_def dest: arg_cong [of _ _ length])
qed

lemma strstr_found:
  "prefix p t \<Longrightarrow> (\<And>i. i < length a \<Longrightarrow> \<not> prefix p (drop i (a @ t))) \<Longrightarrow>
    strstr (a @ t) p = Some (length a)"
proof (induction a)
  case Nil
  then show ?case by (cases t) auto
next
  case (Cons c a)
  from Cons.prems(2) [of 0] have "\<not> prefix p (c # a @ t)" by simp
  moreover have "strstr (a @ t) p = Some (length a)"
    using Cons.prems(2) [of "Suc i" for i] by (intro Cons.IH Cons.prems(1)) auto
  ultimately show ?case by simp
qed

section \<open>Scanning what was printed\<close>

lemma digit_val_char: "d < 36 \<Longrightarrow> digit_val (digit_char d) = d"
  by (auto simp: digit_val_def digit_char_def Let_def)

lemma scan_digits_stop: "\<not> starts_digit b r \<Longrightarrow> scan_digits b acc r = (acc, r)"
  by (cases r) (auto simp: starts_digit_def)

lemma scan_digits_digits:
  assumes "2 \<le> b" and "b \<le> 36"
  shows "scan_digits b 0 (digits b n @ r) = scan_digits b n r"
proof (induction n arbitrary: r rule: less_induct)
  case (less n)
  show ?case
  proof (cases "n < b")
    case True
    with assms show ?thesis by (simp add: digits.simps [of b n] digit_val_char)
  next
    case False
    with assms have "n div b < n" by auto
    moreover have "n mod b < b" and "n mod b < 36" using assms
      by (auto intro: less_le_trans [OF mod_less_divisor])
    ultimately show ?thesis
      using False assms less [of "n div b"]
      by (subst digits.simps) (simp add: digit_val_char)
  qed
qed

lemma digits_head:
  assumes "2 \<le> b" and "b \<le> 36"
  obtains d s where "digits b n = digit_char d # s" "d < b"
proof -
  have "\<exists>d s. digits b n = digit_char d # s \<and> d < b"
  proof (induction n rule: less_induct)
    case (less n)
    show ?case
    proof (cases "n < b")
      case True
      with assms show ?thesis by (auto simp: digits.simps [of b n])
    next
      case False
      with assms have "n div b < n" by auto
      with less False assms show ?thesis by (subst digits.simps) fastforce
    qed
  qed
  with that show thesis by blast
qed

lemma starts_digit_digits [simp]:
  assumes "2 \<le> b" and "b \<le> 36" shows "starts_digit b (digits b n @ r)"
  by (rule digits_head [OF assms, of n])
    (use assms in \<open>simp add: starts_digit_def digit_val_char\<close>)

lemma digit_char_plain:
  "d < 36 \<Longrightarrow> \<not> isspace (digit_char d) \<and> digit_char d \<noteq> CHR ''-'' \<and> digit_char d \<noteq> CHR ''+''
    \<and> digit_char d \<noteq> NUL \<and> digit_char d \<noteq> newline \<and> digit_char d \<noteq> CHR ''/''"
  by (auto simp: digit_char_def isspace_def Let_def char_of_eq_iff take_bit_eq_mod)

lemma skip_ws_digits [simp]:
  assumes "2 \<le> b" and "b \<le> 36" shows "skip_ws (digits b n @ r) = digits b n @ r"
  by (rule digits_head [OF assms, of n]) (use assms digit_char_plain in \<open>simp add: skip_ws_def\<close>)

lemma scan_sign_digits [simp]:
  assumes "2 \<le> b" and "b \<le> 36" shows "scan_sign (digits b n @ r) = (False, digits b n @ r)"
  by (rule digits_head [OF assms, of n]) (use assms digit_char_plain in \<open>simp add: scan_sign_def\<close>)

lemma digits_plain: "2 \<le> b \<Longrightarrow> b \<le> 36 \<Longrightarrow> c \<in> set (digits b n) \<Longrightarrow> \<exists>d < 36. c = digit_char d"
proof (induction n rule: less_induct)
  case (less n)
  show ?case
  proof (cases "n < b")
    case True
    with less.prems have "c = digit_char n" and "n < 36" by (auto simp: digits.simps [of b n])
    then show ?thesis by blast
  next
    case False
    have "n div b < n" using False less.prems by auto
    moreover have "n mod b < 36" using less.prems by (auto intro: less_le_trans [OF mod_less_divisor])
    moreover from False less.prems have "c \<in> set (digits b (n div b)) \<or> c = digit_char (n mod b)"
      by (auto simp: digits.simps [of b n])
    ultimately show ?thesis using less.IH [of "n div b"] less.prems by blast
  qed
qed

lemma digits_chars:
  assumes "2 \<le> b" and "b \<le> 36" and "c \<in> set (digits b n)"
  shows "\<not> isspace c \<and> c \<noteq> CHR ''-'' \<and> c \<noteq> CHR ''+'' \<and> c \<noteq> NUL \<and> c \<noteq> newline \<and> c \<noteq> CHR ''/''"
proof -
  from digits_plain [OF assms] obtain d where "d < 36" "c = digit_char d" by auto
  with digit_char_plain show ?thesis by simp
qed

lemma skip_0x_other [simp]: "b \<noteq> 16 \<Longrightarrow> skip_0x b s = s"
  by (auto simp: skip_0x_def split: list.splits)

lemma strtol_digits:
  assumes "\<not> starts_digit 10 r"
  shows "strtol lb 10 (digits 10 n @ r) = (clamp_long lb (int n), r)"
  using assms by (simp add: strtol_def Let_def scan_digits_digits scan_digits_stop)

lemma strtol_show_nat: "0 \<le> i \<Longrightarrow> strtol lb 10 (show_int i) = (clamp_long lb i, [])"
  using strtol_digits [of "[]" lb "nat i"] by (simp add: show_int_def starts_digit_def)

lemma digits_nonempty [simp]: "digits b n \<noteq> []"
  by (subst digits.simps) simp

lemma show_int_nonempty [simp]: "show_int i \<noteq> []"
  by (simp add: show_int_def)

lemma clamp_long_id [simp]: "32 \<le> lb \<Longrightarrow> in_s32 v \<Longrightarrow> clamp_long lb v = v"
proof -
  assume "32 \<le> lb" and v: "in_s32 v"
  then have "(2::int) ^ 31 \<le> 2 ^ (lb - 1)" by (intro power_increasing) auto
  with v show ?thesis by (simp add: clamp_long_def in_s32_def)
qed

section \<open>Lengths of printed numbers\<close>

lemma length_digits: "n < 10 ^ Suc k \<Longrightarrow> length (digits 10 n) \<le> Suc k"
proof (induction k arbitrary: n)
  case 0
  then show ?case by (simp add: digits.simps [of 10 n])
next
  case (Suc k)
  show ?case
  proof (cases "n < 10")
    case False
    from Suc.prems have "n div 10 < 10 ^ Suc k" by auto
    from Suc.IH [OF this] False show ?thesis by (simp add: digits.simps [of 10 n])
  qed (simp add: digits.simps [of 10 n])
qed

lemma length_show_int: "\<bar>i\<bar> < 10 ^ Suc k \<Longrightarrow> length (show_int i) \<le> Suc (Suc k)"
  using length_digits [of "nat \<bar>i\<bar>" k]
  by (auto simp: show_int_def abs_if nat_less_iff split: if_splits)

end
