(* ===== verification/UuLine.thy ===== *)
theory UuLine
  imports CNum "HOL-Library.Monad_Syntax"
begin

text \<open>
  The line decoder of \<open>zork/files/uudecode.c\<close>: the macro \<open>DEC\<close> and the loop over the groups of four
  characters of one line. Reads outside the buffer are the value \<open>None\<close>. The reference \<open>dec4s\<close>
  decodes whole groups; \<open>enc_line\<close> states the line format of uuencode (the inverse, not part of
  the program) for the round trip.
\<close>

unbundle bit_operations_syntax

section \<open>The decoder\<close>

text \<open>A \<open>char\<close> promoted to \<open>int\<close>; \<open>char\<close> is signed on the build host.\<close>

definition schar :: "char \<Rightarrow> int" where
  "schar c = signed_take_bit 7 (of_char c)"

definition DEC :: "char \<Rightarrow> int" where
  "DEC c = (schar c - 32) AND 63"

text \<open>
  \<open>for (++p; n > 0; p += 4, n -= 3)\<close>: the bytes written, in order. The last test \<open>n >= 3\<close> of the
  short branch is the source's; it is never true there.
\<close>

function decode_loop :: "string \<Rightarrow> nat \<Rightarrow> int \<Rightarrow> byte list option" where
  "decode_loop buf p n =
     (if n > 0 then
        if n \<ge> 3 then do {
          p0 \<leftarrow> read_at buf p; p1 \<leftarrow> read_at buf (p + 1);
          p2 \<leftarrow> read_at buf (p + 2); p3 \<leftarrow> read_at buf (p + 3);
          rest \<leftarrow> decode_loop buf (p + 4) (n - 3);
          Some (to_byte (push_bit 2 (DEC p0) OR drop_bit 4 (DEC p1))
              # to_byte (push_bit 4 (DEC p1) OR drop_bit 2 (DEC p2))
              # to_byte (push_bit 6 (DEC p2) OR DEC p3) # rest)
        } else do {
          o1 \<leftarrow> (if n \<ge> 1 then do {
                  p0 \<leftarrow> read_at buf p; p1 \<leftarrow> read_at buf (p + 1);
                  Some [to_byte (push_bit 2 (DEC p0) OR drop_bit 4 (DEC p1))] }
                else Some []);
          o2 \<leftarrow> (if n \<ge> 2 then do {
                  p1 \<leftarrow> read_at buf (p + 1); p2 \<leftarrow> read_at buf (p + 2);
                  Some [to_byte (push_bit 4 (DEC p1) OR drop_bit 2 (DEC p2))] }
                else Some []);
          o3 \<leftarrow> (if n \<ge> 3 then do {
                  p2 \<leftarrow> read_at buf (p + 2); p3 \<leftarrow> read_at buf (p + 3);
                  Some [to_byte (push_bit 6 (DEC p2) OR DEC p3)] }
                else Some []);
          rest \<leftarrow> decode_loop buf (p + 4) (n - 3);
          Some (o1 @ o2 @ o3 @ rest)
        }
      else Some [])"
  by pat_completeness auto
termination
  by (relation "measure (\<lambda>(buf, p, n). nat n)") auto

declare decode_loop.simps [simp del]

lemma DEC_mod: "DEC c = (of_char c - 32) mod 64"
proof -
  have "(signed_take_bit 7 (of_char c :: int) - 32) mod 64 = (of_char c - 32) mod 64"
  proof -
    have "signed_take_bit 7 (of_char c :: int) mod 64 = of_char c mod 64"
      using take_bit_signed_take_bit [of 6 7 "of_char c :: int"] by (simp add: take_bit_eq_mod)
    then show ?thesis by (metis mod_diff_left_eq)
  qed
  moreover have "(x :: int) AND 63 = x mod 64" for x
    using take_bit_eq_mask [of 6 x] by (simp add: take_bit_eq_mod mask_eq_exp_minus_1)
  ultimately show ?thesis by (simp add: DEC_def schar_def)
qed

lemma DEC_range: "0 \<le> DEC c" "DEC c < 64"
  by (simp_all add: DEC_mod)

section \<open>The reference decoder\<close>

definition dec4 :: "char \<Rightarrow> char \<Rightarrow> char \<Rightarrow> char \<Rightarrow> byte list" where
  "dec4 a b c d =
     [to_byte (push_bit 2 (DEC a) OR drop_bit 4 (DEC b)),
      to_byte (push_bit 4 (DEC b) OR drop_bit 2 (DEC c)),
      to_byte (push_bit 6 (DEC c) OR DEC d)]"

fun dec4s :: "string \<Rightarrow> byte list" where
  "dec4s (a # b # c # d # r) = dec4 a b c d @ dec4s r"
| "dec4s _ = []"

lemma dec4s_drop:
  assumes "p + 4 \<le> length buf"
  shows "dec4s (drop p buf) =
    dec4 (buf ! p) (buf ! (p + 1)) (buf ! (p + 2)) (buf ! (p + 3)) @ dec4s (drop (p + 4) buf)"
proof -
  have step: "drop i buf = buf ! i # drop (Suc i) buf" if "i < length buf" for i
    using that by (simp add: Cons_nth_drop_Suc)
  have "drop p buf = buf ! p # buf ! (p + 1) # buf ! (p + 2) # buf ! (p + 3) # drop (p + 4) buf"
    using assms step [of p] step [of "p + 1"] step [of "p + 2"] step [of "p + 3"]
    by (simp add: numeral_eq_Suc)
  then show ?thesis by simp
qed

text \<open>
  The branches of the loop agree with decoding whole groups and keeping the first \<open>n\<close> bytes,
  and no read leaves the buffer when the groups are inside it.
\<close>

lemma decode_loop_eq:
  "p + 4 * ((nat n + 2) div 3) \<le> length buf \<Longrightarrow>
    decode_loop buf p n = Some (take (nat n) (dec4s (drop p buf)))"
proof (induction buf p n rule: decode_loop.induct)
  case (1 buf p n)
  consider (stop) "n \<le> 0" | (full) "3 \<le> n" | (one) "n = 1" | (two) "n = 2" by linarith
  then show ?case
  proof cases
    case stop
    then show ?thesis by (simp add: decode_loop.simps)
  next
    case full
    then have n: "nat n = Suc (Suc (Suc (nat (n - 3))))" by simp
    have "(nat n + 2) div 3 = Suc ((nat (n - 3) + 2) div 3)"
      using div_add_self2 [of 3 "nat (n - 3) + 2"] by (simp add: n)
    with "1.prems" have inside: "p + 4 + 4 * ((nat (n - 3) + 2) div 3) \<le> length buf" by simp
    with full "1.IH"(1) show ?thesis
      by (simp add: decode_loop.simps [of buf p n] dec4s_drop dec4_def n)
  next
    case one
    with "1.prems" show ?thesis
      by (simp add: decode_loop.simps [of buf p 1] decode_loop.simps [of buf "p + 4" "- 2"]
          dec4s_drop dec4_def)
  next
    case two
    with "1.prems" show ?thesis
      by (simp add: decode_loop.simps [of buf p 2] decode_loop.simps [of buf "p + 4" "- 1"]
          dec4s_drop dec4_def)
  qed
qed

section \<open>The line format\<close>

definition enc_char :: "nat \<Rightarrow> char" where
  "enc_char v = (if v = 0 then CHR ''`'' else char_of (32 + v))"

definition enc3 :: "byte \<Rightarrow> byte \<Rightarrow> byte \<Rightarrow> string" where
  "enc3 x y z = map enc_char
     [unat (drop_bit 2 x),
      unat (take_bit 6 (push_bit 4 x OR drop_bit 4 y)),
      unat (take_bit 6 (push_bit 2 y OR drop_bit 6 z)),
      unat (take_bit 6 z)]"

fun enc_groups :: "byte list \<Rightarrow> string" where
  "enc_groups [] = []"
| "enc_groups [x] = enc3 x 0 0"
| "enc_groups [x, y] = enc3 x y 0"
| "enc_groups (x # y # z # r) = enc3 x y z @ enc_groups r"

definition enc_line :: "byte list \<Rightarrow> string" where
  "enc_line bs = enc_char (length bs) # enc_groups bs @ [newline]"

lemma DEC_enc_char [simp]: "v < 64 \<Longrightarrow> DEC (enc_char v) = int v"
proof -
  assume v: "v < 64"
  have "(of_char (char_of (32 + v)) :: int) = int (of_char (char_of (32 + v)))"
    by (simp only: of_nat_of_char)
  also have "\<dots> = int (32 + v)" using v by (simp only: of_char_of) simp
  finally show ?thesis using v by (simp add: DEC_mod enc_char_def)
qed

lemma enc_char_plain [simp]:
  "v < 64 \<Longrightarrow> enc_char v \<noteq> newline \<and> newline \<noteq> enc_char v \<and> enc_char v \<noteq> NUL"
proof -
  assume "v < 64"
  then have "enc_char v \<noteq> newline \<and> enc_char v \<noteq> NUL"
    by (auto simp: enc_char_def char_of_eq_iff take_bit_eq_mod)
  then show ?thesis by metis
qed

lemma sextet_less: "unat (take_bit 6 (w :: byte)) < 64" "unat (drop_bit 2 (w :: byte)) < 64"
proof -
  have "unat (take_bit 6 w) = take_bit 6 (unat w)" by (rule unsigned_take_bit_eq)
  then show "unat (take_bit 6 w) < 64" using take_bit_nat_less_exp [of 6 "unat w"] by simp
  have "unat (drop_bit 2 w) = unat w div 4"
    using unsigned_drop_bit_eq [of 2 w, where ?'a = nat] unsigned_less [of w, where ?'a = nat]
    by (simp add: drop_bit_eq_div take_bit_nat_eq_self)
  then show "unat (drop_bit 2 w) < 64" using unsigned_less [of w, where ?'a = nat] by simp
qed

lemma byte_high_bit [simp]: "8 \<le> n \<Longrightarrow> \<not> bit (w :: byte) n"
  by (auto dest: bit_imp_le_length)

lemma byte_eqI: "(\<And>n. n \<in> {0, 1, 2, 3, 4, 5, 6, 7} \<Longrightarrow> bit (v :: byte) n = bit w n) \<Longrightarrow> v = w"
  by (rule bit_word_eqI) (auto simp: less_Suc_eq numeral_eq_Suc)

text \<open>The three bytes of a group come back from its four characters.\<close>

lemma sextets_join:
  fixes x y z :: byte
  shows "to_byte (push_bit 2 (uint (drop_bit 2 x))
      OR drop_bit 4 (uint (take_bit 6 (push_bit 4 x OR drop_bit 4 y)))) = x"
    and "to_byte (push_bit 4 (uint (take_bit 6 (push_bit 4 x OR drop_bit 4 y)))
      OR drop_bit 2 (uint (take_bit 6 (push_bit 2 y OR drop_bit 6 z)))) = y"
    and "to_byte (push_bit 6 (uint (take_bit 6 (push_bit 2 y OR drop_bit 6 z)))
      OR uint (take_bit 6 z)) = z"
  by (rule byte_eqI; auto simp: to_byte_def bit_simps numeral_2_eq_2 [symmetric])+

lemma dec4_enc3: "dec4s (enc3 x y z @ r) = x # y # z # dec4s r"
  by (simp add: enc3_def dec4_def sextet_less sextets_join del: take_bit_or)

lemma dec4s_enc_groups: "take (length bs) (dec4s (enc_groups bs @ r)) = bs"
  by (induction bs rule: enc_groups.induct) (simp_all add: dec4_enc3)

lemma length_enc_groups [c_len]: "length (enc_groups bs) = 4 * ((length bs + 2) div 3)"
proof (induction bs rule: enc_groups.induct)
  case (4 x y z r)
  have "(5 + length r) div 3 = Suc (Suc (Suc (length r)) div 3)" by presburger
  with 4 show ?case by (simp add: enc3_def)
qed (simp_all add: enc3_def)

lemma enc_groups_plain: "c \<in> set (enc_groups bs) \<Longrightarrow> c \<noteq> newline \<and> c \<noteq> NUL"
proof (induction bs rule: enc_groups.induct)
  have sextets: "c \<noteq> newline \<and> c \<noteq> NUL" if "c \<in> set (enc3 x y z)" for x y z
    using that sextet_less by (auto simp: enc3_def simp del: take_bit_or)
  { case (2 x) with sextets show ?case by auto
  next case (3 x y) with sextets show ?case by auto
  next case (4 x y z r) with sextets show ?case by auto }
qed simp

lemma decode_loop_enc_line:
  assumes "length bs < 64"
  shows "DEC ((enc_line bs @ r) ! 0) = int (length bs)"
    and "decode_loop (enc_line bs @ r) 1 (int (length bs)) = Some bs"
proof -
  show "DEC ((enc_line bs @ r) ! 0) = int (length bs)"
    using assms by (simp add: enc_line_def)
  show "decode_loop (enc_line bs @ r) 1 (int (length bs)) = Some bs"
    by (simp add: decode_loop_eq enc_line_def length_enc_groups dec4s_enc_groups)
qed

lemma enc_line_newline: "length bs < 64 \<Longrightarrow> newline \<notin> set (butlast (enc_line bs))"
  using enc_groups_plain [of newline bs] by (auto simp: enc_line_def butlast_append)

text \<open>Bounds: a line announces at most 63 bytes, so no read goes past offset 84.\<close>

lemma decode_loop_total:
  assumes "85 \<le> length buf" and "n < 64"
  shows "\<exists>bs. decode_loop buf 1 n = Some bs \<and> length bs = nat n"
proof -
  have "nat n \<le> 63" using assms(2) by simp
  then have "(nat n + 2) div 3 \<le> (63 + 2) div 3" by (intro div_le_mono) simp
  with assms(1) have fits: "1 + 4 * ((nat n + 2) div 3) \<le> length buf" by simp
  have "m \<le> length (dec4s s)" if "4 * ((m + 2) div 3) \<le> length s" for s m
    using that
  proof (induction s arbitrary: m rule: dec4s.induct)
    case (1 a b c d r)
    show ?case
    proof (cases "m < 3")
      case False
      then obtain k where m: "m = k + 3" by (metis add.commute le_Suc_ex not_less)
      have "(5 + k) div 3 = Suc (Suc (Suc k) div 3)" by presburger
      with "1.prems" have "k \<le> length (dec4s r)" by (intro "1.IH") (simp add: m add.commute)
      then show ?thesis by (simp add: m dec4_def)
    qed (simp add: dec4_def)
  qed (auto, presburger+)
  from this [of "nat n" "drop 1 buf"] fits show ?thesis by (simp add: decode_loop_eq)
qed

end
