(* ===== verification/Getopt.thy ===== *)
theory Getopt
  imports CNum
begin

text \<open>
  \<open>getopt (argc, argv, optstring)\<close> of the GNU C library, as the programs call it: in a loop until it
  returns \<open>-1\<close>. The model is the list of the (option character, \<open>optarg\<close>) pairs the calls return,
  with \<open>?\<close> for an unknown option or a missing argument, and the operands that \<open>argv + optind\<close>
  points at afterwards (GNU \<open>getopt\<close> moves operands behind the options). The messages \<open>getopt\<close>
  itself writes on standard error are not recorded.
\<close>

text \<open>Whether an option is known, and whether it takes an argument.\<close>

fun opt_lookup :: "string \<Rightarrow> char \<Rightarrow> bool option" where
  "opt_lookup [] c = None"
| "opt_lookup (x # xs) c =
     (if x = c then Some (case xs of [] \<Rightarrow> False | y # _ \<Rightarrow> y = CHR '':'') else opt_lookup xs c)"

definition opt_kind :: "string \<Rightarrow> char \<Rightarrow> bool option" where
  "opt_kind optstring c =
     (if c = CHR '':'' \<or> c = CHR '';'' then None else opt_lookup optstring c)"

datatype arg_class = Operand | EndOfOptions | Cluster string

definition arg_class :: "string \<Rightarrow> arg_class" where
  "arg_class a =
     (if a = ''--'' then EndOfOptions
      else case a of
        d # c # s \<Rightarrow> if d = CHR ''-'' then Cluster (c # s) else Operand
      | _ \<Rightarrow> Operand)"

lemma length_Cluster [c_len]: "arg_class a = Cluster s \<Longrightarrow> length a = Suc (length s)"
  by (auto simp: arg_class_def split: if_splits list.splits)

text \<open>
  The first argument is the option string, the second what is left of the option cluster that is
  being read (\<open>nextchar\<close>), the third the arguments not yet looked at.
\<close>

function getopt_run :: "string \<Rightarrow> string \<Rightarrow> string list \<Rightarrow> (char \<times> string) list \<times> string list" where
  "getopt_run os [] [] = ([], [])"
| "getopt_run os [] (a # as) =
     (case arg_class a of
        EndOfOptions \<Rightarrow> ([], as)
      | Operand \<Rightarrow> (let (rs, ops) = getopt_run os [] as in (rs, a # ops))
      | Cluster s \<Rightarrow> getopt_run os s as)"
| "getopt_run os (c # cs) as =
     (case opt_kind os c of
        None \<Rightarrow> (let (rs, ops) = getopt_run os cs as in ((CHR ''?'', []) # rs, ops))
      | Some False \<Rightarrow> (let (rs, ops) = getopt_run os cs as in ((c, []) # rs, ops))
      | Some True \<Rightarrow>
          (if cs \<noteq> [] then (let (rs, ops) = getopt_run os [] as in ((c, cs) # rs, ops))
           else case as of
             [] \<Rightarrow> ([(CHR ''?'', [])], [])
           | a # as' \<Rightarrow> (let (rs, ops) = getopt_run os [] as' in ((c, a) # rs, ops))))"
  by pat_completeness auto
termination
  by (relation "measure (\<lambda>(os, cs, as). length cs + sum_list (map (\<lambda>a. Suc (length a)) as))")
    (auto simp: c_len)

definition getopt_all :: "string \<Rightarrow> string list \<Rightarrow> (char \<times> string) list \<times> string list" where
  "getopt_all optstring args = getopt_run optstring [] args"

text \<open>Every option reported is \<open>?\<close> or a character of the option string.\<close>

lemma opt_lookup_Some: "opt_lookup os c = Some b \<Longrightarrow> c \<in> set os"
  by (induction os) (auto split: if_splits)

lemma opt_kind_Some: "opt_kind os c = Some b \<Longrightarrow> c \<in> set os \<and> c \<noteq> CHR '':''"
  by (auto simp: opt_kind_def dest: opt_lookup_Some split: if_splits)

lemma getopt_run_known:
  "(c, arg) \<in> set (fst (getopt_run os cs as)) \<Longrightarrow> c = CHR ''?'' \<or> c \<in> set os \<and> c \<noteq> CHR '':''"
proof (induction os cs as rule: getopt_run.induct)
  case (2 os a as)
  then show ?case by (auto split: arg_class.splits prod.splits)
next
  case (3 os k ks as)
  then show ?case
    by (auto split: option.splits bool.splits prod.splits list.splits if_splits dest: opt_kind_Some)
qed simp

lemma getopt_all_known:
  "(c, arg) \<in> set (fst (getopt_all os as)) \<Longrightarrow> c = CHR ''?'' \<or> c \<in> set os \<and> c \<noteq> CHR '':''"
  unfolding getopt_all_def by (rule getopt_run_known)

text \<open>Operands only: nothing is reported and all of them are kept, in order.\<close>

lemma getopt_all_operands:
  "\<forall>a \<in> set as. arg_class a = Operand \<Longrightarrow> getopt_all os as = ([], as)"
  unfolding getopt_all_def by (induction as) auto

end
