(* ===== verification/UuProgram.thy ===== *)
theory UuProgram
  imports UuLine Getopt
begin

text \<open>
  \<open>decode\<close> and \<open>main\<close> of \<open>zork/files/uudecode.c\<close>. The state is the rest of standard input, the
  buffer \<open>buf\<close> that one activation of \<open>decode\<close> owns, and the record of what reached the outside.
  A step that would access memory outside the buffer is \<open>None\<close>; an early \<open>return(1)\<close> is an \<open>Inl\<close>
  with the reason, which \<open>decode\<close> turns into the message and the return value. Read errors on
  standard input are not told apart from its end, as in the source.
\<close>

unbundle bit_operations_syntax

section \<open>State, environment and errors\<close>

datatype uu_event = Stderr string | OpenOut string | Chmod int | Put byte

record uu_state =
  inp :: string
  buf :: string
  events :: "uu_event list"

text \<open>
  The outside: the password database, the outcome of opening files, the error text of a failed
  call, the width of \<open>long\<close>, and the indeterminate values of the uninitialised locals \<open>buf\<close> and
  \<open>mode\<close> in the \<open>k\<close>-th call of \<open>decode\<close>.
\<close>

record uu_env =
  getpwnam :: "string \<Rightarrow> string option"
  freopen_r :: "string \<Rightarrow> string option"
  freopen_w :: "string \<Rightarrow> bool"
  fchmod_ok :: "string \<Rightarrow> int \<Rightarrow> bool"
  strerror :: "string \<Rightarrow> string"
  long_bits :: nat
  uninit_buf :: "nat \<Rightarrow> nat \<Rightarrow> char"
  uninit_mode :: "nat \<Rightarrow> int"

datatype uu_error =
  NoBeginLine | IllegalUser | NoUser string | PathTooLong | OpenFailed string | ShortFile | NoEndLine

definition MAXPATHLEN :: nat where
  "MAXPATHLEN = 4096"

lemma MAXPATHLEN_ge [simp]: "2 \<le> MAXPATHLEN" "0 < MAXPATHLEN" "85 \<le> MAXPATHLEN"
  by (simp_all add: MAXPATHLEN_def)

interpretation uu_in: line_reader "fgets MAXPATHLEN"
  by (rule line_reader_fgets) simp

definition emit :: "uu_event \<Rightarrow> uu_state \<Rightarrow> uu_state" where
  "emit e st = st\<lparr>events := events st @ [e]\<rparr>"

definition quoted :: "string \<Rightarrow> string" where
  "quoted s = [CHR 0x22] @ s @ [CHR 0x22]"

text \<open>The text of each message on standard error.\<close>

fun uu_message :: "uu_env \<Rightarrow> string \<Rightarrow> uu_error \<Rightarrow> string" where
  "uu_message env filename NoBeginLine =
     ''uudecode: '' @ filename @ '': no '' @ quoted ''begin'' @ '' line'' @ [newline]"
| "uu_message env filename IllegalUser =
     ''uudecode: '' @ filename @ '': illegal ~user.'' @ [newline]"
| "uu_message env filename (NoUser b) =
     ''uudecode: '' @ filename @ '': no user '' @ b @ ''.'' @ [newline]"
| "uu_message env filename PathTooLong =
     ''uudecode: '' @ filename @ '': path too long.'' @ [newline]"
| "uu_message env filename (OpenFailed b) =
     ''uudecode: '' @ b @ '': '' @ filename @ '': '' @ strerror env b @ [newline]"
| "uu_message env filename ShortFile =
     ''uudecode: '' @ filename @ '': short file.'' @ [newline]"
| "uu_message env filename NoEndLine =
     ''uudecode: '' @ filename @ '': no '' @ quoted ''end'' @ '' line.'' @ [newline]"

text \<open>A step: \<open>None\<close> for an access outside the buffer, else the state and the error or value.\<close>

type_synonym 'a uu_step = "(uu_state \<times> (uu_error + 'a)) option"

definition andthen :: "'a uu_step \<Rightarrow> (uu_state \<Rightarrow> 'a \<Rightarrow> 'b uu_step) \<Rightarrow> 'b uu_step" where
  "andthen m f =
     (case m of
        None \<Rightarrow> None
      | Some (st, Inl e) \<Rightarrow> Some (st, Inl e)
      | Some (st, Inr a) \<Rightarrow> f st a)"

lemma andthen_simps [simp]:
  "andthen None f = None"
  "andthen (Some (st, Inl e)) f = Some (st, Inl e)"
  "andthen (Some (st, Inr a)) f = f st a"
  by (simp_all add: andthen_def)

section \<open>The header line\<close>

text \<open>\<open>strncmp (s, t, n) == 0\<close> on C strings.\<close>

definition strncmp_eq :: "string \<Rightarrow> string \<Rightarrow> nat \<Rightarrow> bool" where
  "strncmp_eq s t n \<longleftrightarrow> take n s = take n t"

function find_header :: "uu_state \<Rightarrow> unit uu_step" where
  "find_header st =
     (case fgets_buf MAXPATHLEN (buf st) (inp st) of
        None \<Rightarrow> Some (st, Inl NoBeginLine)
      | Some (b, r) \<Rightarrow>
          (let st' = st\<lparr>buf := b, inp := r\<rparr>
           in if \<not> strncmp_eq (cstr b 0) ''begin '' 6 then find_header st' else Some (st', Inr ())))"
  by pat_completeness auto
termination
  by (relation "measure (\<lambda>st. length (inp st))")
    (auto elim!: fgets_buf_SomeE dest: uu_in.shorter)

declare find_header.simps [simp del]

text \<open>
  The conversion \<open>%o\<close>: white space, a sign, octal digits; the value as \<open>strtoul\<close> computes it,
  stored in an \<open>int\<close>.
\<close>

definition scan_octal :: "nat \<Rightarrow> string \<Rightarrow> (int \<times> string) option" where
  "scan_octal lb s =
     (let (neg, t) = scan_sign (skip_ws s)
      in if starts_digit 8 t
         then let (m, rest) = scan_digits 8 0 t;
                  v = (if m < 2 ^ lb then (if neg then (- int m) mod 2 ^ lb else int m) else 2 ^ lb - 1)
              in Some (s32 v, rest)
         else None)"

text \<open>
  \<open>sscanf (buf, "begin %o %s", &mode, buf)\<close>: what it stores in \<open>mode\<close> and in \<open>buf\<close>, if anything.
  The word is read from behind the place it is stored at, so it is not overwritten while being read.
\<close>

definition sscanf_begin :: "nat \<Rightarrow> string \<Rightarrow> int option \<times> string option" where
  "sscanf_begin lb s =
     (if take 5 s \<noteq> ''begin'' then (None, None)
      else case scan_octal lb (drop 5 s) of
          None \<Rightarrow> (None, None)
        | Some (v, rest) \<Rightarrow>
            (let w = takeWhile (\<lambda>c. \<not> isspace c) (skip_ws rest)
             in (Some v, if w = [] then None else Some w)))"

definition parse_header :: "uu_env \<Rightarrow> nat \<Rightarrow> uu_state \<Rightarrow> int uu_step" where
  "parse_header env k st =
     (let (m, w) = sscanf_begin (long_bits env) (cstr (buf st) 0);
          mode = (case m of None \<Rightarrow> uninit_mode env k | Some v \<Rightarrow> v)
      in case w of
           None \<Rightarrow> Some (st, Inr mode)
         | Some word \<Rightarrow>
             (case write_at (buf st) 0 (word @ [NUL]) of
                None \<Rightarrow> None
              | Some b \<Rightarrow> Some (st\<lparr>buf := b\<rparr>, Inr mode)))"

text \<open>\<open>bcopy (buf + src, buf + dst, len)\<close>, where source and target may overlap.\<close>

definition bcopy :: "string \<Rightarrow> nat \<Rightarrow> nat \<Rightarrow> nat \<Rightarrow> string option" where
  "bcopy b src dst len =
     (if src + len \<le> length b then write_at b dst (take len (drop src b)) else None)"

text \<open>The handling of \<open>~user/file\<close>.\<close>

definition expand_user :: "uu_env \<Rightarrow> uu_state \<Rightarrow> unit uu_step" where
  "expand_user env st =
     (if buf st ! 0 = CHR ''~'' then
        let s = cstr (buf st) 0; k = length (takeWhile (\<lambda>c. c \<noteq> CHR ''/'') s)
        in if k = length s then Some (st, Inl IllegalUser)
           else
             let b = (buf st)[k := NUL]; st = st\<lparr>buf := b\<rparr>; p = Suc k
             in case getpwnam env (cstr b 1) of
                  None \<Rightarrow> Some (st, Inl (NoUser (cstr b 0)))
                | Some pw_dir \<Rightarrow>
                    let dir = cstr pw_dir 0; n = length dir; n1 = length (cstr b p)
                    in if n + n1 + 2 > MAXPATHLEN then Some (st, Inl PathTooLong)
                       else do {
                         b \<leftarrow> bcopy b p (n + 1) (n1 + 1);
                         b \<leftarrow> write_at b 0 dir;
                         b \<leftarrow> write_at b n [CHR ''/''];
                         Some (st\<lparr>buf := b\<rparr>, Inr ())
                       }
      else Some (st, Inr ()))"

text \<open>\<open>mode & 0666\<close> is 438 in decimal.\<close>

definition open_output :: "uu_env \<Rightarrow> int \<Rightarrow> uu_state \<Rightarrow> unit uu_step" where
  "open_output env mode st =
     (let path = cstr (buf st) 0; m = mode AND 438; st = emit (OpenOut path) st
      in if \<not> freopen_w env path then Some (st, Inl (OpenFailed path))
         else if \<not> fchmod_ok env path m then Some (emit (Chmod m) st, Inl (OpenFailed path))
         else Some (emit (Chmod m) st, Inr ()))"

section \<open>The body and the end line\<close>

function decode_lines :: "uu_state \<Rightarrow> unit uu_step" where
  "decode_lines st =
     (case fgets_buf MAXPATHLEN (buf st) (inp st) of
        None \<Rightarrow> Some (st, Inl ShortFile)
      | Some (b, r) \<Rightarrow>
          (let st' = st\<lparr>buf := b, inp := r\<rparr>; n = DEC (b ! 0)
           in if n \<le> 0 then Some (st', Inr ())
              else case decode_loop b 1 n of
                  None \<Rightarrow> None
                | Some bytes \<Rightarrow> decode_lines (st'\<lparr>events := events st @ map Put bytes\<rparr>)))"
  by pat_completeness auto
termination
  by (relation "measure (\<lambda>st. length (inp st))")
    (auto elim!: fgets_buf_SomeE dest: uu_in.shorter)

declare decode_lines.simps [simp del]

definition check_end :: "uu_state \<Rightarrow> unit uu_step" where
  "check_end st =
     (case fgets_buf MAXPATHLEN (buf st) (inp st) of
        None \<Rightarrow> Some (st, Inl NoEndLine)
      | Some (b, r) \<Rightarrow>
          (let st' = st\<lparr>buf := b, inp := r\<rparr>
           in if cstr b 0 \<noteq> ''end'' @ [newline] then Some (st', Inl NoEndLine)
              else Some (st', Inr ())))"

section \<open>decode and main\<close>

definition decode_steps :: "uu_env \<Rightarrow> nat \<Rightarrow> uu_state \<Rightarrow> unit uu_step" where
  "decode_steps env k st =
     andthen (find_header st) (\<lambda>st _.
     andthen (parse_header env k st) (\<lambda>st mode.
     andthen (expand_user env st) (\<lambda>st _.
     andthen (open_output env mode st) (\<lambda>st _.
     andthen (decode_lines st) (\<lambda>st _. check_end st)))))"

definition decode :: "uu_env \<Rightarrow> string \<Rightarrow> nat \<Rightarrow> uu_state \<Rightarrow> (uu_state \<times> int) option" where
  "decode env filename k st =
     (case decode_steps env k (st\<lparr>buf := map (uninit_buf env k) [0..<MAXPATHLEN]\<rparr>) of
        None \<Rightarrow> None
      | Some (st', Inl e) \<Rightarrow> Some (emit (Stderr (uu_message env filename e)) st', 1)
      | Some (st', Inr _) \<Rightarrow> Some (st', 0))"

text \<open>The loop over the file operands; \<open>k\<close> counts the iterations.\<close>

fun uu_files :: "uu_env \<Rightarrow> nat \<Rightarrow> int \<Rightarrow> string list \<Rightarrow> uu_state \<Rightarrow> (uu_state \<times> int) option" where
  "uu_files env k rval [] st = Some (st, rval)"
| "uu_files env k rval (f # fs) st =
     (case freopen_r env f of
        None \<Rightarrow>
          uu_files env (Suc k) 1 fs
            (emit (Stderr (''uudecode: '' @ f @ '': '' @ strerror env f @ [newline])) st)
      | Some contents \<Rightarrow>
          (case decode env f k (st\<lparr>inp := contents\<rparr>) of
             None \<Rightarrow> None
           | Some (st', r) \<Rightarrow> uu_files env (Suc k) (rval OR r) fs st'))"

definition uu_usage :: string where
  "uu_usage = ''usage: uudecode [file ...]'' @ [newline]"

text \<open>\<open>main\<close>, from the arguments and the contents of standard input to the exit status.\<close>

definition uu_main :: "uu_env \<Rightarrow> string list \<Rightarrow> string \<Rightarrow> (uu_state \<times> int) option" where
  "uu_main env args stdin =
     (let st = \<lparr>inp = stdin, buf = [], events = []\<rparr>; (opts, operands) = getopt_all [] args
      in if opts \<noteq> [] then Some (emit (Stderr uu_usage) st, 1)
         else if operands \<noteq> [] then uu_files env 0 0 operands st
         else decode env ''stdin'' 0 st)"

end
