(* ===== verification/UuSafe.thy ===== *)
theory UuSafe
  imports UuProgram
begin

text \<open>
  Memory safety and the observable behaviour of \<open>uudecode\<close>. Every stage of \<open>decode\<close> satisfies the
  contract \<open>uu_stage\<close>: from a state its precondition allows it stays inside the buffer, and after a
  successful stage the buffer holds a terminated string. The stages are interpreted in it one by one
  and chained; what each adds to the record of events gives the shape of a whole run.
\<close>

unbundle bit_operations_syntax

section \<open>The contract of a stage\<close>

definition sized :: "uu_state \<Rightarrow> bool" where
  "sized st \<longleftrightarrow> length (buf st) = MAXPATHLEN"

definition uu_wf :: "uu_state \<Rightarrow> bool" where
  "uu_wf st \<longleftrightarrow> sized st \<and> terminated (buf st) 0"

definition safe :: "'a uu_step \<Rightarrow> bool" where
  "safe m \<longleftrightarrow> (\<exists>st x. m = Some (st, x) \<and> sized st)"

lemma wf_sized [simp]: "uu_wf st \<Longrightarrow> sized st"
  by (simp add: uu_wf_def)

lemma sized_emit [simp]: "sized (emit e st) = sized st"
  by (simp add: sized_def emit_def)

lemma events_emit [simp]: "events (emit e st) = events st @ [e]"
  by (simp add: emit_def)

lemma uu_wf_emit [simp]: "uu_wf (emit e st) = uu_wf st"
  by (simp add: uu_wf_def emit_def sized_def)

locale uu_stage =
  fixes pre :: "uu_state \<Rightarrow> bool"
    and op :: "uu_state \<Rightarrow> 'a uu_step"
  assumes no_fault: "pre st \<Longrightarrow> op st \<noteq> None"
    and keeps_size: "pre st \<Longrightarrow> op st = Some (st', x) \<Longrightarrow> sized st'"
    and establishes: "pre st \<Longrightarrow> op st = Some (st', Inr a) \<Longrightarrow> uu_wf st'"
begin

lemma safe_op: "pre st \<Longrightarrow> safe (op st)"
  using no_fault keeps_size unfolding safe_def by fast

lemma safe_then:
  assumes "pre st" and "\<And>st' a. uu_wf st' \<Longrightarrow> safe (f st' a)"
  shows "safe (andthen (op st) f)"
proof -
  obtain st' x where op: "op st = Some (st', x)" using no_fault [OF assms(1)] by fastforce
  show ?thesis
  proof (cases x)
    case (Inl e)
    with op keeps_size [OF assms(1) op] show ?thesis by (simp add: safe_def)
  next
    case (Inr a)
    with op establishes [OF assms(1)] assms(2) show ?thesis by simp
  qed
qed

end

section \<open>The stages meet the contract\<close>

lemma fgets_buf_wf:
  "fgets_buf MAXPATHLEN (buf st) (inp st) = Some (b, r) \<Longrightarrow> sized st \<Longrightarrow>
    uu_wf (st\<lparr>buf := b, inp := r\<rparr>) \<and> uu_wf (st\<lparr>buf := b, inp := r, events := es\<rparr>)"
  by (auto simp: uu_wf_def sized_def length_fgets_buf dest: fgets_buf_terminated)

lemma find_header_stage:
  "sized st \<Longrightarrow> \<exists>st' x. find_header st = Some (st', x) \<and> sized st' \<and> (x = Inr () \<longrightarrow> uu_wf st')
    \<and> events st' = events st"
proof (induction st rule: find_header.induct)
  case (1 st)
  show ?case
  proof (cases "fgets_buf MAXPATHLEN (buf st) (inp st)")
    case None
    with "1.prems" show ?thesis by (simp add: find_header.simps [of st])
  next
    case (Some p)
    then obtain b r where g: "fgets_buf MAXPATHLEN (buf st) (inp st) = Some (b, r)" by (cases p) auto
    from fgets_buf_wf [OF g "1.prems"] have wf: "uu_wf (st\<lparr>buf := b, inp := r\<rparr>)" by simp
    show ?thesis
    proof (cases "strncmp_eq (cstr b 0) ''begin '' 6")
      case True
      with g wf show ?thesis by (simp add: find_header.simps [of st])
    next
      case False
      from "1.IH" [OF g refl refl False] wf g False show ?thesis
        by (simp add: find_header.simps [of st])
    qed
  qed
qed

interpretation find_header: uu_stage sized find_header
proof unfold_locales
  fix st st' x and a :: unit
  assume s: "sized st"
  from find_header_stage [OF s] show "find_header st \<noteq> None" by auto
  from find_header_stage [OF s] show "sized st'" if "find_header st = Some (st', x)"
    using that by auto
  from find_header_stage [OF s] show "uu_wf st'" if "find_header st = Some (st', Inr a)"
    using that by auto
qed

lemma length_sscanf_word:
  assumes "sscanf_begin lb s = (m, Some w)" shows "length w + 5 \<le> length s"
proof -
  have scan: "length (snd (scan_digits b acc t)) \<le> length t" for b acc t
    by (induction b acc t rule: scan_digits.induct) auto
  have sign: "length (snd (scan_sign t)) \<le> length t" for t
    by (auto simp: scan_sign_def split: list.splits)
  have ws: "length (skip_ws t) \<le> length t" for t
    by (simp add: skip_ws_def length_dropWhile_le)
  have octal: "length rest \<le> length t" if "scan_octal lb t = Some (v, rest)" for t v rest
    using that scan [of 8 0 "snd (scan_sign (skip_ws t))"] sign [of "skip_ws t"] ws [of t]
    by (auto simp: scan_octal_def Let_def split: prod.splits if_splits)
  from assms obtain v rest where o: "scan_octal lb (drop 5 s) = Some (v, rest)"
    and w: "w = takeWhile (\<lambda>c. \<not> isspace c) (skip_ws rest)" and five: "take 5 s = ''begin''"
    by (auto simp: sscanf_begin_def Let_def split: if_splits option.splits prod.splits)
  have "length w \<le> length rest"
    using w ws [of rest] length_takeWhile_le [of "\<lambda>c. \<not> isspace c" "skip_ws rest"] by simp
  moreover have "length (take 5 s) = length ''begin''" by (simp only: five)
  ultimately show ?thesis using octal [OF o] by (simp add: min_def split: if_splits)
qed

lemma parse_header_stage:
  assumes "uu_wf st"
  shows "\<exists>st' m. parse_header env k st = Some (st', Inr m) \<and> uu_wf st' \<and> events st' = events st
    \<and> inp st' = inp st"
proof (cases "snd (sscanf_begin (long_bits env) (cstr (buf st) 0))")
  case None
  with assms show ?thesis by (auto simp: parse_header_def Let_def split: prod.splits)
next
  case (Some w)
  then have "length w + 5 \<le> length (cstr (buf st) 0)"
    by (intro length_sscanf_word [of "long_bits env" _ "fst (sscanf_begin (long_bits env) (cstr (buf st) 0))"])
      (simp add: prod_eq_iff)
  with cstr_less [of "buf st" 0] assms have "Suc (length w) \<le> length (buf st)"
    by (simp add: uu_wf_def)
  with Some assms show ?thesis
    by (auto simp: parse_header_def Let_def write_at_def uu_wf_def sized_def terminated_def
        split: prod.splits)
qed

interpretation parse_header: uu_stage uu_wf "parse_header env k" for env k
proof unfold_locales
  fix st st' x a
  assume s: "uu_wf st"
  from parse_header_stage [OF s, of env k] show "parse_header env k st \<noteq> None" by auto
  from parse_header_stage [OF s, of env k] show "sized st'" if "parse_header env k st = Some (st', x)"
    using that by auto
  from parse_header_stage [OF s, of env k] show "uu_wf st'" if "parse_header env k st = Some (st', Inr a)"
    using that by auto
qed

text \<open>The three overlapping copies of \<open>expand_user\<close>: home directory, slash, rest of the name.\<close>

lemma user_copies:
  assumes "length b = MAXPATHLEN" and "b = u @ NUL # rest @ NUL # tail"
    and "length dir + length rest + 2 \<le> MAXPATHLEN"
  obtains tail' where
    "do { b \<leftarrow> bcopy b (Suc (length u)) (length dir + 1) (length rest + 1);
          b \<leftarrow> write_at b 0 dir; write_at b (length dir) [CHR ''/''] }
      = Some (dir @ CHR ''/'' # rest @ NUL # tail')"
    and "length (dir @ CHR ''/'' # rest @ NUL # tail') = MAXPATHLEN"
proof -
  let ?n = "length dir"
  let ?tail' = "drop (?n + length rest + 2) b"
  have 1: "bcopy b (Suc (length u)) (?n + 1) (length rest + 1)
      = Some (take (?n + 1) b @ rest @ NUL # ?tail')"
    using assms by (simp add: bcopy_def write_at_def)
  have len: "length (take (?n + 1) b) = ?n + 1" using assms(1,3) by simp
  then obtain xs x where xs: "take (?n + 1) b = xs @ [x]" "length xs = ?n"
    by (metis length_append_singleton append_butlast_last_id length_butlast diff_add_inverse2
        list.size(3) add_is_0 zero_neq_one)
  have 2: "write_at (take (?n + 1) b @ rest @ NUL # ?tail') 0 dir
      = Some (dir @ x # rest @ NUL # ?tail')"
    unfolding xs(1) write_at_def by (simp add: xs(2))
  have 3: "write_at (dir @ x # rest @ NUL # ?tail') ?n [CHR ''/'']
      = Some (dir @ CHR ''/'' # rest @ NUL # ?tail')"
    by (simp add: write_at_def)
  have "do { b \<leftarrow> bcopy b (Suc (length u)) (?n + 1) (length rest + 1);
             b \<leftarrow> write_at b 0 dir; write_at b ?n [CHR ''/''] }
      = Some (dir @ CHR ''/'' # rest @ NUL # ?tail')"
    by (simp only: 1 2 3 Option.bind.bind_lunit)
  moreover have "length (dir @ CHR ''/'' # rest @ NUL # ?tail') = MAXPATHLEN"
    using assms(1,3) by simp
  ultimately show thesis by (rule that)
qed

definition at_user :: "string \<Rightarrow> string \<Rightarrow> string \<Rightarrow> bool" where
  "at_user s user rest \<longleftrightarrow> s = CHR ''~'' # user @ CHR ''/'' # rest \<and> CHR ''/'' \<notin> set user"

lemma expand_user_plain: "buf st ! 0 \<noteq> CHR ''~'' \<Longrightarrow> expand_user env st = Some (st, Inr ())"
  by (simp add: expand_user_def)

lemma expand_user_illegal:
  assumes "uu_wf st" and "hd (cstr (buf st) 0) = CHR ''~''" and "cstr (buf st) 0 \<noteq> []"
    and "CHR ''/'' \<notin> set (cstr (buf st) 0)"
  shows "expand_user env st = Some (st, Inl IllegalUser)"
proof -
  have tilde: "buf st ! 0 = CHR ''~''"
    using assms(2,3) cstr_nth [of 0 "buf st" 0] by (simp add: hd_conv_nth)
  have k: "takeWhile (\<lambda>c. c \<noteq> CHR ''/'') (cstr (buf st) 0) = cstr (buf st) 0"
    using assms(4) by (auto simp: takeWhile_eq_all_conv)
  show ?thesis by (simp only: expand_user_def Let_def tilde k refl if_True)
qed

lemma expand_user_user:
  assumes "uu_wf st" and "at_user (cstr (buf st) 0) user rest"
  shows "\<exists>b. length b = MAXPATHLEN \<and> cstr b 0 = CHR ''~'' # user \<and>
    (getpwnam env user = None \<longrightarrow>
      expand_user env st = Some (st\<lparr>buf := b\<rparr>, Inl (NoUser (CHR ''~'' # user)))) \<and>
    (\<forall>d. getpwnam env user = Some d \<longrightarrow>
      (if length (cstr d 0) + length rest + 2 > MAXPATHLEN
       then expand_user env st = Some (st\<lparr>buf := b\<rparr>, Inl PathTooLong)
       else (\<exists>tail. length (cstr d 0 @ CHR ''/'' # rest @ NUL # tail) = MAXPATHLEN \<and>
              expand_user env st =
                Some (st\<lparr>buf := cstr d 0 @ CHR ''/'' # rest @ NUL # tail\<rparr>, Inr ()))))"
proof -
  let ?u = "CHR ''~'' # user"
  from assms have len: "length (buf st) = MAXPATHLEN" and t: "terminated (buf st) 0"
    by (simp_all add: uu_wf_def sized_def)
  from assms(2) have s: "cstr (buf st) 0 = ?u @ CHR ''/'' # rest" and u: "CHR ''/'' \<notin> set user"
    by (simp_all add: at_user_def)
  obtain tail where buf: "buf st = ?u @ CHR ''/'' # rest @ NUL # tail"
    using terminated_split [OF t] s by auto
  have nf: "nul_free ?u" "nul_free rest" using nul_free_cstr [of "buf st" 0] by (simp_all add: s)
  have k: "takeWhile (\<lambda>c. c \<noteq> CHR ''/'') (cstr (buf st) 0) = ?u"
    using u by (auto simp: s intro!: takeWhile_append_stop)
  define b where "b = ?u @ NUL # rest @ NUL # tail"
  have upd: "(buf st)[length ?u := NUL] = b" by (simp add: buf b_def list_update_append)
  have lenb: "length b = MAXPATHLEN" using len by (simp add: b_def buf)
  have "cstr b 1 = cstr (user @ NUL # rest @ NUL # tail) 0" by (simp add: b_def cstr_def)
  then have c1: "cstr b 1 = user" using nf(1) by simp
  have c2: "cstr b (Suc (length ?u)) = rest"
    using nf(2) cstr_skip [of "?u @ [NUL]" "rest @ NUL # tail" 0] by (simp add: b_def)
  have c0: "cstr b 0 = ?u" using nf(1) by (simp add: b_def del: append_Cons)
  have tilde: "buf st ! 0 = CHR ''~''" by (simp add: buf)
  have unfolded: "expand_user env st = (case getpwnam env user of
        None \<Rightarrow> Some (st\<lparr>buf := b\<rparr>, Inl (NoUser ?u))
      | Some d \<Rightarrow> (let dir = cstr d 0; n = length dir; n1 = length rest
          in if n + n1 + 2 > MAXPATHLEN then Some (st\<lparr>buf := b\<rparr>, Inl PathTooLong)
             else do { b \<leftarrow> bcopy b (Suc (length ?u)) (n + 1) (n1 + 1);
                       b \<leftarrow> write_at b 0 dir; b \<leftarrow> write_at b n [CHR ''/''];
                       Some (st\<lparr>buf := b\<rparr>, Inr ()) }))"
    using c0 c1 c2 unfolding expand_user_def Let_def k upd
    by (simp add: tilde s del: length_Cons split: option.splits)
  show ?thesis
  proof (intro exI [of _ b] conjI allI impI lenb c0)
    show "expand_user env st = Some (st\<lparr>buf := b\<rparr>, Inl (NoUser ?u))" if "getpwnam env user = None"
      using unfolded that by simp
    fix d assume d: "getpwnam env user = Some d"
    show "if length (cstr d 0) + length rest + 2 > MAXPATHLEN
       then expand_user env st = Some (st\<lparr>buf := b\<rparr>, Inl PathTooLong)
       else (\<exists>tail. length (cstr d 0 @ CHR ''/'' # rest @ NUL # tail) = MAXPATHLEN \<and>
              expand_user env st =
                Some (st\<lparr>buf := cstr d 0 @ CHR ''/'' # rest @ NUL # tail\<rparr>, Inr ()))"
    proof (cases "length (cstr d 0) + length rest + 2 > MAXPATHLEN")
      case True
      with unfolded d show ?thesis by (simp add: Let_def)
    next
      case False
      then obtain tail' where
        w: "do { b \<leftarrow> bcopy b (Suc (length ?u)) (length (cstr d 0) + 1) (length rest + 1);
          b \<leftarrow> write_at b 0 (cstr d 0); write_at b (length (cstr d 0)) [CHR ''/''] }
          = Some (cstr d 0 @ CHR ''/'' # rest @ NUL # tail')"
        and l: "length (cstr d 0 @ CHR ''/'' # rest @ NUL # tail') = MAXPATHLEN"
        using user_copies [OF lenb b_def, of "cstr d 0"] by (metis linorder_not_less)
      with unfolded d False show ?thesis
        by (auto simp: Let_def bind_eq_Some_conv)
    qed
  qed
qed

lemma cstr_append_mid: "nul_free s \<Longrightarrow> cstr (s @ CHR ''/'' # r @ NUL # t) 0 = s @ CHR ''/'' # cstr (r @ NUL # t) 0"
  by (induction s) (auto simp: cstr_def)

lemma expand_user_stage:
  assumes "uu_wf st"
  shows "\<exists>st' x. expand_user env st = Some (st', x) \<and> sized st' \<and> (x = Inr () \<longrightarrow> uu_wf st')
    \<and> events st' = events st \<and> inp st' = inp st"
proof -
  let ?s = "cstr (buf st) 0"
  consider (plain) "buf st ! 0 \<noteq> CHR ''~''"
    | (illegal) "hd ?s = CHR ''~''" "?s \<noteq> []" "CHR ''/'' \<notin> set ?s"
    | (user) user rest where "at_user ?s user rest"
  proof (cases "buf st ! 0 = CHR ''~''")
    case True
    obtain tail where split: "buf st = ?s @ NUL # tail"
      using assms by (auto simp: uu_wf_def elim: terminated_split)
    with True obtain t where t: "?s = CHR ''~'' # t" by (cases ?s) auto
    show thesis
    proof (cases "CHR ''/'' \<in> set ?s")
      case in_s: True
      then obtain u r where "?s = u @ CHR ''/'' # r" "CHR ''/'' \<notin> set u"
        by (meson split_list_first)
      with t user show thesis by (cases u) (auto simp: at_user_def)
    next
      case False
      with t illegal show thesis by simp
    qed
  next
    case False
    with plain show thesis .
  qed
  then show ?thesis
  proof cases
    case plain
    with assms show ?thesis by (simp add: expand_user_plain)
  next
    case illegal
    with assms show ?thesis by (simp add: expand_user_illegal)
  next
    case user
    from expand_user_user [OF assms user, of env] obtain b where b: "length b = MAXPATHLEN"
      and none: "getpwnam env user = None \<longrightarrow>
        expand_user env st = Some (st\<lparr>buf := b\<rparr>, Inl (NoUser (CHR ''~'' # user)))"
      and some: "\<forall>d. getpwnam env user = Some d \<longrightarrow>
        (if length (cstr d 0) + length rest + 2 > MAXPATHLEN
         then expand_user env st = Some (st\<lparr>buf := b\<rparr>, Inl PathTooLong)
         else (\<exists>tail. length (cstr d 0 @ CHR ''/'' # rest @ NUL # tail) = MAXPATHLEN \<and>
                expand_user env st =
                  Some (st\<lparr>buf := cstr d 0 @ CHR ''/'' # rest @ NUL # tail\<rparr>, Inr ())))"
      by auto
    show ?thesis
    proof (cases "getpwnam env user")
      case None
      with b none show ?thesis by (simp add: sized_def)
    next
      case (Some d)
      with b some [rule_format, OF Some] show ?thesis
        by (auto simp: sized_def uu_wf_def terminated_def split: if_splits)
    qed
  qed
qed

interpretation expand_user: uu_stage uu_wf "expand_user env" for env
proof unfold_locales
  fix st st' x and a :: unit
  assume s: "uu_wf st"
  from expand_user_stage [OF s, of env] show "expand_user env st \<noteq> None" by auto
  from expand_user_stage [OF s, of env] show "sized st'" if "expand_user env st = Some (st', x)"
    using that by auto
  from expand_user_stage [OF s, of env] show "uu_wf st'" if "expand_user env st = Some (st', Inr a)"
    using that by auto
qed

interpretation open_output: uu_stage uu_wf "open_output env mode" for env mode
  by unfold_locales (auto simp: open_output_def Let_def split: if_splits)

lemma decode_lines_stage:
  "sized st \<Longrightarrow> \<exists>st' x. decode_lines st = Some (st', x) \<and> sized st' \<and> (x = Inr () \<longrightarrow> uu_wf st')
    \<and> (\<exists>bs. events st' = events st @ map Put bs)"
proof (induction st rule: decode_lines.induct)
  case (1 st)
  show ?case
  proof (cases "fgets_buf MAXPATHLEN (buf st) (inp st)")
    case None
    with "1.prems" show ?thesis by (auto simp: decode_lines.simps [of st] intro: exI [of _ "[]"])
  next
    case (Some p)
    then obtain b r where g: "fgets_buf MAXPATHLEN (buf st) (inp st) = Some (b, r)" by (cases p) auto
    let ?st = "st\<lparr>buf := b, inp := r\<rparr>" and ?n = "DEC (b ! 0)"
    note wf = fgets_buf_wf [OF g "1.prems"]
    show ?thesis
    proof (cases "?n \<le> 0")
      case True
      with g wf show ?thesis
        by (auto simp: decode_lines.simps [of st] intro: exI [of _ "[]"])
    next
      case False
      have "85 \<le> length b" using wf by (simp add: uu_wf_def sized_def)
      from decode_loop_total [OF this DEC_range(2)]
      obtain bytes where d: "decode_loop b 1 ?n = Some bytes" by blast
      have "sized (?st\<lparr>events := events st @ map Put bytes\<rparr>)"
        using wf by (simp add: uu_wf_def sized_def)
      from "1.IH" [OF g refl refl refl False d, OF this] obtain st' x bs where
        "decode_lines (?st\<lparr>events := events st @ map Put bytes\<rparr>) = Some (st', x)"
        "sized st'" "x = Inr () \<longrightarrow> uu_wf st'"
        "events st' = events st @ map Put (bytes @ bs)" by auto
      with g d False show ?thesis
        by (auto simp: decode_lines.simps [of st] Let_def intro: exI [of _ "bytes @ bs"])
    qed
  qed
qed

interpretation decode_lines: uu_stage sized decode_lines
proof unfold_locales
  fix st st' x and a :: unit
  assume s: "sized st"
  from decode_lines_stage [OF s] show "decode_lines st \<noteq> None" by auto
  from decode_lines_stage [OF s] show "sized st'" if "decode_lines st = Some (st', x)"
    using that by auto
  from decode_lines_stage [OF s] show "uu_wf st'" if "decode_lines st = Some (st', Inr a)"
    using that by auto
qed

interpretation check_end: uu_stage sized check_end
  by unfold_locales
    (auto simp: check_end_def Let_def split: option.splits if_splits dest: fgets_buf_wf)

section \<open>Whole runs\<close>

lemma decode_steps_safe: "sized st \<Longrightarrow> safe (decode_steps env k st)"
  unfolding decode_steps_def
  by (intro find_header.safe_then parse_header.safe_then expand_user.safe_then
      open_output.safe_then decode_lines.safe_then check_end.safe_op) (simp_all add: wf_sized)

lemma sized_uninit [simp]: "sized (st\<lparr>buf := map f [0..<MAXPATHLEN]\<rparr>)"
  by (simp add: sized_def)

text \<open>The events one call of \<open>decode\<close> adds, by how far it got.\<close>

definition output_events :: "uu_event list \<Rightarrow> bool" where
  "output_events es \<longleftrightarrow>
     (\<exists>path m bs. es = OpenOut path # Chmod (m AND 438) # map Put bs)"

definition partial_events :: "uu_event list \<Rightarrow> bool" where
  "partial_events es \<longleftrightarrow> es = [] \<or> (\<exists>path. es = [OpenOut path]) \<or> output_events es"

lemma andthen_SomeE:
  assumes "andthen m f = Some (st, x)"
  obtains (error) e where "m = Some (st, Inl e)" "x = Inl e"
    | (go) st1 a where "m = Some (st1, Inr a)" "f st1 a = Some (st, x)"
proof (cases m)
  case None
  with assms show thesis by simp
next
  case (Some p)
  then obtain st1 y where m: "m = Some (st1, y)" by (cases p) auto
  show thesis by (cases y) (use m assms error go in auto)
qed

lemma check_end_events: "check_end st = Some (st', x) \<Longrightarrow> events st' = events st"
  by (auto simp: check_end_def Let_def split: option.splits if_splits)

lemma decode_steps_events:
  assumes "sized st" and "decode_steps env k st = Some (st', x)"
  shows "\<exists>es. events st' = events st @ es \<and>
    (case x of Inl e \<Rightarrow> partial_events es | Inr _ \<Rightarrow> output_events es)"
  using assms(2) unfolding decode_steps_def
proof (cases rule: andthen_SomeE)
  case (error e)
  with find_header_stage [OF assms(1)] show ?thesis by (auto simp: partial_events_def)
next
  case (go st1 a1)
  from find_header_stage [OF assms(1)] go(1) have wf1: "uu_wf st1" and ev1: "events st1 = events st"
    by auto
  from parse_header_stage [OF wf1, of env k] obtain st2 mode where
    2: "parse_header env k st1 = Some (st2, Inr mode)" "uu_wf st2" "events st2 = events st1" by blast
  from expand_user_stage [OF 2(2), of env] obtain st3 y where
    3: "expand_user env st2 = Some (st3, y)" "y = Inr () \<longrightarrow> uu_wf st3" "events st3 = events st2" by blast
  show ?thesis
  proof (cases y)
    case (Inl e)
    with go(2) 2 3 ev1 show ?thesis by (auto simp: partial_events_def)
  next
    case (Inr u)
    then have wf3: "uu_wf st3" using 3 by simp
    from go(2) 2 3 Inr have rest: "andthen (open_output env mode st3)
        (\<lambda>st _. andthen (decode_lines st) (\<lambda>st _. check_end st)) = Some (st', x)" by simp
    then show ?thesis
    proof (cases rule: andthen_SomeE)
      case (error e)
      have "partial_events [OpenOut p, Chmod (m AND 438)]" for p m
        by (auto simp: partial_events_def output_events_def)
      moreover have "partial_events [OpenOut p]" for p by (simp add: partial_events_def)
      ultimately show ?thesis using error 2 3 ev1
        by (auto simp: open_output_def Let_def split: if_splits)
    next
      case (go st4 a4)
      then have "sized st4" and ev4: "\<exists>p. events st4 = events st @ [OpenOut p, Chmod (mode AND 438)]"
        using open_output.establishes [OF wf3 go(1)] 2 3 ev1
        by (auto simp: open_output_def Let_def split: if_splits)
      from decode_lines_stage [OF this(1)] obtain st5 z bs where
        5: "decode_lines st4 = Some (st5, z)" "events st5 = events st4 @ map Put bs" by blast
      have "events st' = events st5"
        using go(2) 5 by (cases z) (auto dest: check_end_events)
      moreover have "output_events (OpenOut p # Chmod (mode AND 438) # map Put bs)" for p
        by (auto simp: output_events_def)
      ultimately show ?thesis using ev4 5
        by (auto simp: partial_events_def split: sum.splits)
    qed
  qed
qed

text \<open>
  One call of \<open>decode\<close> never faults; it returns 0 after opening one file and writing to it, and 1
  after a message; nothing is written unless an output file was opened and its mode set.
\<close>

lemma decode_total:
  "\<exists>st' r es. decode env f k st = Some (st', r) \<and> events st' = events st @ es \<and>
    (r = 0 \<and> output_events es \<or>
     r = 1 \<and> (\<exists>es' msg. es = es' @ [Stderr msg] \<and> partial_events es'))"
proof -
  let ?st = "st\<lparr>buf := map (uninit_buf env k) [0..<MAXPATHLEN]\<rparr>"
  from decode_steps_safe [of ?st env k] obtain st' x where
    d: "decode_steps env k ?st = Some (st', x)" by (auto simp: safe_def)
  from decode_steps_events [OF _ d] obtain es where es: "events st' = events st @ es"
    "case x of Inl e \<Rightarrow> partial_events es | Inr _ \<Rightarrow> output_events es" by auto
  show ?thesis
  proof (cases x)
    case (Inl e)
    with es d show ?thesis
      by (intro exI [of _ "emit (Stderr (uu_message env f e)) st'"] exI [of _ 1]
          exI [of _ "es @ [Stderr (uu_message env f e)]"]) (simp add: decode_def)
  next
    case (Inr u)
    with es d show ?thesis
      by (intro exI [of _ st'] exI [of _ 0] exI [of _ es]) (simp add: decode_def)
  qed
qed

lemma decode_result: "decode env f k st = Some (st', r) \<Longrightarrow> r = 0 \<or> r = 1"
  using decode_total [of env f k st] by auto

lemma uu_files_total: "rval = 0 \<or> rval = 1 \<Longrightarrow>
    \<exists>st' r. uu_files env k rval fs st = Some (st', r) \<and> (r = 0 \<or> r = 1) \<and> (rval = 1 \<longrightarrow> r = 1)"
proof (induction env k rval fs st rule: uu_files.induct)
  case (2 env k rval f fs st)
  show ?case
  proof (cases "freopen_r env f")
    case None
    with 2 show ?thesis by fastforce
  next
    case (Some c)
    obtain st' r where d: "decode env f k (st\<lparr>inp := c\<rparr>) = Some (st', r)" "r = 0 \<or> r = 1"
      using decode_total [of env f k "st\<lparr>inp := c\<rparr>"] by blast
    then have "rval OR r = 0 \<or> rval OR r = 1" "rval = 1 \<longrightarrow> rval OR r = 1"
      using "2.prems" by auto
    with "2.IH"(2) [OF Some d(1) refl] Some d show ?thesis by auto
  qed
qed simp

lemma uu_main_total: "\<exists>st r. uu_main env args stdin = Some (st, r) \<and> (r = 0 \<or> r = 1)"
  using uu_files_total [of 0] decode_total [of env "''stdin''" 0]
  by (auto simp: uu_main_def Let_def split: prod.splits) fastforce+

end
