(* ===== verification/UuRound.thy ===== *)
theory UuRound
  imports UuSafe
begin

text \<open>
  \<open>uudecode\<close> inverts the uuencode format. The format is stated here (\<open>uuencode\<close>: a begin line with
  octal mode and name, lines of up to 45 bytes, a line of no bytes, an end line); the program under
  verification is the decoder only. Lines in front of the begin line are skipped, and what follows
  the end line stays on standard input.
\<close>

unbundle bit_operations_syntax

section \<open>The format\<close>

function chunks :: "byte list \<Rightarrow> byte list list" where
  "chunks bs = (if bs = [] then [] else take 45 bs # chunks (drop 45 bs))"
  by pat_completeness auto
termination
  by (relation "measure length") auto

declare chunks.simps [simp del]

definition uuencode_body :: "byte list \<Rightarrow> string" where
  "uuencode_body data = concat (map enc_line (chunks data)) @ enc_line [] @ ''end'' @ [newline]"

definition begin_line :: "nat \<Rightarrow> string \<Rightarrow> string" where
  "begin_line mode name = ''begin '' @ digits 8 mode @ '' '' @ name"

definition uuencode :: "nat \<Rightarrow> string \<Rightarrow> byte list \<Rightarrow> string" where
  "uuencode mode name data = begin_line mode name @ newline # uuencode_body data"

lemma chunks_Nil [simp]: "chunks [] = []"
  by (subst chunks.simps) simp

lemma concat_chunks [simp]: "concat (chunks bs) = bs"
proof (induction bs rule: chunks.induct)
  case (1 bs)
  then show ?case by (cases "bs = []") (simp_all add: chunks.simps [of bs])
qed

lemma length_chunk: "c \<in> set (chunks bs) \<Longrightarrow> 0 < length c \<and> length c \<le> 45"
proof (induction bs rule: chunks.induct)
  case (1 bs)
  then show ?case by (cases "bs = []") (auto simp: chunks.simps [of bs])
qed

text \<open>A name \<open>sscanf\<close> reads as one word and \<open>expand_user\<close> leaves alone.\<close>

definition plain_name :: "string \<Rightarrow> bool" where
  "plain_name name \<longleftrightarrow>
     name \<noteq> [] \<and> hd name \<noteq> CHR ''~'' \<and> (\<forall>c \<in> set name. \<not> isspace c \<and> c \<noteq> NUL)"

text \<open>A line that can stand before the begin line.\<close>

definition other_line :: "string \<Rightarrow> bool" where
  "other_line l \<longleftrightarrow>
     newline \<notin> set l \<and> Suc (length l) < MAXPATHLEN \<and> take 6 l \<noteq> ''begin ''"

section \<open>Reading lines\<close>

lemma fgets_buf_line:
  "newline \<notin> set l \<Longrightarrow> Suc (length l) < MAXPATHLEN \<Longrightarrow>
    fgets_buf MAXPATHLEN b (l @ newline # r)
      = Some (l @ newline # NUL # drop (Suc (Suc (length l))) b, r)"
  by (simp add: fgets_buf_def fgets_short)

lemma take_cstr: "take k (cstr b 0) = p \<Longrightarrow> length p = k \<Longrightarrow> take k b = p"
proof -
  assume "take k (cstr b 0) = p" and "length p = k"
  then have k: "k \<le> length (cstr b 0)" by auto
  have "take k b = take k (cstr b 0 @ dropWhile (\<lambda>c. c \<noteq> NUL) b)" by (simp add: cstr_def)
  also have "\<dots> = take k (cstr b 0)" using k by simp
  finally show "take k b = p" using \<open>take k (cstr b 0) = p\<close> by simp
qed

lemma take_6_newline:
  assumes "take 6 (l @ newline # s) = ''begin ''" shows "take 6 l = ''begin ''"
proof (cases "6 \<le> length l")
  case True
  with assms show ?thesis by simp
next
  case False
  then have "length l < 6" by simp
  then have "(take 6 (l @ newline # s)) ! length l = newline" by (simp add: nth_append)
  moreover have "''begin '' ! i \<noteq> newline" if "i < 6" for i
    using that by (auto simp: less_Suc_eq numeral_eq_Suc)
  ultimately show ?thesis using assms \<open>length l < 6\<close> by metis
qed

lemma find_header_lines:
  assumes "\<forall>l \<in> set pre. other_line l"
    and "inp st = concat (map (\<lambda>l. l @ [newline]) pre) @ h @ newline # r"
    and "take 6 h = ''begin ''" and "newline \<notin> set h" and "Suc (length h) < MAXPATHLEN"
    and "sized st"
  shows "\<exists>t. find_header st = Some (st\<lparr>buf := h @ newline # NUL # t, inp := r\<rparr>, Inr ())
    \<and> sized (st\<lparr>buf := h @ newline # NUL # t, inp := r\<rparr>)"
  using assms
proof (induction pre arbitrary: st)
  case Nil
  let ?b = "h @ newline # NUL # drop (Suc (Suc (length h))) (buf st)"
  have g: "fgets_buf MAXPATHLEN (buf st) (inp st) = Some (?b, r)"
    using Nil by (simp add: fgets_buf_line)
  obtain h' where h: "h = ''begin '' @ h'" using Nil.prems(3) by (metis append_take_drop_id)
  have "strncmp_eq (cstr ?b 0) ''begin '' 6" by (simp add: strncmp_eq_def h cstr_def)
  with g fgets_buf_wf [OF g Nil.prems(6)] show ?case
    by (subst find_header.simps) (auto simp: Let_def)
next
  case (Cons l pre)
  let ?r = "concat (map (\<lambda>l. l @ [newline]) pre) @ h @ newline # r"
  from Cons.prems have l: "other_line l" and inp: "inp st = l @ newline # ?r" by auto
  let ?b = "l @ newline # NUL # drop (Suc (Suc (length l))) (buf st)"
  have g: "fgets_buf MAXPATHLEN (buf st) (inp st) = Some (?b, ?r)"
    using l inp by (simp add: other_line_def fgets_buf_line)
  have "\<not> strncmp_eq (cstr ?b 0) ''begin '' 6"
    using l take_cstr [of 6 ?b "''begin ''"] take_6_newline [of l]
    by (auto simp: strncmp_eq_def other_line_def)
  with g have "find_header st = find_header (st\<lparr>buf := ?b, inp := ?r\<rparr>)"
    by (subst find_header.simps) (auto simp: Let_def)
  moreover from fgets_buf_wf [OF g Cons.prems(6)] have "sized (st\<lparr>buf := ?b, inp := ?r\<rparr>)" by simp
  ultimately show ?case
    using Cons.IH [of "st\<lparr>buf := ?b, inp := ?r\<rparr>"] Cons.prems by (auto simp: sized_def)
qed

section \<open>The header\<close>

lemma isspace_simps [simp]: "isspace CHR '' ''" "isspace newline" "\<not> isspace NUL"
  by (simp_all add: isspace_def Let_def)

lemma digit_val_blank [simp]: "digit_val CHR '' '' = 36"
  by (simp add: digit_val_def Let_def)

lemma sscanf_begin_line:
  assumes "plain_name name" and "mode < 2 ^ 31" and "32 \<le> lb"
  shows "sscanf_begin lb (begin_line mode name @ [newline]) = (Some (int mode), Some name)"
proof -
  have "(2::nat) ^ 31 < 2 ^ lb" using assms(3) by (intro power_strict_increasing) auto
  with assms(2) have m: "mode < 2 ^ lb" by linarith
  have s: "s32 (int mode) = int mode" using assms(2) by (intro s32_id) (simp add: in_s32_def)
  have "scan_octal lb (CHR '' '' # digits 8 mode @ CHR '' '' # name @ [newline])
      = Some (int mode, CHR '' '' # name @ [newline])"
    using m s scan_sign_digits [of 8 mode] skip_ws_digits [of 8 mode]
      scan_digits_digits [of 8 mode]
    by (simp add: scan_octal_def skip_ws_def Let_def)
  moreover have "skip_ws (CHR '' '' # name @ [newline]) = name @ [newline]"
    using assms(1) by (cases name) (auto simp: skip_ws_def plain_name_def)
  moreover have "takeWhile (\<lambda>c. \<not> isspace c) (name @ [newline]) = name"
    using assms(1) by (auto simp: plain_name_def intro!: takeWhile_append_stop)
  ultimately show ?thesis
    using assms(1) by (simp add: sscanf_begin_def begin_line_def plain_name_def Let_def)
qed

lemma nul_free_digits [simp]: "nul_free (digits 8 n)"
  using digits_chars [of 8 NUL n] by (auto simp: nul_free_def)

lemma newline_digits [simp]: "newline \<notin> set (digits 8 n)"
  using digits_chars [of 8 newline n] by auto

lemma newline_name: "plain_name name \<Longrightarrow> newline \<notin> set name"
  using isspace_simps(2) unfolding plain_name_def by blast

lemma nul_free_name: "plain_name name \<Longrightarrow> nul_free name"
  by (auto simp: plain_name_def nul_free_def)

lemma parse_header_line:
  assumes "plain_name name" and "mode < 2 ^ 31" and "32 \<le> long_bits env"
    and "buf st = begin_line mode name @ newline # NUL # t" and "sized st"
  shows "\<exists>b. parse_header env k st = Some (st\<lparr>buf := name @ NUL # b\<rparr>, Inr (int mode))
    \<and> sized (st\<lparr>buf := name @ NUL # b\<rparr>)"
proof -
  have "cstr (buf st) 0 = begin_line mode name @ [newline]"
    using nul_free_name [OF assms(1)] cstr_append_NUL [of "begin_line mode name @ [newline]" t]
    by (simp add: assms(4) begin_line_def)
  moreover have "length name + 1 \<le> length (buf st)" by (simp add: assms(4) begin_line_def)
  ultimately show ?thesis
    using sscanf_begin_line [OF assms(1-3)] assms(5)
    by (auto simp: parse_header_def Let_def write_at_def sized_def)
qed

section \<open>Body and end\<close>

lemma enc_line_split: "enc_line bs = butlast (enc_line bs) @ [newline]"
  by (simp add: enc_line_def butlast_append)

lemma length_enc_line: "length bs < 64 \<Longrightarrow> length (enc_line bs) \<le> 90"
proof -
  assume "length bs < 64"
  then have "(length bs + 2) div 3 \<le> 65 div 3" by (intro div_le_mono) simp
  then show ?thesis by (simp add: enc_line_def length_enc_groups)
qed

lemma fgets_enc_line:
  assumes "length bs < 64"
  obtains t where "fgets_buf MAXPATHLEN b (enc_line bs @ r) = Some (enc_line bs @ t, r)"
proof -
  let ?l = "butlast (enc_line bs)"
  have "Suc (length ?l) < MAXPATHLEN"
    using length_enc_line [OF assms] by (simp add: MAXPATHLEN_def)
  with enc_line_newline [OF assms]
  have "fgets_buf MAXPATHLEN b (?l @ newline # r)
      = Some (?l @ newline # NUL # drop (Suc (Suc (length ?l))) b, r)"
    by (rule fgets_buf_line)
  then have "fgets_buf MAXPATHLEN b (enc_line bs @ r)
      = Some (enc_line bs @ NUL # drop (Suc (Suc (length ?l))) b, r)"
    by (metis append.assoc append_Cons append_Nil enc_line_split)
  with that show thesis .
qed

lemma decode_lines_body:
  assumes "\<forall>c \<in> set cs. 0 < length c \<and> length c < 64" and "sized st"
    and "inp st = concat (map enc_line cs) @ enc_line [] @ r"
  shows "\<exists>b. decode_lines st
      = Some (st\<lparr>buf := b, inp := r, events := events st @ map Put (concat cs)\<rparr>, Inr ())
    \<and> length b = MAXPATHLEN"
  using assms
proof (induction cs arbitrary: st)
  case Nil
  obtain t where g: "fgets_buf MAXPATHLEN (buf st) (inp st) = Some (enc_line [] @ t, r)"
    using Nil fgets_enc_line [of "[]" "buf st" r] by auto
  moreover have "DEC ((enc_line [] @ t) ! 0) = 0" using decode_loop_enc_line(1) [of "[]" t] by simp
  ultimately show ?case using fgets_buf_wf [OF g Nil.prems(2)]
    by (subst decode_lines.simps) (auto simp: Let_def uu_wf_def sized_def)
next
  case (Cons c cs)
  let ?r = "concat (map enc_line cs) @ enc_line [] @ r"
  from Cons.prems have c: "0 < length c" "length c < 64" by auto
  obtain t where g: "fgets_buf MAXPATHLEN (buf st) (inp st) = Some (enc_line c @ t, ?r)"
    using Cons.prems fgets_enc_line [OF c(2), of "buf st" ?r] by auto
  let ?st = "st\<lparr>buf := enc_line c @ t, inp := ?r, events := events st @ map Put c\<rparr>"
  have "decode_lines st = decode_lines ?st"
    using g c decode_loop_enc_line [OF c(2), of t]
    by (subst decode_lines.simps) (simp add: Let_def)
  moreover have "sized ?st" using fgets_buf_wf [OF g Cons.prems(2)] by (simp add: uu_wf_def)
  ultimately show ?case using Cons.IH [of ?st] Cons.prems(1) by auto
qed

lemma check_end_line:
  assumes "inp st = ''end'' @ newline # r"
  shows "\<exists>b. check_end st = Some (st\<lparr>buf := b, inp := r\<rparr>, Inr ())"
proof -
  let ?b = "''end'' @ newline # NUL # drop (Suc (Suc (length ''end''))) (buf st)"
  have "fgets_buf MAXPATHLEN (buf st) (''end'' @ newline # r) = Some (?b, r)"
    by (rule fgets_buf_line) (simp_all add: MAXPATHLEN_def)
  with assms have "check_end st = Some (st\<lparr>buf := ?b, inp := r\<rparr>, Inr ())"
    by (simp add: check_end_def Let_def cstr_def)
  then show ?thesis by blast
qed

section \<open>The round trip\<close>

lemma header_steps:
  assumes "plain_name name" and "mode < 2 ^ 31" and "32 \<le> long_bits env"
    and "length (begin_line mode name) + 1 < MAXPATHLEN"
    and "\<forall>l \<in> set pre. other_line l"
    and "freopen_w env name" and "fchmod_ok env name (int mode AND 438)" and "sized st"
    and "inp st = concat (map (\<lambda>l. l @ [newline]) pre) @ begin_line mode name @ newline # body"
  shows "\<exists>b. length b = MAXPATHLEN \<and> decode_steps env k st =
    andthen (decode_lines (st\<lparr>buf := b, inp := body,
      events := events st @ [OpenOut name, Chmod (int mode AND 438)]\<rparr>)) (\<lambda>st _. check_end st)"
proof -
  have nl: "newline \<notin> set (begin_line mode name)"
    using newline_name [OF assms(1)] by (simp add: begin_line_def)
  have six: "take 6 (begin_line mode name) = ''begin ''" by (simp add: begin_line_def)
  have len: "Suc (length (begin_line mode name)) < MAXPATHLEN" using assms(4) by simp
  from find_header_lines [OF assms(5,9) six nl len assms(8)] obtain t where
    1: "find_header st = Some (st\<lparr>buf := begin_line mode name @ newline # NUL # t, inp := body\<rparr>, Inr ())"
    and s1: "sized (st\<lparr>buf := begin_line mode name @ newline # NUL # t, inp := body\<rparr>)"
    by blast
  let ?st1 = "st\<lparr>buf := begin_line mode name @ newline # NUL # t, inp := body\<rparr>"
  have "buf ?st1 = begin_line mode name @ newline # NUL # t" by simp
  from parse_header_line [OF assms(1-3) this s1] obtain b where
    2: "parse_header env k ?st1 = Some (?st1\<lparr>buf := name @ NUL # b\<rparr>, Inr (int mode))"
    and s2: "sized (?st1\<lparr>buf := name @ NUL # b\<rparr>)"
    by blast
  let ?st2 = "?st1\<lparr>buf := name @ NUL # b\<rparr>"
  have 3: "expand_user env ?st2 = Some (?st2, Inr ())"
    using assms(1) by (intro expand_user_plain) (cases name; simp add: plain_name_def)
  let ?ev = "events st @ [OpenOut name, Chmod (int mode AND 438)]"
  have 4: "open_output env (int mode) ?st2 = Some (?st2\<lparr>events := ?ev\<rparr>, Inr ())"
    using assms(6,7) nul_free_name [OF assms(1)] by (simp add: open_output_def emit_def)
  have "decode_steps env k st = andthen (decode_lines (?st2\<lparr>events := ?ev\<rparr>)) (\<lambda>st _. check_end st)"
    unfolding decode_steps_def by (simp only: 1 2 3 4 andthen_simps)
  moreover have "?st2\<lparr>events := ?ev\<rparr> = st\<lparr>buf := name @ NUL # b, inp := body, events := ?ev\<rparr>" by simp
  moreover have "length (name @ NUL # b) = MAXPATHLEN" using s2 by (simp add: sized_def)
  ultimately show ?thesis by metis
qed

text \<open>C1: \<open>decode\<close> inverts the uuencode format: on any input that consists of lines without a begin
  line, the encoding of \<open>data\<close> under a mode and a plain name, and anything after it, the file is
  opened, gets the mode without its special and execute bits, receives exactly the bytes \<open>data\<close>,
  the status is 0, and the input after the end line is left unread.\<close>

theorem decode_uuencode:
  assumes "plain_name name" and "mode < 2 ^ 31" and "32 \<le> long_bits env"
    and "length (begin_line mode name) + 1 < MAXPATHLEN"
    and "\<forall>l \<in> set pre. other_line l"
    and "freopen_w env name" and "fchmod_ok env name (int mode AND 438)"
    and "inp st = concat (map (\<lambda>l. l @ [newline]) pre) @ uuencode mode name data @ post"
  shows "\<exists>b. decode env f k st = Some (st\<lparr>buf := b, inp := post,
      events := events st @ OpenOut name # Chmod (int mode AND 438) # map Put data\<rparr>, 0)"
proof -
  let ?st = "st\<lparr>buf := map (uninit_buf env k) [0..<MAXPATHLEN]\<rparr>"
  let ?ev = "events st @ [OpenOut name, Chmod (int mode AND 438)]"
  have "inp ?st = concat (map (\<lambda>l. l @ [newline]) pre) @ begin_line mode name
      @ newline # uuencode_body data @ post"
    using assms(8) by (simp add: uuencode_def)
  from header_steps [OF assms(1-7) sized_uninit this] obtain b where b: "length b = MAXPATHLEN"
    and 1: "decode_steps env k ?st = andthen (decode_lines (?st\<lparr>buf := b,
      inp := uuencode_body data @ post, events := ?ev\<rparr>)) (\<lambda>st _. check_end st)" by auto
  obtain b' where 2: "decode_lines (?st\<lparr>buf := b, inp := uuencode_body data @ post, events := ?ev\<rparr>)
      = Some (?st\<lparr>buf := b', inp := ''end'' @ newline # post, events := ?ev @ map Put data\<rparr>, Inr ())"
    using decode_lines_body [of "chunks data" "?st\<lparr>buf := b, inp := uuencode_body data @ post, events := ?ev\<rparr>"
        "''end'' @ newline # post"] b length_chunk [of _ data]
    by (fastforce simp: sized_def uuencode_body_def)
  let ?st3 = "?st\<lparr>buf := b', inp := ''end'' @ newline # post, events := ?ev @ map Put data\<rparr>"
  have "inp ?st3 = ''end'' @ newline # post" by simp
  from check_end_line [OF this] obtain b'' where
    3: "check_end ?st3 = Some (?st3\<lparr>buf := b'', inp := post\<rparr>, Inr ())" by blast
  have "decode env f k st = Some (?st3\<lparr>buf := b'', inp := post\<rparr>, 0)"
    unfolding decode_def 1 2 andthen_simps 3 by simp
  moreover have "?st3\<lparr>buf := b'', inp := post\<rparr> = st\<lparr>buf := b'', inp := post,
      events := events st @ OpenOut name # Chmod (int mode AND 438) # map Put data\<rparr>" by simp
  ultimately show ?thesis by metis
qed

theorem decode_uuencode_witness:
  "\<exists>b. decode
      \<lparr>getpwnam = (\<lambda>_. None), freopen_r = (\<lambda>_. None), freopen_w = (\<lambda>_. True),
       fchmod_ok = (\<lambda>_ _. True), strerror = (\<lambda>_. []), long_bits = 32,
       uninit_buf = (\<lambda>_ _. NUL), uninit_mode = (\<lambda>_. 0)\<rparr> ''f'' 0
      \<lparr>inp = ''hello'' @ newline # uuencode 493 ''x'' [1, 2, 255] @ ''rest'', buf = [], events = []\<rparr>
    = Some (\<lparr>inp = ''rest'', buf = b,
             events = [OpenOut ''x'', Chmod 420, Put 1, Put 2, Put 255]\<rparr>, 0)"
proof -
  let ?env = "\<lparr>getpwnam = (\<lambda>_. None), freopen_r = (\<lambda>_. None), freopen_w = (\<lambda>_. True),
       fchmod_ok = (\<lambda>_ _. True), strerror = (\<lambda>_. []), long_bits = 32,
       uninit_buf = (\<lambda>_ _. NUL), uninit_mode = (\<lambda>_. 0)\<rparr>"
  let ?st = "\<lparr>inp = ''hello'' @ newline # uuencode 493 ''x'' [1, 2, 255] @ ''rest'', buf = [], events = []\<rparr>"
  have "plain_name ''x''" by (simp add: plain_name_def isspace_def Let_def)
  moreover have "length (begin_line 493 ''x'') + 1 < MAXPATHLEN"
    by (simp add: begin_line_def digits.simps MAXPATHLEN_def)
  moreover have "\<forall>l \<in> set [''hello'']. other_line l" by (simp add: other_line_def MAXPATHLEN_def)
  moreover have "inp ?st = concat (map (\<lambda>l. l @ [newline]) [''hello'']) @ uuencode 493 ''x'' [1, 2, 255] @ ''rest''"
    by simp
  ultimately show ?thesis
    using decode_uuencode [of "''x''" 493 ?env "[''hello'']" ?st "[1, 2, 255]" "''rest''" "''f''" 0] by simp
qed

end
