(* ===== verification/UuProps.thy ===== *)
theory UuProps
  imports UuRound
begin

text \<open>
  What \<open>uudecode\<close> guarantees, over the stages of \<open>UuSafe\<close>: the output depends on the log only by
  appending to it (\<open>uu_log\<close>), the exit status tells whether every file was decoded, the path that is
  opened, the mode it gets, and the two places where the decoder works with indeterminate data.
\<close>

unbundle bit_operations_syntax

section \<open>The record of events is only appended to\<close>

definition shift :: "uu_event list \<Rightarrow> uu_state \<Rightarrow> uu_state" where
  "shift es st = st\<lparr>events := es @ events st\<rparr>"

definition shifted :: "uu_event list \<Rightarrow> 'a uu_step \<Rightarrow> 'a uu_step" where
  "shifted es m = map_option (map_prod (shift es) id) m"

lemma shift_simps [simp]:
  "buf (shift es st) = buf st" "inp (shift es st) = inp st" "events (shift es st) = es @ events st"
  "shift es st\<lparr>buf := b\<rparr> = shift es (st\<lparr>buf := b\<rparr>)"
  "shift es st\<lparr>inp := i\<rparr> = shift es (st\<lparr>inp := i\<rparr>)"
  "shift es st\<lparr>events := es @ xs\<rparr> = shift es (st\<lparr>events := xs\<rparr>)"
  "emit e (shift es st) = shift es (emit e st)"
  by (simp_all add: shift_def emit_def)

lemma shifted_simps [simp]:
  "shifted es None = None" "shifted es (Some (st, x)) = Some (shift es st, x)"
  by (simp_all add: shifted_def)

text \<open>A stage that reads neither what was logged before nor anything but its state.\<close>

locale uu_log =
  fixes op :: "uu_state \<Rightarrow> 'a uu_step"
  assumes op_shift: "op (shift es st) = shifted es (op st)"
begin

lemma then_shift:
  assumes "\<And>st a. f (shift es st) a = shifted es (f st a)"
  shows "andthen (op (shift es st)) f = shifted es (andthen (op st) f)"
proof (cases "op st")
  case (Some p)
  then obtain st' x where "op st = Some (st', x)" by (cases p) auto
  with assms show ?thesis by (cases x) (simp_all add: op_shift)
qed (simp add: op_shift)

end

interpretation log_find: uu_log find_header
proof
  fix es st show "find_header (shift es st) = shifted es (find_header st)"
  proof (induction st rule: find_header.induct)
    case (1 st)
    show ?case
    proof (cases "fgets_buf MAXPATHLEN (buf st) (inp st)")
      case None
      then show ?thesis by (simp add: find_header.simps)
    next
      case (Some p)
      then obtain b r where "fgets_buf MAXPATHLEN (buf st) (inp st) = Some (b, r)" by (cases p) auto
      with 1 show ?thesis
        by (simp add: find_header.simps [of st] find_header.simps [of "shift es st"] Let_def)
    qed
  qed
qed

interpretation log_parse: uu_log "parse_header env k" for env k
  by unfold_locales (auto simp: parse_header_def Let_def split: prod.splits option.splits)

interpretation log_expand: uu_log "expand_user env" for env
proof
  fix es st show "expand_user env (shift es st) = shifted es (expand_user env st)"
    by (simp add: expand_user_def Let_def bind_eq_None_conv
        split: option.split Option.bind_split)
qed

interpretation log_open: uu_log "open_output env mode" for env mode
  by unfold_locales (simp add: open_output_def Let_def)

interpretation log_lines: uu_log decode_lines
proof
  fix es st show "decode_lines (shift es st) = shifted es (decode_lines st)"
  proof (induction st rule: decode_lines.induct)
    case (1 st)
    show ?case
    proof (cases "fgets_buf MAXPATHLEN (buf st) (inp st)")
      case None
      then show ?thesis by (simp add: decode_lines.simps)
    next
      case (Some p)
      then obtain b r where "fgets_buf MAXPATHLEN (buf st) (inp st) = Some (b, r)" by (cases p) auto
      with 1 show ?thesis
        by (auto simp: decode_lines.simps [of st] decode_lines.simps [of "shift es st"] Let_def
            split: option.split)
    qed
  qed
qed

interpretation log_end: uu_log check_end
  by unfold_locales (auto simp: check_end_def Let_def split: option.splits)

lemma decode_steps_shift: "decode_steps env k (shift es st) = shifted es (decode_steps env k st)"
  unfolding decode_steps_def
  by (intro log_find.then_shift log_parse.then_shift log_expand.then_shift log_open.then_shift
      log_lines.then_shift log_end.op_shift)


section \<open>The exit status\<close>

definition fresh :: "string \<Rightarrow> uu_state" where
  "fresh contents = \<lparr>inp = contents, buf = [], events = []\<rparr>"

lemma decode_fresh:
  "decode env f k st = map_option (map_prod (shift (events st)) id) (decode env f k (fresh (inp st)))"
proof -
  let ?b = "map (uninit_buf env k) [0..<MAXPATHLEN]"
  have "st\<lparr>buf := ?b\<rparr> = shift (events st) (fresh (inp st)\<lparr>buf := ?b\<rparr>)"
    by (simp add: shift_def fresh_def)
  then show ?thesis
    by (auto simp: decode_def decode_steps_shift split: option.split sum.split prod.split)
qed

text \<open>The \<open>k\<close>-th file can be opened and is decoded to its end line.\<close>

definition file_ok :: "uu_env \<Rightarrow> nat \<Rightarrow> string \<Rightarrow> bool" where
  "file_ok env k f =
     (case freopen_r env f of
        None \<Rightarrow> False
      | Some contents \<Rightarrow> map_option snd (decode env f k (fresh contents)) = Some 0)"

fun files_ok :: "uu_env \<Rightarrow> nat \<Rightarrow> string list \<Rightarrow> bool" where
  "files_ok env k [] \<longleftrightarrow> True"
| "files_ok env k (f # fs) \<longleftrightarrow> file_ok env k f \<and> files_ok env (Suc k) fs"

lemma uu_files_status_from:
  "rval = 0 \<or> rval = 1 \<Longrightarrow>
    \<exists>st' r. uu_files env k rval fs st = Some (st', r) \<and> (r = 0 \<longleftrightarrow> rval = 0 \<and> files_ok env k fs)"
proof (induction env k rval fs st rule: uu_files.induct)
  case (2 env k rval f fs st)
  show ?case
  proof (cases "freopen_r env f")
    case None
    with 2 show ?thesis by (fastforce simp: file_ok_def)
  next
    case (Some c)
    obtain st' r where d: "decode env f k (st\<lparr>inp := c\<rparr>) = Some (st', r)" "r = 0 \<or> r = 1"
      using decode_total [of env f k "st\<lparr>inp := c\<rparr>"] by blast
    from d decode_fresh [of env f k "st\<lparr>inp := c\<rparr>"]
    have "map_option snd (decode env f k (fresh c)) = Some r" by auto
    then have ok: "file_ok env k f \<longleftrightarrow> r = 0" by (auto simp: file_ok_def Some)
    from d(2) "2.prems" have "rval OR r = 0 \<or> rval OR r = 1" "rval OR r = 0 \<longleftrightarrow> rval = 0 \<and> r = 0"
      by auto
    with 2 Some d(1) ok show ?thesis by fastforce
  qed
qed simp

text \<open>C31: \<open>main\<close> always returns, and its exit status is 0 exactly when there was no option on the
  command line and every operand (or standard input, when there is none) could be opened and was
  decoded up to its end line; a failure of one file does not keep the others from being decoded.\<close>

theorem uu_main_status:
  "\<exists>st r. uu_main env args stdin = Some (st, r) \<and> (r = 0 \<or> r = 1) \<and>
    (r = 0 \<longleftrightarrow> fst (getopt_all [] args) = [] \<and>
      (if snd (getopt_all [] args) = []
       then map_option snd (decode env ''stdin'' 0 (fresh stdin)) = Some 0
       else files_ok env 0 (snd (getopt_all [] args))))"
proof -
  obtain opts ops where g: "getopt_all [] args = (opts, ops)" by fastforce
  show ?thesis
    using decode_total [of env "''stdin''" 0 "fresh stdin"]
      uu_files_status_from [of 0 env 0 ops "fresh stdin"] uu_files_total [of 0 env 0 ops "fresh stdin"]
    by (cases "opts = []"; cases "ops = []") (auto simp: uu_main_def fresh_def g)
qed

section \<open>The lines of the body\<close>

text \<open>C22: the loop over the data lines, in the terms of a decoder of whole groups of four: a line
  \<open>l\<close> that \<open>fgets\<close> delivers ends the loop when its count is not positive, and otherwise writes the
  announced number of bytes of the groups behind the count. The groups are taken from the whole
  buffer: when the line is shorter than announced, what the buffer held behind it is decoded.\<close>

theorem decode_lines_unfold:
  assumes "length (buf st) = MAXPATHLEN" and "fgets MAXPATHLEN (inp st) = Some (l, rest)"
  shows "decode_lines st =
    (let b = l @ NUL # drop (Suc (length l)) (buf st); n = nat (DEC (hd l)) in
     if n = 0 then Some (st\<lparr>buf := b, inp := rest\<rparr>, Inr ())
     else decode_lines (st\<lparr>buf := b, inp := rest,
            events := events st @ map Put (take n (dec4s (tl l @ NUL # drop (Suc (length l)) (buf st))))\<rparr>))"
proof -
  let ?b = "l @ NUL # drop (Suc (length l)) (buf st)"
  from assms(2) uu_in.piece_nonempty obtain c cs where l: "l = c # cs" by (cases l) auto
  have g: "fgets_buf MAXPATHLEN (buf st) (inp st) = Some (?b, rest)"
    by (simp add: fgets_buf_def assms(2))
  have len: "length ?b = MAXPATHLEN" using length_fgets_buf [OF g assms(1)] by simp
  have "nat (DEC c) \<le> 63" using DEC_range(2) [of c] by simp
  then have "(nat (DEC c) + 2) div 3 \<le> (63 + 2) div 3" by (intro div_le_mono) simp
  with len have "1 + 4 * ((nat (DEC c) + 2) div 3) \<le> length ?b"
    by (simp only: MAXPATHLEN_def)
  then have "decode_loop ?b 1 (DEC c) = Some (take (nat (DEC c)) (dec4s (drop 1 ?b)))"
    by (rule decode_loop_eq)
  with g show ?thesis by (subst decode_lines.simps) (simp add: Let_def l)
qed

theorem decode_lines_unfold_witness:
  "decode_lines \<lparr>inp = ''#````'' @ newline # ''rest'', buf = replicate MAXPATHLEN NUL, events = []\<rparr> =
   decode_lines \<lparr>inp = ''rest'',
     buf = ''#````'' @ newline # NUL # drop (Suc (length (''#````'' @ [newline]))) (replicate MAXPATHLEN NUL),
     events = [Put 0, Put 0, Put 0]\<rparr>"
proof -
  let ?l = "''#````'' @ [newline]"
  let ?st = "\<lparr>inp = ?l @ ''rest'', buf = replicate MAXPATHLEN NUL, events = []\<rparr>"
  have "fgets MAXPATHLEN (''#````'' @ newline # ''rest'') = Some (?l, ''rest'')"
    by (rule fgets_short) (simp_all add: MAXPATHLEN_def)
  then have "fgets MAXPATHLEN (inp ?st) = Some (?l, ''rest'')" by simp
  moreover have "length (buf ?st) = MAXPATHLEN" by simp
  moreover have "DEC (CHR ''#'') = 3" and "DEC (CHR ''`'') = 0" by (simp_all add: DEC_def schar_def)
  ultimately show ?thesis
    using decode_lines_unfold [of ?st ?l "''rest''"] by (simp add: Let_def dec4_def to_byte_def)
qed


section \<open>The path\<close>

text \<open>The path for the name \<open>s\<close> of the begin line.\<close>

definition expanded :: "uu_env \<Rightarrow> string \<Rightarrow> uu_error + string" where
  "expanded env s =
     (if take 1 s \<noteq> ''~'' then Inr s
      else
        let user = takeWhile (\<lambda>c. c \<noteq> CHR ''/'') (tl s); rest = drop (Suc (length user)) (tl s)
        in if CHR ''/'' \<notin> set s then Inl IllegalUser
           else case getpwnam env user of
               None \<Rightarrow> Inl (NoUser (CHR ''~'' # user))
             | Some d \<Rightarrow>
                 if length (cstr d 0) + length rest + 2 > MAXPATHLEN then Inl PathTooLong
                 else Inr (cstr d 0 @ CHR ''/'' # rest))"

lemma expanded_user: "at_user s user rest \<Longrightarrow> expanded env s =
    (case getpwnam env user of
       None \<Rightarrow> Inl (NoUser (CHR ''~'' # user))
     | Some d \<Rightarrow> if length (cstr d 0) + length rest + 2 > MAXPATHLEN then Inl PathTooLong
                 else Inr (cstr d 0 @ CHR ''/'' # rest))"
proof -
  assume a: "at_user s user rest"
  then have "takeWhile (\<lambda>c. c \<noteq> CHR ''/'') (user @ CHR ''/'' # rest) = user"
    by (intro takeWhile_append_stop) (auto simp: at_user_def)
  with a show ?thesis by (simp add: expanded_def at_user_def)
qed

lemma at_userE:
  assumes "s \<noteq> []" and "hd s = CHR ''~''" and "CHR ''/'' \<in> set s"
  obtains user rest where "at_user s user rest"
proof -
  obtain t where s: "s = CHR ''~'' # t" using assms(1,2) by (cases s) auto
  with assms(3) obtain u r where "t = u @ CHR ''/'' # r" "CHR ''/'' \<notin> set u"
    by (auto dest: split_list_first)
  with s that show thesis by (simp add: at_user_def)
qed

text \<open>C23: the in-place handling of \<open>~user/file\<close> in the buffer (two overlapping copies and a store)
  implements the expansion on strings: it never leaves the buffer, every error is the one the
  specification names, and otherwise the buffer holds the specified path.\<close>

theorem expand_user_refines:
  assumes "length (buf st) = MAXPATHLEN" and "terminated (buf st) 0"
  shows "\<exists>st' x. expand_user env st = Some (st', x) \<and> inp st' = inp st \<and> events st' = events st \<and>
    expanded env (cstr (buf st) 0) = (case x of Inl e \<Rightarrow> Inl e | Inr _ \<Rightarrow> Inr (cstr (buf st') 0))"
proof -
  let ?s = "cstr (buf st) 0"
  have wf: "uu_wf st" using assms by (simp add: uu_wf_def sized_def)
  obtain tail where split: "buf st = ?s @ NUL # tail" using terminated_split [OF assms(2)] .
  have first: "buf st ! 0 = CHR ''~'' \<longleftrightarrow> ?s \<noteq> [] \<and> hd ?s = CHR ''~''"
    by (subst split) (cases ?s; simp)
  consider (plain) "buf st ! 0 \<noteq> CHR ''~''"
    | (illegal) "buf st ! 0 = CHR ''~''" "CHR ''/'' \<notin> set ?s"
    | (user) user rest where "at_user ?s user rest"
    using first at_userE [of ?s] by blast
  then show ?thesis
  proof cases
    case plain
    with first have "take 1 ?s \<noteq> ''~''" by (cases ?s) auto
    with plain show ?thesis by (simp add: expand_user_plain expanded_def)
  next
    case illegal
    with first have "take 1 ?s = ''~''" by (cases ?s) auto
    with illegal first wf show ?thesis by (simp add: expand_user_illegal expanded_def)
  next
    case user
    then have "nul_free rest" using nul_free_cstr [of "buf st" 0] by (simp add: at_user_def)
    with expand_user_user [OF wf user, of env] show ?thesis
      by (auto simp: expanded_user [OF user] cstr_append_mid split: option.split if_splits)
  qed
qed


text \<open>A concrete environment and states for the instances below.\<close>

definition demo_env :: uu_env where
  "demo_env =
     \<lparr>getpwnam = (\<lambda>u. if u = ''root'' then Some ''/root'' else None), freopen_r = (\<lambda>_. None),
      freopen_w = (\<lambda>_. True), fchmod_ok = (\<lambda>_ _. True), strerror = (\<lambda>_. ''error''),
      long_bits = 32, uninit_buf = (\<lambda>_ _. CHR ''?''), uninit_mode = (\<lambda>_. - 1)\<rparr>"

theorem expand_user_refines_witness:
  "\<exists>st' x. expand_user demo_env \<lparr>inp = [], buf = ''~root/a'' @ replicate (MAXPATHLEN - 7) NUL, events = []\<rparr>
      = Some (st', x) \<and> inp st' = [] \<and> events st' = [] \<and>
    Inr ''/root/a'' = (case x of Inl e \<Rightarrow> Inl e | Inr _ \<Rightarrow> Inr (cstr (buf st') 0))"
proof -
  let ?b = "''~root/a'' @ replicate (MAXPATHLEN - 7) NUL"
  let ?st = "\<lparr>inp = [], buf = ?b, events = []\<rparr>"
  have r: "replicate (MAXPATHLEN - 7) NUL = NUL # replicate 4088 NUL"
    using replicate_Suc [of 4088 NUL] by (simp add: MAXPATHLEN_def)
  then have s: "cstr (buf ?st) 0 = ''~root/a''" using cstr_append_NUL [of "''~root/a''"] by simp
  have "length (buf ?st) = MAXPATHLEN" by (simp add: MAXPATHLEN_def)
  moreover have "terminated (buf ?st) 0" by (simp add: terminated_def r)
  ultimately have "\<exists>st' x. expand_user demo_env ?st = Some (st', x) \<and> inp st' = inp ?st \<and>
      events st' = events ?st \<and>
      expanded demo_env (cstr (buf ?st) 0) = (case x of Inl e \<Rightarrow> Inl e | Inr _ \<Rightarrow> Inr (cstr (buf st') 0))"
    by (rule expand_user_refines)
  moreover have "expanded demo_env ''~root/a'' = Inr ''/root/a''"
    by (simp add: expanded_def demo_env_def cstr_def MAXPATHLEN_def)
  ultimately show ?thesis unfolding s by simp
qed

section \<open>What reaches the outside\<close>

text \<open>C27: whatever the input is, \<open>decode\<close> returns, without an access outside its buffer. With
  status 0 it opened one file, set a masked mode and wrote bytes, and printed nothing on standard
  error. With status 1 the last thing it did is to print a single message, and before that it did a
  prefix of those actions.\<close>

theorem decode_outcome:
  "\<exists>st' r es. decode env f k st = Some (st', r) \<and> events st' = events st @ es \<and>
    (r = 0 \<and> (\<exists>path m bs. es = OpenOut path # Chmod (m AND 438) # map Put bs) \<or>
     r = 1 \<and> (\<exists>es' msg. es = es' @ [Stderr msg] \<and> 
       (es' = [] \<or> (\<exists>path. es' = [OpenOut path]) \<or>
        (\<exists>path m bs. es' = OpenOut path # Chmod (m AND 438) # map Put bs))))"
  using decode_total [of env f k st] by (simp add: partial_events_def output_events_def)

definition plain_mode :: "uu_event \<Rightarrow> bool" where
  "plain_mode e = (case e of Chmod m \<Rightarrow> m AND NOT 438 = 0 | _ \<Rightarrow> True)"

lemma masked: "(m AND 438) AND NOT (438 :: int) = 0"
  by (simp add: and.assoc)

lemma output_plain: "output_events es \<Longrightarrow> list_all plain_mode es"
  using masked by (auto simp: output_events_def plain_mode_def list_all_iff)

lemma decode_plain:
  "decode env f k st = Some (st', r) \<Longrightarrow> list_all plain_mode (events st) \<Longrightarrow>
    list_all plain_mode (events st')"
  using decode_total [of env f k st] output_plain
  by (auto simp: partial_events_def) (auto simp: plain_mode_def)

lemma uu_files_plain:
  "uu_files env k rval fs st = Some (st', r) \<Longrightarrow> list_all plain_mode (events st) \<Longrightarrow>
    list_all plain_mode (events st')"
proof (induction env k rval fs st rule: uu_files.induct)
  case (2 env k rval f fs st)
  show ?case
  proof (cases "freopen_r env f")
    case None
    with 2 show ?thesis by (simp add: emit_def plain_mode_def)
  next
    case (Some c)
    with 2 show ?thesis using decode_plain [of env f k "st\<lparr>inp := c\<rparr>"]
      by (auto split: option.splits)
  qed
qed simp

text \<open>C38: no run of \<open>uudecode\<close>, on any input and any command line, gives a file it creates more
  permissions than reading and writing: execute, set-user-ID, set-group-ID and sticky bits of the
  begin line are dropped.\<close>

theorem uu_main_modes:
  "\<exists>st r. uu_main env args stdin = Some (st, r) \<and> list_all plain_mode (events st)"
proof -
  obtain opts ops where g: "getopt_all [] args = (opts, ops)" by fastforce
  obtain st r where m: "uu_main env args stdin = Some (st, r)" using uu_main_total by blast
  moreover from m have "list_all plain_mode (events st)"
    by (auto simp: uu_main_def Let_def g plain_mode_def emit_def dest: decode_plain uu_files_plain
        split: if_splits)
  ultimately show ?thesis by blast
qed

section \<open>A begin line without a mode\<close>

text \<open>What follows \<open>begin\<close> and a blank does not go on, behind more blanks and an optional sign, with an octal
  digit.\<close>

definition lacks_mode :: "string \<Rightarrow> bool" where
  "lacks_mode s \<longleftrightarrow>
     (let t = dropWhile isspace s; u = (if take 1 t = ''-'' \<or> take 1 t = ''+'' then tl t else t)
      in u = [] \<or> hd u < CHR ''0'' \<or> CHR ''7'' < hd u)"

lemma digit_val_octal: "digit_val c < 8 \<longleftrightarrow> CHR ''0'' \<le> c \<and> c \<le> CHR ''7''"
  by (auto simp: digit_val_def Let_def less_eq_char_def)

lemma scan_octal_lacks_mode:
  assumes "lacks_mode s"
  shows "scan_octal lb (CHR '' '' # s @ [newline]) = None"
proof -
  have sp: "isspace newline" "isspace CHR '' ''" "\<not> digit_val newline < 8" by (simp_all add: isspace_def digit_val_def)
  show ?thesis
  proof (cases "dropWhile isspace s")
    case Nil
    then have "dropWhile isspace (s @ [newline]) = []" using sp by simp
    then show ?thesis using sp by (simp add: scan_octal_def skip_ws_def scan_sign_def starts_digit_def)
  next
    case (Cons c r)
    then have "\<exists>x \<in> set s. \<not> isspace x" by (metis dropWhile_eq_Nil_conv list.distinct(1))
    then have d: "dropWhile isspace (s @ [newline]) = c # r @ [newline]"
      using Cons by (auto simp: dropWhile_append)
    have sg: "scan_sign (c # r @ [newline]) = (c = CHR ''-'',
        if c = CHR ''-'' \<or> c = CHR ''+'' then r @ [newline] else c # r @ [newline])"
      by (simp add: scan_sign_def)
    have "\<not> starts_digit 8 (if c = CHR ''-'' \<or> c = CHR ''+'' then r @ [newline] else c # r @ [newline])"
      using assms Cons sp(3)
      by (cases r) (auto simp: lacks_mode_def starts_digit_def digit_val_octal split: if_splits)
    then show ?thesis using sp(2) d sg by (simp add: scan_octal_def skip_ws_def)
  qed
qed

text \<open>C35: the result of \<open>sscanf\<close> is not looked at. For a begin line with anything but an octal mode behind
  the word (another character, a sign alone, nothing), the file that is opened is named by the whole line,
  newline included, and its permissions are the value of the uninitialised variable \<open>mode\<close>; a failure to
  open it or to set them is reported with that name and ends the decoding of the input.\<close>

theorem header_without_mode:
  assumes "lacks_mode s" and "newline \<notin> set s" and "nul_free s" and "length s + 7 < MAXPATHLEN"
    and "\<forall>l \<in> set pre. other_line l"
    and "inp st = concat (map (\<lambda>l. l @ [newline]) pre) @ ''begin '' @ s @ newline # rest"
  shows "\<exists>st' r es. decode env f k st = Some (st', r) \<and>
    (let p = ''begin '' @ s @ [newline]; m = uninit_mode env k AND 438;
         complaint = Stderr (''uudecode: '' @ p @ '': '' @ f @ '': '' @ strerror env p @ [newline])
     in if \<not> freopen_w env p then r = 1 \<and> events st' = events st @ [OpenOut p, complaint]
        else if \<not> fchmod_ok env p m then r = 1 \<and> events st' = events st @ [OpenOut p, Chmod m, complaint]
        else events st' = events st @ OpenOut p # Chmod m # es)"
proof -
  let ?h = "''begin '' @ s" and ?st = "st\<lparr>buf := map (uninit_buf env k) [0..<MAXPATHLEN]\<rparr>"
  let ?p = "''begin '' @ s @ [newline]" and ?m = "uninit_mode env k AND 438"
  have "newline \<notin> set ?h" using assms(2) by auto
  from find_header_lines [of pre ?st ?h rest, OF assms(5) _ _ this] assms(4,6) obtain t where
    1: "find_header ?st = Some (?st\<lparr>buf := ?h @ newline # NUL # t, inp := rest\<rparr>, Inr ())"
    and s1: "sized (?st\<lparr>buf := ?h @ newline # NUL # t, inp := rest\<rparr>)" by auto
  let ?st1 = "?st\<lparr>buf := ?h @ newline # NUL # t, inp := rest\<rparr>"
  have c: "cstr (buf ?st1) 0 = ?h @ [newline]"
    using assms(3) cstr_append_NUL [of "?h @ [newline]" t] by simp
  have "sscanf_begin (long_bits env) (?h @ [newline]) = (None, None)"
    using scan_octal_lacks_mode [OF assms(1)] by (simp add: sscanf_begin_def)
  then have 2: "parse_header env k ?st1 = Some (?st1, Inr (uninit_mode env k))"
    unfolding parse_header_def c by simp
  have 3: "expand_user env ?st1 = Some (?st1, Inr ())" by (intro expand_user_plain) simp
  note steps = decode_steps_def 1 2 3 andthen_simps
  consider (closed) "\<not> freopen_w env ?p" | (unset) "freopen_w env ?p" "\<not> fchmod_ok env ?p ?m"
    | (opened) "freopen_w env ?p" "fchmod_ok env ?p ?m" by blast
  then show ?thesis
  proof cases
    case closed
    then have 4: "open_output env (uninit_mode env k) ?st1 = Some (emit (OpenOut ?p) ?st1, Inl (OpenFailed ?p))"
      unfolding open_output_def c Let_def by simp
    show ?thesis using closed unfolding decode_def steps 4 by (simp add: emit_def)
  next
    case unset
    then have 4: "open_output env (uninit_mode env k) ?st1 =
        Some (emit (Chmod ?m) (emit (OpenOut ?p) ?st1), Inl (OpenFailed ?p))"
      unfolding open_output_def c Let_def by simp
    show ?thesis using unset unfolding decode_def steps 4 by (simp add: emit_def)
  next
    case opened
    let ?st2 = "emit (Chmod ?m) (emit (OpenOut ?p) ?st1)"
    have 4: "open_output env (uninit_mode env k) ?st1 = Some (?st2, Inr ())"
      unfolding open_output_def c Let_def using opened by simp
    have "sized ?st2" using s1 by simp
    from decode_lines_stage [OF this] obtain st3 x bs where
      5: "decode_lines ?st2 = Some (st3, x)" "sized st3" "events st3 = events ?st2 @ map Put bs" by blast
    obtain st4 y where 6: "check_end st3 = Some (st4, y)"
      using check_end.no_fault [OF 5(2)] by fastforce
    have "\<exists>st5 z. decode_steps env k ?st = Some (st5, z) \<and> events st5 = events ?st2 @ map Put bs"
      unfolding steps 4 5(1) using 5(3) 6 check_end_events [OF 6]
      by (cases x) (simp_all only: andthen_simps, blast+)
    then show ?thesis using opened by (auto simp: decode_def emit_def split: sum.split)
  qed
qed

theorem header_without_mode_witness:
  "\<exists>st' r es. decode demo_env ''f'' 0 (fresh (''begin 9 x'' @ [newline])) = Some (st', r) \<and>
    events st' = OpenOut (''begin 9 x'' @ [newline]) # Chmod 438 # es"
  using header_without_mode [of "''9 x''" "[]" "fresh (''begin 9 x'' @ [newline])" "[]" demo_env "''f''" 0]
  by (simp add: fresh_def demo_env_def MAXPATHLEN_def less_char_def lacks_mode_def isspace_def nul_free_def)

end
