(* ===== verification/UpsCommon.thy ===== *)
theory UpsCommon
  imports Getopt
begin

text \<open>
  What the two UPS monitors of \<open>25volt/src\<close> share: the view of libusb they are written against
  (devices, control transfers and their outcomes are a parameter, the \<open>usb_world\<close>), the program
  state (the globals of each program and the record of what it did), printing, and tables of
  report lines. The interface \<open>report_reader\<close> is what the printing of reports relies on; each
  program interprets it for its own readers.
\<close>

unbundle bit_operations_syntax

section \<open>libusb\<close>

record usb_device =
  idVendor :: u16
  idProduct :: u16

text \<open>The arguments of one \<open>usb_control_msg\<close>; \<open>payload\<close> is what the buffer holds before it.\<close>

record usb_setup =
  requesttype :: int
  request :: int
  setup_value :: int
  index :: int
  payload :: "byte list"
  size_arg :: int
  timeout :: int

text \<open>
  The world: the devices on each bus, whether a device can be opened, and for the \<open>n\<close>-th control
  transfer the return value and the contents of the buffer afterwards (its first bytes from the
  device, the rest what was in the uninitialised array).
\<close>

record usb_world =
  busses :: "usb_device list list"
  can_open :: "usb_device \<Rightarrow> bool"
  control :: "nat \<Rightarrow> usb_setup \<Rightarrow> int \<times> (nat \<Rightarrow> byte)"
  claim_rc :: int
  release_rc :: int
  detach_rc :: int
  attach_rc :: int

text \<open>
  The build: the macros that select conditional code, and the width of \<open>long\<close>.
\<close>

record ups_build =
  DEBUG :: bool
  HAS_DETACH :: bool
  HAS_ATTACH :: bool
  PRINT_STATUS :: bool
  ups_long_bits :: nat

section \<open>State and events\<close>

datatype ups_event =
    Print string | OpenDevice usb_device | DetachDriver | ClaimInterface | Control usb_setup
  | SleepSec nat | ReleaseInterface | AttachDriver | CloseDevice

record ups_state =
  vendor :: int
  product :: int
  tflag :: bool
  hflag :: int
  bflag :: bool
  help_flag :: bool
  detach :: bool
  attach :: bool
  skip :: bool
  status :: u16
  transfers :: nat
  ups_events :: "ups_event list"

definition log_event :: "ups_event \<Rightarrow> ups_state \<Rightarrow> ups_state" where
  "log_event e st = st\<lparr>ups_events := ups_events st @ [e]\<rparr>"

definition printf :: "string \<Rightarrow> ups_state \<Rightarrow> ups_state" where
  "printf s = log_event (Print s)"

definition line :: "string \<Rightarrow> string" where
  "line s = s @ [newline]"

text \<open>One control transfer: its outcome, and the state with the transfer recorded.\<close>

definition control_msg ::
  "usb_world \<Rightarrow> usb_setup \<Rightarrow> ups_state \<Rightarrow> int \<times> (nat \<Rightarrow> byte) \<times> ups_state" where
  "control_msg w s st =
     (let (ret, tmp) = control w (transfers st) s
      in (ret, tmp, (log_event (Control s) st)\<lparr>transfers := Suc (transfers st)\<rparr>))"

text \<open>The HID requests the programs make.\<close>

definition get_report_setup :: "byte \<Rightarrow> usb_setup" where
  "get_report_setup report =
     \<lparr>requesttype = 0xa1, request = 0x01, setup_value = push_bit 8 3 OR uint report, index = 0,
      payload = [], size_arg = 1024, timeout = 5000\<rparr>"

definition set_report_setup :: "byte \<Rightarrow> byte list \<Rightarrow> usb_setup" where
  "set_report_setup report bytes =
     \<lparr>requesttype = 0x21, request = 0x09, setup_value = push_bit 8 3 OR uint report, index = 0,
      payload = bytes, size_arg = 2, timeout = 5000\<rparr>"

text \<open>\<open>USB_ENDPOINT_IN | USB_TYPE_STANDARD | USB_RECIP_INTERFACE\<close>, \<open>USB_REQ_GET_DESCRIPTOR\<close>,
  \<open>USB_DT_HID << 8\<close>, with the numbers of the USB standard.\<close>

definition hid_descriptor_setup :: usb_setup where
  "hid_descriptor_setup =
     \<lparr>requesttype = 0x80 OR 0 OR 1, request = 6, setup_value = push_bit 8 0x21, index = 0,
      payload = [], size_arg = 1024, timeout = 5000\<rparr>"

definition host_to_device :: "ups_event \<Rightarrow> bool" where
  "host_to_device e \<longleftrightarrow> (case e of Control s \<Rightarrow> \<not> bit (requesttype s) 7 | _ \<Rightarrow> False)"

lemma ups_state_simps [simp]:
  "ups_events (log_event e st) = ups_events st @ [e]"
  "transfers (log_event e st) = transfers st" "status (log_event e st) = status st"
  "hflag (log_event e st) = hflag st" "tflag (log_event e st) = tflag st"
  "bflag (log_event e st) = bflag st" "skip (log_event e st) = skip st"
  "attach (log_event e st) = attach st" "detach (log_event e st) = detach st"
  "help_flag (log_event e st) = help_flag st" "vendor (log_event e st) = vendor st"
  "product (log_event e st) = product st"
  by (simp_all add: log_event_def)

lemma host_to_device_simps [simp]:
  "\<not> host_to_device (Print s)" "\<not> host_to_device (Control (get_report_setup r))"
  "\<not> host_to_device (Control hid_descriptor_setup)"
  "host_to_device (Control (set_report_setup r bs))"
  "\<not> host_to_device (OpenDevice d)" "\<not> host_to_device DetachDriver"
  "\<not> host_to_device ClaimInterface" "\<not> host_to_device (SleepSec n)"
  "\<not> host_to_device ReleaseInterface" "\<not> host_to_device AttachDriver" "\<not> host_to_device CloseDevice"
  by (simp_all add: host_to_device_def get_report_setup_def set_report_setup_def
      hid_descriptor_setup_def)

text \<open>Events that only look: messages, and transfers from the device.\<close>

definition quiet :: "ups_event \<Rightarrow> bool" where
  "quiet e \<longleftrightarrow> (case e of Print _ \<Rightarrow> True | Control s \<Rightarrow> bit (requesttype s) 7 | _ \<Rightarrow> False)"

text \<open>Events of a program that has the interface: messages, transfers, waiting.\<close>

definition device_io :: "ups_event \<Rightarrow> bool" where
  "device_io e \<longleftrightarrow> (case e of Print _ \<Rightarrow> True | Control _ \<Rightarrow> True | SleepSec _ \<Rightarrow> True | _ \<Rightarrow> False)"

lemma quiet_simps [simp]:
  "quiet (Print s)" "quiet (Control (get_report_setup r))" "quiet (Control hid_descriptor_setup)"
  "\<not> quiet (Control (set_report_setup r bs))" "\<not> quiet (SleepSec n)"
  by (simp_all add: quiet_def get_report_setup_def set_report_setup_def hid_descriptor_setup_def)

lemma device_io_simps [simp]:
  "device_io (Print s)" "device_io (Control u)" "device_io (SleepSec n)"
  "\<not> device_io (OpenDevice d)" "\<not> device_io ClaimInterface" "\<not> device_io ReleaseInterface"
  "\<not> device_io CloseDevice" "\<not> device_io DetachDriver" "\<not> device_io AttachDriver"
  by (simp_all add: device_io_def)

lemma quietD: "quiet e \<Longrightarrow> device_io e \<and> \<not> host_to_device e"
  by (auto simp: quiet_def device_io_def host_to_device_def split: ups_event.splits)

section \<open>Configuration of a run\<close>

text \<open>
  Everything of the state but the record of what happened and the counter of transfers: what the
  operations on the device leave alone.
\<close>

definition settings :: "ups_state \<Rightarrow> ups_state" where
  "settings st = st\<lparr>transfers := 0, ups_events := [], status := 0\<rparr>"

lemma settings_log_event [simp]: "settings (log_event e st) = settings st"
  by (simp add: settings_def log_event_def)

lemma settings_updates [simp]:
  "settings (st\<lparr>transfers := n\<rparr>) = settings st" "settings (st\<lparr>ups_events := es\<rparr>) = settings st"
  "settings (st\<lparr>status := s\<rparr>) = settings st"
  by (simp_all add: settings_def)

lemma settings_eqD: "settings st = settings st' \<Longrightarrow>
    vendor st = vendor st' \<and> product st = product st' \<and> tflag st = tflag st' \<and> hflag st = hflag st' \<and>
    bflag st = bflag st' \<and> help_flag st = help_flag st' \<and> detach st = detach st' \<and> attach st = attach st' \<and>
    skip st = skip st'"
  by (cases st; cases st') (simp add: settings_def)

section \<open>Tables of report lines\<close>

text \<open>
  A line of a report: how the value is read and how it is printed. \<open>print_table\<close> is the sequence of
  \<open>printf\<close> calls; the argument of each is evaluated, with its transfer, before the line appears.
\<close>

type_synonym reading = "ups_state \<Rightarrow> int \<times> ups_state"

fun print_table :: "(reading \<times> (int \<Rightarrow> string)) list \<Rightarrow> ups_state \<Rightarrow> ups_state" where
  "print_table [] st = st"
| "print_table ((rd, fmt) # ls) st =
     (let (v, st) = rd st in print_table ls (printf (fmt v) st))"

fun print_lines :: "string list \<Rightarrow> ups_state \<Rightarrow> ups_state" where
  "print_lines [] st = st"
| "print_lines (s # ss) st = print_lines ss (printf s st)"

lemma print_lines_events [simp]: "ups_events (print_lines ss st) = ups_events st @ map Print ss"
  by (induction ss arbitrary: st) (simp_all add: printf_def)

lemma print_lines_frame [simp]:
  "transfers (print_lines ss st) = transfers st" "settings (print_lines ss st) = settings st"
  "status (print_lines ss st) = status st"
  by (induction ss arbitrary: st) (simp_all add: printf_def)

text \<open>The contract of a reader: one transfer, from the device to the host, and at most messages.\<close>

locale report_reader =
  fixes rd :: reading
    and report :: byte
  assumes one_transfer: "\<exists>ps. ups_events (snd (rd st))
      = ups_events st @ Control (get_report_setup report) # map Print ps"
    and counts: "transfers (snd (rd st)) = Suc (transfers st)"
    and keeps: "settings (snd (rd st)) = settings st"
begin

lemma quiet_reading: "\<exists>es. ups_events (snd (rd st)) = ups_events st @ es \<and> (\<forall>e \<in> set es. quiet e)"
proof -
  obtain ps where "ups_events (snd (rd st))
      = ups_events st @ Control (get_report_setup report) # map Print ps" using one_transfer by blast
  then show ?thesis by (intro exI [of _ "Control (get_report_setup report) # map Print ps"]) auto
qed

end

text \<open>What a list of readers inherits from the contract of its members.\<close>

definition reads_only :: "reading \<Rightarrow> bool" where
  "reads_only rd \<longleftrightarrow> (\<exists>report. report_reader rd report)"

lemma reads_onlyE:
  assumes "reads_only rd" and "rd st = (v, st1)"
  obtains es where "transfers st1 = Suc (transfers st)" "settings st1 = settings st"
    "ups_events st1 = ups_events st @ es" "\<forall>e \<in> set es. quiet e"
proof -
  from assms(1) obtain report where r: "report_reader rd report" by (auto simp: reads_only_def)
  from report_reader.counts [OF r, of st] report_reader.keeps [OF r, of st]
    report_reader.quiet_reading [OF r, of st] that
  show thesis by (auto simp: assms(2))
qed

lemma print_table_frame:
  assumes "\<forall>l \<in> set ls. reads_only (fst l)"
  shows "transfers (print_table ls st) = transfers st + length ls \<and>
    settings (print_table ls st) = settings st \<and>
    (\<exists>es. ups_events (print_table ls st) = ups_events st @ es \<and> (\<forall>e \<in> set es. quiet e))"
  using assms
proof (induction ls arbitrary: st)
  case Nil
  then show ?case by simp
next
  case (Cons l ls)
  obtain rd fmt where l: "l = (rd, fmt)" by (cases l)
  obtain v st1 where rd: "rd st = (v, st1)" by (cases "rd st")
  from Cons.prems l have "reads_only rd" by simp
  from reads_onlyE [OF this rd] obtain es where 1: "transfers st1 = Suc (transfers st)"
    "settings st1 = settings st" "ups_events st1 = ups_events st @ es"
    "\<forall>e \<in> set es. quiet e" .
  let ?st = "printf (fmt v) st1"
  from Cons.IH [of ?st] Cons.prems obtain es' where 2: "transfers (print_table ls ?st) = transfers ?st + length ls"
    "settings (print_table ls ?st) = settings ?st"
    "ups_events (print_table ls ?st) = ups_events ?st @ es'" "\<forall>e \<in> set es'. quiet e"
    by auto
  have "ups_events (print_table (l # ls) st) = ups_events st @ es @ Print (fmt v) # es'"
    using 1 2 by (simp add: l rd printf_def)
  moreover have "\<forall>e \<in> set (es @ Print (fmt v) # es'). quiet e" using 1 2 by auto
  ultimately show ?case using 1 2 by (auto simp: l rd printf_def)
qed

declare print_table.simps(2) [simp del]

end
