(* ===== verification/UpsPowercom.thy ===== *)
theory UpsPowercom
  imports UpsCommon
begin

text \<open>
  \<open>25volt/src/usb_ups_powercom_wow.c\<close>: the monitor for Powercom UPSs, function by function. Names
  carry the prefix \<open>pc_\<close>. The exits of \<open>main\<close> through the label \<open>release\<close> are an \<open>Inl\<close> with the
  state at the \<open>goto\<close>.
\<close>

unbundle bit_operations_syntax

section \<open>Constants and globals\<close>

definition pc_init :: ups_state where
  "pc_init =
     \<lparr>vendor = 0x0d9f, product = 0x00a4, tflag = False, hflag = 0, bflag = False, help_flag = False,
      detach = False, attach = False, skip = False, status = 0, transfers = 0, ups_events = []\<rparr>"

definition pc_status_human_str :: "string list" where
  "pc_status_human_str =
     [''Charging:'', ''Discharging:'', ''AC present:'', ''Battery present:'', ''Below cap lim:'',
      ''Remain time exp:'', ''Need replace BAT:'', ''Voltage not regulated:'', ''Shutdown requested:'',
      ''Shutdown imminent:'', ''Communication lost:'', ''Overload:'']"

definition pc_status_str :: "string list" where
  "pc_status_str =
     [''charging:'', ''discharging:'', ''ac_present:'', ''battery_present:'', ''below_capacity_limit:'',
      ''remain_time_expired:'', ''need_replace_battery:'', ''voltage_not_regulated:'',
      ''shutdown_requested:'', ''shutdown_imminent:'', ''communication_lost:'', ''overload:'']"

definition pc_status_bash_str :: "string list" where
  "pc_status_bash_str =
     [''charging='', ''discharging='', ''ac_present='', ''battery_present='', ''below_capacity_limit='',
      ''remain_time_expired='', ''need_replace_battery='', ''voltage_not_regulated='',
      ''shutdown_requested='', ''shutdown_imminent='', ''communication_lost='', ''overload='']"

section \<open>Finding and opening the device\<close>

fun pc_scan_devices :: "ups_state \<Rightarrow> usb_device list \<Rightarrow> usb_device option" where
  "pc_scan_devices st [] = None"
| "pc_scan_devices st (dev # devs) =
     (if uint (idVendor dev) = vendor st \<and> uint (idProduct dev) = product st then Some dev
      else pc_scan_devices st devs)"

fun pc_scan_busses :: "ups_state \<Rightarrow> usb_device list list \<Rightarrow> usb_device option" where
  "pc_scan_busses st [] = None"
| "pc_scan_busses st (bus # bs) =
     (case pc_scan_devices st bus of Some dev \<Rightarrow> Some dev | None \<Rightarrow> pc_scan_busses st bs)"

text \<open>The handle is the device it stands for; \<open>None\<close> is NULL.\<close>

definition pc_usb_open_imd :: "usb_world \<Rightarrow> ups_state \<Rightarrow> usb_device option \<times> ups_state" where
  "pc_usb_open_imd w st =
     (case pc_scan_busses st (busses w) of
        None \<Rightarrow> (None, st)
      | Some dev \<Rightarrow> (if can_open w dev then Some dev else None, log_event (OpenDevice dev) st))"

section \<open>Reports\<close>

definition pc_print_data :: "(nat \<Rightarrow> byte) \<Rightarrow> int \<Rightarrow> ups_state \<Rightarrow> ups_state" where
  "pc_print_data tmp ret st =
     print_lines (map (\<lambda>i. show_hex2 (tmp i) @ '' '') [0..<nat ret] @ [[newline]]) st"

text \<open>The lines under \<open>#ifdef DEBUG\<close>.\<close>

definition pc_debug :: "ups_build \<Rightarrow> (nat \<Rightarrow> byte) \<Rightarrow> int \<Rightarrow> ups_state \<Rightarrow> ups_state" where
  "pc_debug b tmp ret st =
     (if DEBUG b
      then pc_print_data tmp ret
        (printf (line (''retrieving hid report succeeded, read '' @ show_int ret @ '' bytes'')) st)
      else st)"

definition pc_get_report16 :: "ups_build \<Rightarrow> usb_world \<Rightarrow> byte \<Rightarrow> ups_state \<Rightarrow> u16 \<times> ups_state" where
  "pc_get_report16 b w report st =
     (let (ret, tmp, st) = control_msg w (get_report_setup report) st
      in if ret < 0 then (- 1, printf (line ''retrieving hid report failed'') st)
         else (let data = ucast (tmp 1) :: u16 in (data, pc_debug b tmp ret st)))"

text \<open>The conversions to \<open>int8_t\<close> and back keep the byte.\<close>

definition pc_get_report8 :: "ups_build \<Rightarrow> usb_world \<Rightarrow> byte \<Rightarrow> ups_state \<Rightarrow> byte \<times> ups_state" where
  "pc_get_report8 b w report st =
     (let (ret, tmp, st) = control_msg w (get_report_setup report) st
      in if ret < 0 then (- 1, printf (line ''retrieving hid report failed'') st)
         else (let data = tmp 1 in (data, pc_debug b tmp ret st)))"

definition pc_send_test :: "ups_build \<Rightarrow> usb_world \<Rightarrow> ups_state \<Rightarrow> byte \<times> ups_state" where
  "pc_send_test b w st =
     (let (ret, tmp, st) = control_msg w (set_report_setup 0x15 [0x15, 0x01]) st
      in if ret < 0 then (- 1, printf (line ''retrieving hid report failed'') st)
         else (let data = tmp 1 in (data, pc_debug b tmp ret st)))"

definition pc_send_boff :: "ups_build \<Rightarrow> usb_world \<Rightarrow> ups_state \<Rightarrow> byte \<times> ups_state" where
  "pc_send_boff b w st =
     (let (ret, tmp, st) = control_msg w (set_report_setup 0x13 [0x13, 0x00]) st
      in if ret < 0 then (- 1, printf (line ''retrieving hid report failed'') st)
         else (let data = tmp 1 in (data, pc_debug b tmp ret st)))"

section \<open>Options\<close>

definition pc_option :: "nat \<Rightarrow> ups_state \<Rightarrow> char \<times> string \<Rightarrow> ups_state" where
  "pc_option lb st opt =
     (case opt of (ch, optarg) \<Rightarrow>
        if ch = CHR ''v'' then st\<lparr>vendor := s32 (fst (strtol lb 16 optarg))\<rparr>
        else if ch = CHR ''p'' then st\<lparr>product := s32 (fst (strtol lb 16 optarg))\<rparr>
        else if ch = CHR ''u'' then st\<lparr>hflag := 1\<rparr>
        else if ch = CHR ''s'' then st\<lparr>hflag := 2\<rparr>
        else if ch = CHR ''t'' then st\<lparr>tflag := True, skip := True\<rparr>
        else if ch = CHR ''b'' then st\<lparr>bflag := True, skip := True\<rparr>
        else if ch = CHR ''d'' then st\<lparr>detach := True, skip := True\<rparr>
        else if ch = CHR ''a'' then st\<lparr>attach := True, skip := True\<rparr>
        else if ch = CHR ''h'' \<or> ch = CHR ''?'' then st\<lparr>help_flag := True\<rparr>
        else st)"

definition pc_optstring :: string where
  "pc_optstring = ''ustbv:p:dah?''"

definition pc_parse :: "ups_build \<Rightarrow> string list \<Rightarrow> ups_state" where
  "pc_parse b args = foldl (pc_option (ups_long_bits b)) pc_init (fst (getopt_all pc_optstring args))"

definition pc_help :: "string list" where
  "pc_help = map line
     [''USB UPS Powercom WOW-xxxU monitoring, v.'' @ ''1.0.5'',
      '' no args - get and show ups data'',
      '' -u      - get and show unformatted ups data'',
      '' -s      - get and show UPS data for bash script'',
      '' -t      - test ups'',
      '' -b      - switch off beeper (audible alarm control; experimental)'',
      '' -d      - detach kernle driver before use interface'',
      '' -a      - attach kernle driver after use interface'',
      '' -v VID  - vendor ID (default: 0d9f - Powercom)'',
      '' -p PID  - product ID (default: 00a4 - Powercom WOW)'',
      '' -h -?   - this help'']"

section \<open>The reports of main\<close>

definition pc_r16 :: "ups_build \<Rightarrow> usb_world \<Rightarrow> byte \<Rightarrow> reading" where
  "pc_r16 b w report st = (let (v, st) = pc_get_report16 b w report st in (uint v, st))"

definition pc_r8 :: "ups_build \<Rightarrow> usb_world \<Rightarrow> byte \<Rightarrow> reading" where
  "pc_r8 b w report st = (let (v, st) = pc_get_report8 b w report st in (uint v, st))"

text \<open>\<open>status & (1 << j) && 1\<close>, and \<open>onoff\<close> indexed by it.\<close>

definition pc_flag :: "u16 \<Rightarrow> nat \<Rightarrow> bool" where
  "pc_flag s j \<longleftrightarrow> s AND push_bit j 1 \<noteq> 0"

definition onoff :: "bool \<Rightarrow> string" where
  "onoff x = (if x then ''on'' else ''off'')"

definition pc_read_status :: "ups_build \<Rightarrow> usb_world \<Rightarrow> ups_state \<Rightarrow> ups_state" where
  "pc_read_status b w st = (let (v, st) = pc_get_report16 b w 20 st in st\<lparr>status := v\<rparr>)"

definition pc_unformatted :: "ups_build \<Rightarrow> usb_world \<Rightarrow> ups_state \<Rightarrow> ups_state" where
  "pc_unformatted b w st =
     (let fmt = (\<lambda>label v. line (label @ '' '' @ show_int v));
          st = print_table
            [(pc_r16 b w 29, fmt ''voltage_in:''), (pc_r8 b w 30, fmt ''frequency_in:''),
             (pc_r16 b w 33, fmt ''voltage_out:''), (pc_r8 b w 34, fmt ''frequency_out:''),
             (pc_r8 b w 31, fmt ''load:''), (pc_r8 b w 24, fmt ''capacity:'')] st;
          st = pc_read_status b w st
      in print_lines (map (\<lambda>j. line (pc_status_str ! j @ '' '' @ onoff (pc_flag (status st) j)))
           [0..<12]) st)"

definition pc_bash :: "ups_build \<Rightarrow> usb_world \<Rightarrow> ups_state \<Rightarrow> ups_state" where
  "pc_bash b w st =
     (let fmt = (\<lambda>label v. line (label @ show_int v));
          st = print_table
            [(pc_r16 b w 29, fmt ''voltage_in=''), (pc_r8 b w 30, fmt ''frequency_in=''),
             (pc_r16 b w 33, fmt ''voltage_out=''), (pc_r8 b w 34, fmt ''frequency_out=''),
             (pc_r8 b w 31, fmt ''load=''), (pc_r8 b w 24, fmt ''capacity='')] st;
          st = pc_read_status b w st
      in print_lines (map (\<lambda>j. line (pc_status_bash_str ! j
           @ show_int (if pc_flag (status st) j then 1 else 0))) [0..<12]) st)"

definition pc_human :: "ups_build \<Rightarrow> usb_world \<Rightarrow> ups_state \<Rightarrow> ups_state" where
  "pc_human b w st =
     (let fmt = (\<lambda>label unit v. line (pad22 label @ '' '' @ show_int v @ unit));
          st = print_table
            [(pc_r16 b w 29, fmt ''Voltage in:'' '' V''), (pc_r8 b w 30, fmt ''Frequency in:'' '' Hz''),
             (pc_r16 b w 33, fmt ''Voltage out:'' '' V''), (pc_r8 b w 34, fmt ''Frequency out:'' '' Hz''),
             (pc_r8 b w 31, fmt ''Load:'' '' %''), (pc_r8 b w 24, fmt ''Capacity:'' '' %'')] st;
          st = printf [newline] st;
          st = pc_read_status b w st
      in print_lines (map (\<lambda>j. line (pad22 (pc_status_human_str ! j)
           @ '' '' @ onoff (pc_flag (status st) j))) [0..<12]) st)"

definition pc_report :: "ups_build \<Rightarrow> usb_world \<Rightarrow> ups_state \<Rightarrow> ups_state" where
  "pc_report b w st =
     (if hflag st = 1 then pc_unformatted b w st
      else if hflag st = 2 then pc_bash b w st
      else if \<not> skip st then pc_human b w st else st)"

section \<open>main\<close>

text \<open>The two commands to the device; \<open>Inl\<close> is \<open>ret = 1; goto release\<close>.\<close>

definition pc_do_test :: "ups_build \<Rightarrow> usb_world \<Rightarrow> ups_state \<Rightarrow> ups_state + ups_state" where
  "pc_do_test b w st =
     (if tflag st then
        let st = printf ''Test: '' st; (r, st) = pc_send_test b w st; ret = uint r
        in if ret < 0 then Inl (printf (line (line ''Failed'')) st)
           else Inr (log_event (SleepSec 1) (printf (line (line ''OK'')) st))
      else Inr st)"

definition pc_do_boff :: "ups_build \<Rightarrow> usb_world \<Rightarrow> ups_state \<Rightarrow> ups_state + ups_state" where
  "pc_do_boff b w st =
     (if bflag st then
        let st = printf ''Switch OFF Audible Alarm Control: '' st;
            (r, st) = pc_send_boff b w st; ret = uint r
        in if ret < 0 then Inl (printf (line (line ''Failed'')) st)
           else Inr (log_event (SleepSec 1) (printf (line (line ''OK'')) st))
      else Inr st)"

text \<open>The code at the label \<open>release\<close>, with the value of \<open>ret\<close> it is reached with.\<close>

definition pc_release :: "ups_build \<Rightarrow> usb_world \<Rightarrow> int \<Rightarrow> ups_state \<Rightarrow> ups_state \<times> int" where
  "pc_release b w ret st =
     (let st = log_event ReleaseInterface st;
          (ret, st) = (if release_rc w < 0 then (1, printf (line ''releasing interface failed'') st)
                       else (ret, st));
          st = (if HAS_ATTACH b \<and> attach st then log_event AttachDriver st else st);
          st = log_event CloseDevice st
      in (st, if ret \<noteq> 0 then 1 else 0))"

text \<open>From the opened device to the exit status.\<close>

definition pc_session :: "ups_build \<Rightarrow> usb_world \<Rightarrow> ups_state \<Rightarrow> ups_state \<times> int" where
  "pc_session b w st =
     (let st = (if HAS_DETACH b \<and> detach st then log_event DetachDriver st else st);
          st = log_event ClaimInterface st;
          st = (if claim_rc w < 0 then printf (line ''warning: claim interface failed'') st else st);
          (ret, tmp, st) = control_msg w hid_descriptor_setup st
      in if ret < 0 then pc_release b w 1 (printf (line ''retrieving hid descriptor failed'') st)
         else
           let st = (if DEBUG b then pc_print_data tmp ret (printf (line
                 (''retrieving hid descriptor succeeded, read '' @ show_int ret @ '' bytes'')) st)
               else st)
           in case pc_do_test b w st of
                Inl st \<Rightarrow> pc_release b w 1 st
              | Inr st \<Rightarrow>
                  (case pc_do_boff b w st of
                     Inl st \<Rightarrow> pc_release b w 1 st
                   | Inr st \<Rightarrow> pc_release b w 0 (pc_report b w st)))"

definition pc_main :: "ups_build \<Rightarrow> usb_world \<Rightarrow> string list \<Rightarrow> ups_state \<times> int" where
  "pc_main b w args =
     (let st = pc_parse b args
      in if help_flag st then (print_lines pc_help st, 0)
         else (case pc_usb_open_imd w st of
             (None, st) \<Rightarrow> (printf (line ''open failed'') st, 1)
           | (Some _, st) \<Rightarrow> pc_session b w st))"

end
