(* ===== verification/UpsApc.thy ===== *)
theory UpsApc
  imports UpsPowercom
begin

text \<open>
  \<open>25volt/src/usb_ups_apc_smart.c\<close>: the monitor for APC Smart-UPSs, function by function. Names
  carry the prefix \<open>apc_\<close>. The file is a variant of the Powercom monitor with its own copy of every
  function: reports have one or two bytes, values are scaled, eight readings are thrown away first,
  and the status lines are compiled only with \<open>PRINT_STATUS\<close>.
\<close>

unbundle bit_operations_syntax

section \<open>Constants and globals\<close>

definition apc_init :: ups_state where
  "apc_init =
     \<lparr>vendor = 0x051d, product = 0x0002, tflag = False, hflag = 0, bflag = False, help_flag = False,
      detach = False, attach = False, skip = False, status = 0, transfers = 0, ups_events = []\<rparr>"

definition apc_status_human_str :: "string list" where
  "apc_status_human_str =
     [''Charging:'', ''Discharging:'', ''AC present:'', ''Battery present:'', ''Below cap lim:'',
      ''Remain time exp:'', ''Need replace BAT:'', ''Voltage not regulated:'', ''Shutdown requested:'',
      ''Shutdown imminent:'', ''Communication lost:'', ''Overload:'']"

definition apc_status_str :: "string list" where
  "apc_status_str =
     [''charging:'', ''discharging:'', ''ac_present:'', ''battery_present:'', ''below_capacity_limit:'',
      ''remain_time_expired:'', ''need_replace_battery:'', ''voltage_not_regulated:'',
      ''shutdown_requested:'', ''shutdown_imminent:'', ''communication_lost:'', ''overload:'']"

definition apc_status_bash_str :: "string list" where
  "apc_status_bash_str =
     [''charging='', ''discharging='', ''ac_present='', ''battery_present='', ''below_capacity_limit='',
      ''remain_time_expired='', ''need_replace_battery='', ''voltage_not_regulated='',
      ''shutdown_requested='', ''shutdown_imminent='', ''communication_lost='', ''overload='']"

section \<open>Finding and opening the device\<close>

fun apc_scan_devices :: "ups_state \<Rightarrow> usb_device list \<Rightarrow> usb_device option" where
  "apc_scan_devices st [] = None"
| "apc_scan_devices st (dev # devs) =
     (if uint (idVendor dev) = vendor st \<and> uint (idProduct dev) = product st then Some dev
      else apc_scan_devices st devs)"

fun apc_scan_busses :: "ups_state \<Rightarrow> usb_device list list \<Rightarrow> usb_device option" where
  "apc_scan_busses st [] = None"
| "apc_scan_busses st (bus # bs) =
     (case apc_scan_devices st bus of Some dev \<Rightarrow> Some dev | None \<Rightarrow> apc_scan_busses st bs)"

text \<open>The handle is the device it stands for; \<open>None\<close> is NULL.\<close>

definition apc_usb_open_imd :: "usb_world \<Rightarrow> ups_state \<Rightarrow> usb_device option \<times> ups_state" where
  "apc_usb_open_imd w st =
     (case apc_scan_busses st (busses w) of
        None \<Rightarrow> (None, st)
      | Some dev \<Rightarrow> (if can_open w dev then Some dev else None, log_event (OpenDevice dev) st))"

section \<open>Reports\<close>

definition apc_print_data :: "(nat \<Rightarrow> byte) \<Rightarrow> int \<Rightarrow> ups_state \<Rightarrow> ups_state" where
  "apc_print_data tmp ret st =
     print_lines (map (\<lambda>i. show_hex2 (tmp i) @ '' '') [0..<nat ret] @ [[newline]]) st"

text \<open>The lines under \<open>#ifdef DEBUG\<close>.\<close>

definition apc_debug :: "ups_build \<Rightarrow> (nat \<Rightarrow> byte) \<Rightarrow> int \<Rightarrow> ups_state \<Rightarrow> ups_state" where
  "apc_debug b tmp ret st =
     (if DEBUG b
      then apc_print_data tmp ret
        (printf (line (''retrieving hid report succeeded, read '' @ show_int ret @ '' bytes'')) st)
      else st)"

definition apc_get_report16 :: "ups_build \<Rightarrow> usb_world \<Rightarrow> byte \<Rightarrow> ups_state \<Rightarrow> u16 \<times> ups_state" where
  "apc_get_report16 b w report st =
     (let (ret, tmp, st) = control_msg w (get_report_setup report) st
      in if ret < 0 then (- 1, printf (line ''retrieving hid report failed'') st)
         else (let data = (if ret = 2 then ucast (tmp 1)
                           else if ret = 3 then ucast (tmp 1) OR push_bit 8 (ucast (tmp 2))
                           else 0) :: u16
               in (data, apc_debug b tmp ret st)))"

text \<open>The conversions to \<open>int8_t\<close> and back keep the byte.\<close>

definition apc_get_report8 :: "ups_build \<Rightarrow> usb_world \<Rightarrow> byte \<Rightarrow> ups_state \<Rightarrow> byte \<times> ups_state" where
  "apc_get_report8 b w report st =
     (let (ret, tmp, st) = control_msg w (get_report_setup report) st
      in if ret < 0 then (- 1, printf (line ''retrieving hid report failed'') st)
         else (let data = (if ret = 2 then tmp 1 else 0) in (data, apc_debug b tmp ret st)))"

definition apc_send_test :: "ups_build \<Rightarrow> usb_world \<Rightarrow> ups_state \<Rightarrow> byte \<times> ups_state" where
  "apc_send_test b w st =
     (let (ret, tmp, st) = control_msg w (set_report_setup 0x16 [0x16, 0x01]) st
      in if ret < 0 then (- 1, printf (line ''retrieving hid report failed'') st)
         else (let data = (if ret = 2 then tmp 1 else 0) in (data, apc_debug b tmp ret st)))"

definition apc_send_boff :: "ups_build \<Rightarrow> usb_world \<Rightarrow> ups_state \<Rightarrow> byte \<times> ups_state" where
  "apc_send_boff b w st =
     (let (ret, tmp, st) = control_msg w (set_report_setup 0x14 [0x14, 0x00]) st
      in if ret < 0 then (- 1, printf (line ''retrieving hid report failed'') st)
         else (let data = (if ret = 2 then tmp 1 else 0) in (data, apc_debug b tmp ret st)))"

section \<open>Options\<close>

definition apc_option :: "nat \<Rightarrow> ups_state \<Rightarrow> char \<times> string \<Rightarrow> ups_state" where
  "apc_option lb st opt =
     (case opt of (ch, optarg) \<Rightarrow>
        if ch = CHR ''v'' then st\<lparr>vendor := s32 (fst (strtol lb 16 optarg))\<rparr>
        else if ch = CHR ''p'' then st\<lparr>product := s32 (fst (strtol lb 16 optarg))\<rparr>
        else if ch = CHR ''u'' then st\<lparr>hflag := 1\<rparr>
        else if ch = CHR ''s'' then st\<lparr>hflag := 2\<rparr>
        else if ch = CHR ''t'' then st\<lparr>tflag := True, skip := True\<rparr>
        else if ch = CHR ''b'' then st\<lparr>bflag := True, skip := True\<rparr>
        else if ch = CHR ''d'' then st\<lparr>detach := True, skip := True\<rparr>
        else if ch = CHR ''a'' then st\<lparr>attach := True, skip := True\<rparr>
        else if ch = CHR ''h'' \<or> ch = CHR ''?'' then st\<lparr>help_flag := True\<rparr>
        else st)"

definition apc_optstring :: string where
  "apc_optstring = ''ustbv:p:dah?''"

definition apc_parse :: "ups_build \<Rightarrow> string list \<Rightarrow> ups_state" where
  "apc_parse b args = foldl (apc_option (ups_long_bits b)) apc_init (fst (getopt_all apc_optstring args))"

definition apc_help :: "string list" where
  "apc_help = map line
     [''USB UPS APC Smart-UPS monitoring, v.'' @ ''1.0.5'',
      '' no args - get and show ups data'',
      '' -u      - get and show unformatted ups data'',
      '' -s      - get and show UPS data for bash script'',
      '' -t      - test ups'',
      '' -b      - switch off beeper (audible alarm control; experimental)'',
      '' -d      - detach kernle driver before use interface'',
      '' -a      - attach kernle driver after use interface'',
      '' -v VID  - vendor ID (default: 051d - APC)'',
      '' -p PID  - product ID (default: 0002 - APC Smart UPS)'',
      '' -h -?   - this help'']"

section \<open>The reports of main\<close>

text \<open>A 16-bit report divided by a positive constant (the operands are non-negative).\<close>

definition apc_r16 :: "ups_build \<Rightarrow> usb_world \<Rightarrow> byte \<Rightarrow> int \<Rightarrow> reading" where
  "apc_r16 b w report d st = (let (v, st) = apc_get_report16 b w report st in (uint v div d, st))"

definition apc_flag :: "u16 \<Rightarrow> nat \<Rightarrow> bool" where
  "apc_flag s j \<longleftrightarrow> s AND push_bit j 1 \<noteq> 0"

definition apc_read_status :: "ups_build \<Rightarrow> usb_world \<Rightarrow> ups_state \<Rightarrow> ups_state" where
  "apc_read_status b w st = (let (v, st) = apc_get_report16 b w 7 st in st\<lparr>status := v\<rparr>)"

definition apc_unformatted :: "ups_build \<Rightarrow> usb_world \<Rightarrow> ups_state \<Rightarrow> ups_state" where
  "apc_unformatted b w st =
     (let fmt = (\<lambda>label v. line (label @ '' '' @ show_int v));
          st = print_table
            [(apc_r16 b w 32 10, fmt ''voltage_in:''), (apc_r16 b w 43 10, fmt ''voltage_out:''),
             (apc_r16 b w 42 100, fmt ''frequency_out:''), (apc_r16 b w 44 10, fmt ''load:''),
             (apc_r16 b w 24 10, fmt ''capacity:''), (apc_r16 b w 25 1, fmt ''run_time_to_empty:'')] st
      in if PRINT_STATUS b then
           let st = apc_read_status b w st
           in print_lines (map (\<lambda>j. line (apc_status_str ! j @ '' '' @ onoff (apc_flag (status st) j)))
                [0..<12]) st
         else st)"

definition apc_bash :: "ups_build \<Rightarrow> usb_world \<Rightarrow> ups_state \<Rightarrow> ups_state" where
  "apc_bash b w st =
     (let fmt = (\<lambda>label v. line (label @ show_int v));
          st = print_table
            [(apc_r16 b w 32 10, fmt ''voltage_in=''), (apc_r16 b w 43 10, fmt ''voltage_out=''),
             (apc_r16 b w 42 100, fmt ''frequency_out=''), (apc_r16 b w 44 10, fmt ''load=''),
             (apc_r16 b w 24 10, fmt ''capacity=''), (apc_r16 b w 25 1, fmt ''run_time_to_empty='')] st
      in if PRINT_STATUS b then
           let st = apc_read_status b w st
           in print_lines (map (\<lambda>j. line (apc_status_bash_str ! j
                @ show_int (if apc_flag (status st) j then 1 else 0))) [0..<12]) st
         else st)"

definition apc_human :: "ups_build \<Rightarrow> usb_world \<Rightarrow> ups_state \<Rightarrow> ups_state" where
  "apc_human b w st =
     (let fmt = (\<lambda>label unit v. line (pad22 label @ '' '' @ show_int v @ unit));
          st = print_table
            [(apc_r16 b w 32 10, fmt ''Voltage in:'' '' V''), (apc_r16 b w 43 10, fmt ''Voltage out:'' '' V''),
             (apc_r16 b w 42 100, fmt ''Frequency out:'' '' Hz''), (apc_r16 b w 44 10, fmt ''Load:'' '' %''),
             (apc_r16 b w 24 10, fmt ''Capacity:'' '' %''),
             (apc_r16 b w 25 1, fmt ''Run time to empty:'' '' s'')] st
      in if PRINT_STATUS b then
           let st = printf [newline] st; st = apc_read_status b w st
           in print_lines (map (\<lambda>j. line (pad22 (apc_status_human_str ! j)
                @ '' '' @ onoff (apc_flag (status st) j))) [0..<12]) st
         else st)"

definition apc_report :: "ups_build \<Rightarrow> usb_world \<Rightarrow> ups_state \<Rightarrow> ups_state" where
  "apc_report b w st =
     (if hflag st = 1 then apc_unformatted b w st
      else if hflag st = 2 then apc_bash b w st
      else if \<not> skip st then apc_human b w st else st)"

section \<open>main\<close>

text \<open>The two commands to the device; \<open>Inl\<close> is \<open>ret = 1; goto release\<close>.\<close>

definition apc_do_test :: "ups_build \<Rightarrow> usb_world \<Rightarrow> ups_state \<Rightarrow> ups_state + ups_state" where
  "apc_do_test b w st =
     (if tflag st then
        let st = printf ''Test: '' st; (r, st) = apc_send_test b w st; ret = uint r
        in if ret < 0 then Inl (printf (line (line ''Failed'')) st)
           else Inr (log_event (SleepSec 1) (printf (line (line ''OK'')) st))
      else Inr st)"

definition apc_do_boff :: "ups_build \<Rightarrow> usb_world \<Rightarrow> ups_state \<Rightarrow> ups_state + ups_state" where
  "apc_do_boff b w st =
     (if bflag st then
        let st = printf ''Switch OFF Audible Alarm Control: '' st;
            (r, st) = apc_send_boff b w st; ret = uint r
        in if ret < 0 then Inl (printf (line (line ''Failed'')) st)
           else Inr (log_event (SleepSec 1) (printf (line (line ''OK'')) st))
      else Inr st)"

text \<open>The code at the label \<open>release\<close>, with the value of \<open>ret\<close> it is reached with.\<close>

definition apc_release :: "ups_build \<Rightarrow> usb_world \<Rightarrow> int \<Rightarrow> ups_state \<Rightarrow> ups_state \<times> int" where
  "apc_release b w ret st =
     (let st = log_event ReleaseInterface st;
          (ret, st) = (if release_rc w < 0 then (1, printf (line ''releasing interface failed'') st)
                       else (ret, st));
          st = (if HAS_ATTACH b \<and> attach st then log_event AttachDriver st else st);
          st = log_event CloseDevice st
      in (st, if ret \<noteq> 0 then 1 else 0))"

text \<open>\<open>for (j = 0; j < 8; j++) ret = get_report16 (...)\<close>: the dummy readings.\<close>

fun apc_dummy_reads :: "ups_build \<Rightarrow> usb_world \<Rightarrow> nat \<Rightarrow> ups_state \<Rightarrow> ups_state" where
  "apc_dummy_reads b w 0 st = st"
| "apc_dummy_reads b w (Suc j) st = apc_dummy_reads b w j (snd (apc_get_report16 b w 32 st))"

text \<open>From the opened device to the exit status.\<close>

definition apc_session :: "ups_build \<Rightarrow> usb_world \<Rightarrow> ups_state \<Rightarrow> ups_state \<times> int" where
  "apc_session b w st =
     (let st = (if HAS_DETACH b \<and> detach st then log_event DetachDriver st else st);
          st = log_event ClaimInterface st;
          st = (if claim_rc w < 0 then printf (line ''warning: claim interface failed'') st else st);
          (ret, tmp, st) = control_msg w hid_descriptor_setup st
      in if ret < 0 then apc_release b w 1 (printf (line ''retrieving hid descriptor failed'') st)
         else
           let st = (if DEBUG b then apc_print_data tmp ret (printf (line
                 (''retrieving hid descriptor succeeded, read '' @ show_int ret @ '' bytes'')) st)
               else st);
               st = apc_dummy_reads b w 8 st
           in case apc_do_test b w st of
                Inl st \<Rightarrow> apc_release b w 1 st
              | Inr st \<Rightarrow>
                  (case apc_do_boff b w st of
                     Inl st \<Rightarrow> apc_release b w 1 st
                   | Inr st \<Rightarrow> apc_release b w 0 (apc_report b w st)))"

definition apc_main :: "ups_build \<Rightarrow> usb_world \<Rightarrow> string list \<Rightarrow> ups_state \<times> int" where
  "apc_main b w args =
     (let st = apc_parse b args
      in if help_flag st then (print_lines apc_help st, 0)
         else (case apc_usb_open_imd w st of
             (None, st) \<Rightarrow> (printf (line ''open failed'') st, 1)
           | (Some _, st) \<Rightarrow> apc_session b w st))"

end
