(* ===== verification/UpsSession.thy ===== *)
theory UpsSession
  imports UpsApc
begin

text \<open>
  The session of a UPS monitor, from the opened device to the exit status, stated once for both
  programs: \<open>session_skeleton\<close> is the code the two \<open>main\<close>s have in common, and the interface
  \<open>ups_tool\<close> collects what it needs of a program's own parts (its readings before, its two commands,
  its report). Both programs are instances of the skeleton and meet the contract.
\<close>

unbundle bit_operations_syntax

section \<open>The common skeleton\<close>

definition session_skeleton ::
  "(ups_state \<Rightarrow> ups_state) \<Rightarrow> (ups_state \<Rightarrow> ups_state + ups_state) \<Rightarrow> (ups_state \<Rightarrow> ups_state + ups_state)
    \<Rightarrow> (ups_state \<Rightarrow> ups_state) \<Rightarrow> ups_build \<Rightarrow> usb_world \<Rightarrow> ups_state \<Rightarrow> ups_state \<times> int" where
  "session_skeleton warm test boff report b w st =
     (let st = (if HAS_DETACH b \<and> detach st then log_event DetachDriver st else st);
          st = log_event ClaimInterface st;
          st = (if claim_rc w < 0 then printf (line ''warning: claim interface failed'') st else st);
          (ret, tmp, st) = control_msg w hid_descriptor_setup st
      in if ret < 0 then pc_release b w 1 (printf (line ''retrieving hid descriptor failed'') st)
         else
           let st = (if DEBUG b then pc_print_data tmp ret (printf (line
                 (''retrieving hid descriptor succeeded, read '' @ show_int ret @ '' bytes'')) st)
               else st);
               st = warm st
           in case test st of
                Inl st \<Rightarrow> pc_release b w 1 st
              | Inr st \<Rightarrow>
                  (case boff st of
                     Inl st \<Rightarrow> pc_release b w 1 st
                   | Inr st \<Rightarrow> pc_release b w 0 (report st)))"

lemma apc_release_eq: "apc_release = pc_release"
  by (intro ext) (simp add: apc_release_def pc_release_def)

lemma apc_print_data_eq: "apc_print_data = pc_print_data"
  by (intro ext) (simp add: apc_print_data_def pc_print_data_def)

lemma pc_session_eq:
  "pc_session b w = session_skeleton (\<lambda>st. st) (pc_do_test b w) (pc_do_boff b w) (pc_report b w) b w"
  by (intro ext) (simp only: pc_session_def session_skeleton_def Let_def)

lemma apc_session_eq:
  "apc_session b w = session_skeleton (apc_dummy_reads b w 8) (apc_do_test b w) (apc_do_boff b w)
     (apc_report b w) b w"
  by (intro ext) (simp only: apc_session_def session_skeleton_def apc_release_eq apc_print_data_eq)

section \<open>Entry and exit of a session\<close>

text \<open>What the code at \<open>release\<close> adds, and the exit status.\<close>

definition release_messages :: "usb_world \<Rightarrow> ups_event list" where
  "release_messages w =
     (if release_rc w < 0 then [Print (line ''releasing interface failed'')] else [])"

definition bracketed :: "ups_build \<Rightarrow> usb_world \<Rightarrow> ups_state \<Rightarrow> ups_event list \<Rightarrow> ups_event list" where
  "bracketed b w st es =
     (if HAS_DETACH b \<and> detach st then [DetachDriver] else []) @ ClaimInterface # es @
     ReleaseInterface # release_messages w @
     (if HAS_ATTACH b \<and> attach st then [AttachDriver] else []) @ [CloseDevice]"

lemma pc_release_eq:
  "ups_events (fst (pc_release b w ret st)) = ups_events st @ ReleaseInterface # release_messages w @
     (if HAS_ATTACH b \<and> attach st then [AttachDriver] else []) @ [CloseDevice]"
  "snd (pc_release b w ret st) = (if ret \<noteq> 0 \<or> release_rc w < 0 then 1 else 0)"
  by (simp_all add: pc_release_def release_messages_def printf_def Let_def)

text \<open>The state after claiming the interface and asking for the descriptor, and its answer.\<close>

definition claimed :: "ups_build \<Rightarrow> usb_world \<Rightarrow> ups_state \<Rightarrow> ups_state" where
  "claimed b w st =
     (let st = (if HAS_DETACH b \<and> detach st then log_event DetachDriver st else st);
          st = log_event ClaimInterface st
      in if claim_rc w < 0 then printf (line ''warning: claim interface failed'') st else st)"

definition descriptor_ret :: "usb_world \<Rightarrow> ups_state \<Rightarrow> int" where
  "descriptor_ret w st = fst (control w (transfers st) hid_descriptor_setup)"

lemma claimed_facts:
  "ups_events (claimed b w st) = ups_events st @
     (if HAS_DETACH b \<and> detach st then [DetachDriver] else []) @ ClaimInterface #
     (if claim_rc w < 0 then [Print (line ''warning: claim interface failed'')] else [])"
  "settings (claimed b w st) = settings st" "transfers (claimed b w st) = transfers st"
  by (simp_all add: claimed_def Let_def printf_def)

text \<open>The descriptor request and what \<open>DEBUG\<close> prints of a good answer.\<close>

definition described :: "ups_build \<Rightarrow> usb_world \<Rightarrow> ups_state \<Rightarrow> ups_state" where
  "described b w st =
     (let (ret, tmp, st) = control_msg w hid_descriptor_setup st
      in if DEBUG b \<and> \<not> ret < 0 then pc_print_data tmp ret (printf (line
           (''retrieving hid descriptor succeeded, read '' @ show_int ret @ '' bytes'')) st)
         else st)"

section \<open>The contract of a program's parts\<close>

text \<open>A step that keeps the settings and adds events of a given kind.\<close>

definition adds :: "(ups_event \<Rightarrow> bool) \<Rightarrow> ups_state \<Rightarrow> ups_state \<Rightarrow> bool" where
  "adds P st st' \<longleftrightarrow> settings st' = settings st \<and>
     (\<exists>es. ups_events st' = ups_events st @ es \<and> (\<forall>e \<in> set es. P e))"

lemma adds_refl [simp]: "adds P st st"
  by (simp add: adds_def)

lemma adds_trans: "adds P st st' \<Longrightarrow> adds P st' st'' \<Longrightarrow> adds P st st''"
  unfolding adds_def by (metis Un_iff append.assoc set_append)

lemma adds_mono: "adds P st st' \<Longrightarrow> (\<And>e. P e \<Longrightarrow> Q e) \<Longrightarrow> adds Q st st'"
  unfolding adds_def by metis

lemma adds_log: "adds P st st' \<Longrightarrow> P e \<Longrightarrow> adds P st (log_event e st')"
proof -
  assume a: "adds P st st'" and e: "P e"
  then obtain es where "ups_events st' = ups_events st @ es" "\<forall>e \<in> set es. P e"
    by (auto simp: adds_def)
  with a e show ?thesis by (auto simp: adds_def intro: exI [of _ "es @ [e]"])
qed

lemma adds_printf: "adds P st st' \<Longrightarrow> P (Print s) \<Longrightarrow> adds P st (printf s st')"
  unfolding printf_def by (rule adds_log)

locale ups_tool =
  fixes warm report :: "ups_state \<Rightarrow> ups_state"
    and test boff :: "ups_state \<Rightarrow> ups_state + ups_state"
  assumes warm_quiet: "adds quiet st (warm st)"
    and report_quiet: "adds quiet st (report st)"
    and test_returns: "\<exists>st'. test st = Inr st' \<and> adds device_io st st' \<and> (\<not> tflag st \<longrightarrow> st' = st)"
    and boff_returns: "\<exists>st'. boff st = Inr st' \<and> adds device_io st st' \<and> (\<not> bflag st \<longrightarrow> st' = st)"
begin

abbreviation "session \<equiv> session_skeleton warm test boff report"

text \<open>What happens while the interface is claimed.\<close>

lemma parts:
  obtains st1 st2 where "test (warm st) = Inr st1" "boff st1 = Inr st2"
    "adds device_io st (report st2)"
    "\<not> tflag st \<and> \<not> bflag st \<longrightarrow> adds quiet st (report st2)"
proof -
  have q: "adds device_io s s'" if "adds quiet s s'" for s s'
    using that by (rule adds_mono) (simp add: quietD)
  obtain st1 where 1: "test (warm st) = Inr st1" "adds device_io (warm st) st1"
    "\<not> tflag (warm st) \<longrightarrow> st1 = warm st" using test_returns by blast
  obtain st2 where 2: "boff st1 = Inr st2" "adds device_io st1 st2" "\<not> bflag st1 \<longrightarrow> st2 = st1"
    using boff_returns by blast
  have s: "tflag (warm st) = tflag st" "settings st1 = settings (warm st)"
    using warm_quiet [of st] 1 by (auto simp: adds_def dest!: settings_eqD)
  then have "bflag st1 = bflag st"
    using warm_quiet [of st] by (auto simp: adds_def dest!: settings_eqD)
  with s 1 2 have none: "st2 = warm st" if "\<not> tflag st" "\<not> bflag st" using that by auto
  show thesis
  proof (rule that [OF 1(1) 2(1)])
    show "adds device_io st (report st2)"
      using q [OF warm_quiet] 1(2) 2(2) q [OF report_quiet] by (blast intro: adds_trans)
    show "\<not> tflag st \<and> \<not> bflag st \<longrightarrow> adds quiet st (report st2)"
      using none adds_trans [OF warm_quiet report_quiet] by simp
  qed
qed

lemma session_unfold:
  "session b w st =
     (let st1 = described b w (claimed b w st)
      in if descriptor_ret w st < 0
         then pc_release b w 1 (printf (line ''retrieving hid descriptor failed'') st1)
         else case test (warm st1) of
                Inl st \<Rightarrow> pc_release b w 1 st
              | Inr st \<Rightarrow>
                  (case boff st of
                     Inl st \<Rightarrow> pc_release b w 1 st
                   | Inr st \<Rightarrow> pc_release b w 0 (report st)))"
proof -
  obtain ret tmp st1 where c: "control_msg w hid_descriptor_setup (claimed b w st) = (ret, tmp, st1)"
    by (cases "control_msg w hid_descriptor_setup (claimed b w st)")
  then have r: "descriptor_ret w st = ret"
    by (auto simp: control_msg_def descriptor_ret_def claimed_facts split: prod.splits)
  have "session b w st =
     (let (ret, tmp, st) = control_msg w hid_descriptor_setup (claimed b w st)
      in if ret < 0 then pc_release b w 1 (printf (line ''retrieving hid descriptor failed'') st)
         else
           let st = (if DEBUG b then pc_print_data tmp ret (printf (line
                 (''retrieving hid descriptor succeeded, read '' @ show_int ret @ '' bytes'')) st)
               else st);
               st = warm st
           in case test st of
                Inl st \<Rightarrow> pc_release b w 1 st
              | Inr st \<Rightarrow>
                  (case boff st of
                     Inl st \<Rightarrow> pc_release b w 1 st
                   | Inr st \<Rightarrow> pc_release b w 0 (report st)))"
    unfolding session_skeleton_def claimed_def Let_def by (rule refl)
  then show ?thesis by (simp add: c r described_def Let_def)
qed

lemma described_quiet: "adds quiet st (described b w st)"
proof -
  let ?c = "control_msg w hid_descriptor_setup st"
  have "adds quiet st (snd (snd ?c))"
    by (auto simp: adds_def control_msg_def split: prod.splits)
  moreover have "adds quiet s (pc_print_data tmp ret (printf m s))" for s tmp ret m
    by (auto simp: adds_def pc_print_data_def printf_def
        intro!: exI [of _ "Print m # map Print (map (\<lambda>i. show_hex2 (tmp i) @ '' '') [0..<nat ret] @ [[newline]])"])
  ultimately show ?thesis
    by (auto simp: described_def Let_def split: prod.splits intro: adds_trans)
qed

text \<open>
  A session claims the interface, does only input and output while it has it, releases it and closes
  the device, in this order, on every path; without \<open>-t\<close> and \<open>-b\<close> it sends nothing to the device;
  its status is 1 exactly when the descriptor could not be read or the interface not released.
\<close>

lemma session_run:
  obtains es where
    "ups_events (fst (session b w st)) = ups_events st @ bracketed b w st es"
    "\<forall>e \<in> set es. device_io e"
    "\<not> tflag st \<and> \<not> bflag st \<longrightarrow> (\<forall>e \<in> set es. quiet e)"
    "snd (session b w st) = (if descriptor_ret w st < 0 \<or> release_rc w < 0 then 1 else 0)"
proof -
  let ?c = "claimed b w st" and ?d = "described b w (claimed b w st)"
  let ?warning = "if claim_rc w < 0 then [Print (line ''warning: claim interface failed'')] else []"
  let ?failed = "Print (line ''retrieving hid descriptor failed'')"
  obtain es1 where d: "settings ?d = settings st" "ups_events ?d = ups_events ?c @ es1"
    "\<forall>e \<in> set es1. quiet e"
    using described_quiet [of ?c b w] by (auto simp: adds_def claimed_facts)
  then have flags: "tflag ?d = tflag st" "bflag ?d = bflag st" "attach ?d = attach st"
    by (auto dest: settings_eqD)
  have warn: "\<forall>e \<in> set ?warning. quiet e" by simp
  show thesis
  proof (cases "descriptor_ret w st < 0")
    case True
    then have s: "session b w st = pc_release b w 1 (log_event ?failed ?d)"
      by (simp add: session_unfold Let_def printf_def)
    have q: "\<forall>e \<in> set (?warning @ es1 @ [?failed]). quiet e" using warn d(3) by auto
    show thesis
    proof (rule that [of "?warning @ es1 @ [?failed]"])
      show "ups_events (fst (session b w st)) = ups_events st @ bracketed b w st (?warning @ es1 @ [?failed])"
        using d flags by (simp add: s pc_release_eq bracketed_def claimed_facts)
      show "\<forall>e \<in> set (?warning @ es1 @ [?failed]). device_io e" using q quietD by blast
      show "\<not> tflag st \<and> \<not> bflag st \<longrightarrow> (\<forall>e \<in> set (?warning @ es1 @ [?failed]). quiet e)"
        using q by blast
      show "snd (session b w st) = (if descriptor_ret w st < 0 \<or> release_rc w < 0 then 1 else 0)"
        using True by (simp add: s pc_release_eq)
    qed
  next
    case False
    obtain st1 st2 where p: "test (warm ?d) = Inr st1" "boff st1 = Inr st2"
      "adds device_io ?d (report st2)"
      "\<not> tflag ?d \<and> \<not> bflag ?d \<longrightarrow> adds quiet ?d (report st2)" by (rule parts [of ?d])
    then have s: "session b w st = pc_release b w 0 (report st2)"
      using False by (simp add: session_unfold Let_def)
    obtain es2 where r: "settings (report st2) = settings ?d"
      "ups_events (report st2) = ups_events ?d @ es2" "\<forall>e \<in> set es2. device_io e"
      using p(3) by (auto simp: adds_def)
    then have att: "attach (report st2) = attach st" using flags by (auto dest: settings_eqD)
    show thesis
    proof (rule that [of "?warning @ es1 @ es2"])
      show "ups_events (fst (session b w st)) = ups_events st @ bracketed b w st (?warning @ es1 @ es2)"
        using d r att by (simp add: s pc_release_eq bracketed_def claimed_facts)
      show "\<forall>e \<in> set (?warning @ es1 @ es2). device_io e"
        using warn d(3) r(3) quietD by auto
      show "\<not> tflag st \<and> \<not> bflag st \<longrightarrow> (\<forall>e \<in> set (?warning @ es1 @ es2). quiet e)"
        using warn d(3) r(2) p(4) flags by (auto simp: adds_def)
      show "snd (session b w st) = (if descriptor_ret w st < 0 \<or> release_rc w < 0 then 1 else 0)"
        using False by (simp add: s pc_release_eq)
    qed
  qed
qed

end

end
