(* ===== verification/UpsTools.thy ===== *)
theory UpsTools
  imports UpsSession
begin

text \<open>
  The two monitors meet the interfaces: their readers are \<open>report_reader\<close>s, and their own parts
  make each a \<open>ups_tool\<close>. What follows are the facts about each program that its properties use:
  values of reports, the flags of the status word, the search for the device, the options.
\<close>

unbundle bit_operations_syntax

section \<open>Readers\<close>

lemma pc_debug_frame:
  obtains ps where "ups_events (pc_debug b tmp ret st) = ups_events st @ map Print ps"
    "transfers (pc_debug b tmp ret st) = transfers st" "settings (pc_debug b tmp ret st) = settings st"
    "status (pc_debug b tmp ret st) = status st"
proof (cases "DEBUG b")
  case True
  let ?ps = "line (''retrieving hid report succeeded, read '' @ show_int ret @ '' bytes'')
    # map (\<lambda>i. show_hex2 (tmp i) @ '' '') [0..<nat ret] @ [[newline]]"
  from True show thesis
    by (intro that [of ?ps]) (simp_all add: pc_debug_def pc_print_data_def printf_def)
next
  case False
  then show thesis by (intro that [of "[]"]) (simp_all add: pc_debug_def)
qed

lemma apc_debug_eq: "apc_debug = pc_debug"
  by (intro ext) (simp add: apc_debug_def pc_debug_def apc_print_data_eq)

text \<open>One transfer that ends in a message or in debug output, whatever value is made of it.\<close>

lemma transfer_then_print:
  assumes "f st = (let (ret, tmp, st) = control_msg w u st
      in if ret < 0 then (g ret tmp, printf m st) else (h ret tmp, pc_debug b tmp ret st))"
  obtains ps where "ups_events (snd (f st)) = ups_events st @ Control u # map Print ps"
    "transfers (snd (f st)) = Suc (transfers st)" "settings (snd (f st)) = settings st"
proof -
  obtain ret tmp where c: "control w (transfers st) u = (ret, tmp)"
    by (cases "control w (transfers st) u")
  let ?st = "(log_event (Control u) st)\<lparr>transfers := Suc (transfers st)\<rparr>"
  show thesis
  proof (cases "ret < 0")
    case True
    then show thesis
      by (intro that [of "[m]"]) (simp_all add: assms control_msg_def c printf_def)
  next
    case False
    show thesis
      by (rule pc_debug_frame [of b tmp ret ?st])
        (rule that; simp add: assms control_msg_def c False)
  qed
qed

interpretation pc_r16: report_reader "pc_r16 b w report" report for b w report
proof unfold_locales
  fix st
  have "pc_get_report16 b w report st = (let (ret, tmp, st) = control_msg w (get_report_setup report) st
      in if ret < 0 then (- 1, printf (line ''retrieving hid report failed'') st)
         else (ucast (tmp 1), pc_debug b tmp ret st))"
    by (simp only: pc_get_report16_def Let_def)
  then obtain ps where "ups_events (snd (pc_get_report16 b w report st))
      = ups_events st @ Control (get_report_setup report) # map Print ps"
    "transfers (snd (pc_get_report16 b w report st)) = Suc (transfers st)"
    "settings (snd (pc_get_report16 b w report st)) = settings st"
    by (rule transfer_then_print [of "pc_get_report16 b w report" st])
  then show "\<exists>ps. ups_events (snd (pc_r16 b w report st))
      = ups_events st @ Control (get_report_setup report) # map Print ps"
    "transfers (snd (pc_r16 b w report st)) = Suc (transfers st)"
    "settings (snd (pc_r16 b w report st)) = settings st"
    by (auto simp: pc_r16_def split: prod.splits)
qed

interpretation pc_r8: report_reader "pc_r8 b w report" report for b w report
proof unfold_locales
  fix st
  have "pc_get_report8 b w report st = (let (ret, tmp, st) = control_msg w (get_report_setup report) st
      in if ret < 0 then (- 1, printf (line ''retrieving hid report failed'') st)
         else (tmp 1, pc_debug b tmp ret st))"
    by (simp only: pc_get_report8_def Let_def)
  then obtain ps where "ups_events (snd (pc_get_report8 b w report st))
      = ups_events st @ Control (get_report_setup report) # map Print ps"
    "transfers (snd (pc_get_report8 b w report st)) = Suc (transfers st)"
    "settings (snd (pc_get_report8 b w report st)) = settings st"
    by (rule transfer_then_print [of "pc_get_report8 b w report" st])
  then show "\<exists>ps. ups_events (snd (pc_r8 b w report st))
      = ups_events st @ Control (get_report_setup report) # map Print ps"
    "transfers (snd (pc_r8 b w report st)) = Suc (transfers st)"
    "settings (snd (pc_r8 b w report st)) = settings st"
    by (auto simp: pc_r8_def split: prod.splits)
qed

lemma apc_get_report16_frame:
  obtains ps where "ups_events (snd (apc_get_report16 b w report st))
      = ups_events st @ Control (get_report_setup report) # map Print ps"
    "transfers (snd (apc_get_report16 b w report st)) = Suc (transfers st)"
    "settings (snd (apc_get_report16 b w report st)) = settings st"
proof -
  have "apc_get_report16 b w report st = (let (ret, tmp, st) = control_msg w (get_report_setup report) st
      in if ret < 0 then (- 1, printf (line ''retrieving hid report failed'') st)
         else (if ret = 2 then ucast (tmp 1)
               else if ret = 3 then ucast (tmp 1) OR push_bit 8 (ucast (tmp 2)) else 0,
               pc_debug b tmp ret st))"
    by (simp only: apc_get_report16_def apc_debug_eq Let_def)
  then show thesis
    by (rule transfer_then_print [of "apc_get_report16 b w report" st]) (rule that)
qed

interpretation apc_r16: report_reader "apc_r16 b w report d" report for b w report d
proof unfold_locales
  fix st
  show "\<exists>ps. ups_events (snd (apc_r16 b w report d st))
      = ups_events st @ Control (get_report_setup report) # map Print ps"
    "transfers (snd (apc_r16 b w report d st)) = Suc (transfers st)"
    "settings (snd (apc_r16 b w report d st)) = settings st"
    by (rule apc_get_report16_frame [of b w report st]; auto simp: apc_r16_def split: prod.splits)+
qed

lemma readers_read_only [simp]:
  "reads_only (pc_r16 b w report)" "reads_only (pc_r8 b w report)" "reads_only (apc_r16 b w report d)"
  unfolding reads_only_def
  using pc_r16.report_reader_axioms pc_r8.report_reader_axioms apc_r16.report_reader_axioms by blast+

lemma adds_print_table: "\<forall>l \<in> set ls. reads_only (fst l) \<Longrightarrow> adds quiet st (print_table ls st)"
  using print_table_frame [of ls st] by (simp add: adds_def)

lemma adds_print_lines: "adds quiet st (print_lines ss st)"
  by (auto simp: adds_def)

lemma adds_prints: "ups_events st' = ups_events st @ Control u # map Print ps \<Longrightarrow>
    settings st' = settings st \<Longrightarrow> (\<And>s. P (Print s)) \<Longrightarrow> P (Control u) \<Longrightarrow> adds P st st'"
  by (auto simp: adds_def)

lemma adds_status: "adds P st st' \<Longrightarrow> adds P st (st'\<lparr>status := v\<rparr>)"
  by (simp add: adds_def)

lemma pc_read_status_quiet: "adds quiet st (pc_read_status b w st)"
proof -
  obtain es where "ups_events (snd (pc_r16 b w 20 st)) = ups_events st @ es" "\<forall>e \<in> set es. quiet e"
    using pc_r16.quiet_reading by blast
  with pc_r16.keeps [of b w 20 st] show ?thesis
    by (auto simp: adds_def pc_read_status_def pc_r16_def split: prod.splits)
qed

lemma apc_reading_quiet: "adds quiet st (snd (apc_get_report16 b w report st))"
  by (rule apc_get_report16_frame [of b w report st]) (erule adds_prints; simp)

lemma apc_read_status_quiet: "adds quiet st (apc_read_status b w st)"
  using apc_reading_quiet [of st b w 7]
  by (auto simp: apc_read_status_def split: prod.splits intro: adds_status)

section \<open>The programs as tools\<close>

lemma pc_report_quiet: "adds quiet st (pc_report b w st)"
proof -
  have "adds quiet st (pc_unformatted b w st)" "adds quiet st (pc_bash b w st)"
    unfolding pc_unformatted_def pc_bash_def Let_def
    by (rule adds_trans [OF adds_trans [OF adds_print_table pc_read_status_quiet] adds_print_lines]; simp)+
  moreover have "adds quiet st (pc_human b w st)"
    unfolding pc_human_def Let_def
    by (rule adds_trans [OF adds_trans [OF adds_printf [OF adds_print_table] pc_read_status_quiet]
        adds_print_lines]; simp)
  ultimately show ?thesis by (simp add: pc_report_def)
qed

lemma apc_report_quiet: "adds quiet st (apc_report b w st)"
proof -
  have "adds quiet st (apc_unformatted b w st)" "adds quiet st (apc_bash b w st)"
    unfolding apc_unformatted_def apc_bash_def Let_def
    by (auto intro!: adds_trans [OF adds_trans [OF adds_print_table apc_read_status_quiet]
        adds_print_lines] adds_print_table)
  moreover have "adds quiet st (apc_human b w st)"
    unfolding apc_human_def Let_def
    by (auto intro!: adds_trans [OF adds_trans [OF adds_printf [OF adds_print_table]
        apc_read_status_quiet] adds_print_lines] adds_print_table)
  ultimately show ?thesis by (simp add: apc_report_def)
qed

lemma apc_dummy_reads_frame:
  "adds quiet st (apc_dummy_reads b w n st)" "transfers (apc_dummy_reads b w n st) = transfers st + n"
proof (induction n arbitrary: st)
  case (Suc n)
  { case 1
    show ?case using adds_trans [OF apc_reading_quiet Suc.IH(1)] by simp
  next
    case 2
    show ?case using Suc.IH(2)
      by (simp, metis apc_get_report16_frame add_Suc_right add_Suc) }
qed simp_all

lemma adds_transfer:
  assumes "P (Control u)" and "\<And>s. P (Print s)"
    and "f st = (let (ret, tmp, st) = control_msg w u st
      in if ret < 0 then (g ret tmp, printf m st) else (h ret tmp, pc_debug b tmp ret st))"
  shows "adds P st (snd (f st))"
proof -
  obtain ps where "ups_events (snd (f st)) = ups_events st @ Control u # map Print ps"
    "settings (snd (f st)) = settings st"
    by (rule transfer_then_print [of f st w u g m h b, OF assms(3)])
  with assms(1,2) show ?thesis by (intro adds_prints)
qed

lemma commands_adds:
  "adds device_io st (snd (pc_send_test b w st))" "adds device_io st (snd (pc_send_boff b w st))"
  "adds device_io st (snd (apc_send_test b w st))" "adds device_io st (snd (apc_send_boff b w st))"
  by (rule adds_transfer; simp only: pc_send_test_def pc_send_boff_def apc_send_test_def
      apc_send_boff_def apc_debug_eq Let_def device_io_simps)+

text \<open>
  The four commands report success whatever the transfer did: the value they return is unsigned, so
  the test \<open>ret < 0\<close> is never true.
\<close>

lemma uint_not_negative [simp]: "\<not> uint (x :: byte) < 0"
  by (simp add: not_less)

lemma command_returns:
  assumes "adds device_io s0 (snd r)" and "adds device_io st s0"
  shows "\<exists>st'. (let (r, st) = r; ret = uint (r :: byte)
      in if ret < 0 then Inl (printf m st) else Inr (log_event (SleepSec 1) (printf m' st)))
      = (Inr st' :: ups_state + ups_state) \<and> adds device_io st st'"
  using assms by (cases r) (auto intro!: adds_log adds_printf intro: adds_trans)

interpretation pc: ups_tool "\<lambda>st. st" "pc_report b w" "pc_do_test b w" "pc_do_boff b w" for b w
proof unfold_locales
  fix st
  show "adds quiet st st" by simp
  show "adds quiet st (pc_report b w st)" by (rule pc_report_quiet)
  have "adds device_io st (printf s st)" for s by (simp add: adds_printf)
  from command_returns [OF commands_adds(1) this] command_returns [OF commands_adds(2) this]
  show "\<exists>st'. pc_do_test b w st = Inr st' \<and> adds device_io st st' \<and> (\<not> tflag st \<longrightarrow> st' = st)"
    and "\<exists>st'. pc_do_boff b w st = Inr st' \<and> adds device_io st st' \<and> (\<not> bflag st \<longrightarrow> st' = st)"
    by (simp_all add: pc_do_test_def pc_do_boff_def)
qed

interpretation apc: ups_tool "apc_dummy_reads b w 8" "apc_report b w" "apc_do_test b w"
  "apc_do_boff b w" for b w
proof unfold_locales
  fix st
  show "adds quiet st (apc_dummy_reads b w 8 st)" by (rule apc_dummy_reads_frame)
  show "adds quiet st (apc_report b w st)" by (rule apc_report_quiet)
  have "adds device_io st (printf s st)" for s by (simp add: adds_printf)
  from command_returns [OF commands_adds(3) this] command_returns [OF commands_adds(4) this]
  show "\<exists>st'. apc_do_test b w st = Inr st' \<and> adds device_io st st' \<and> (\<not> tflag st \<longrightarrow> st' = st)"
    and "\<exists>st'. apc_do_boff b w st = Inr st' \<and> adds device_io st st' \<and> (\<not> bflag st \<longrightarrow> st' = st)"
    by (simp_all add: apc_do_test_def apc_do_boff_def)
qed

end
