(* ===== verification/UpsProps.thy ===== *)
theory UpsProps
  imports UpsTools
begin

text \<open>
  What the two UPS monitors guarantee: which device they take, what they do to it and in which
  order, their exit status, what the options set, what a report is worth, and the text they print.
\<close>

unbundle bit_operations_syntax

section \<open>Options\<close>

definition given :: "char \<Rightarrow> (char \<times> string) list \<Rightarrow> bool" where
  "given c opts \<longleftrightarrow> c \<in> fst ` set opts"

lemma given_simps [simp]:
  "\<not> given c []" "given c (p # opts) \<longleftrightarrow> fst p = c \<or> given c opts"
  "given c (opts @ opts') \<longleftrightarrow> given c opts \<or> given c opts'"
  by (auto simp: given_def)

lemma apc_option_eq: "apc_option = pc_option"
  by (intro ext) (simp only: apc_option_def pc_option_def)

lemma pc_option_step:
  "tflag (pc_option lb st p) \<longleftrightarrow> tflag st \<or> fst p = CHR ''t''"
  "bflag (pc_option lb st p) \<longleftrightarrow> bflag st \<or> fst p = CHR ''b''"
  "detach (pc_option lb st p) \<longleftrightarrow> detach st \<or> fst p = CHR ''d''"
  "attach (pc_option lb st p) \<longleftrightarrow> attach st \<or> fst p = CHR ''a''"
  "skip (pc_option lb st p) \<longleftrightarrow> skip st \<or>
     fst p = CHR ''t'' \<or> fst p = CHR ''b'' \<or> fst p = CHR ''d'' \<or> fst p = CHR ''a''"
  "help_flag (pc_option lb st p) \<longleftrightarrow> help_flag st \<or> fst p = CHR ''h'' \<or> fst p = CHR ''?''"
  "ups_events (pc_option lb st p) = ups_events st"
  "transfers (pc_option lb st p) = transfers st"
  "vendor (pc_option lb st p) = (if fst p = CHR ''v'' then s32 (fst (strtol lb 16 (snd p))) else vendor st)"
  "product (pc_option lb st p) = (if fst p = CHR ''p'' then s32 (fst (strtol lb 16 (snd p))) else product st)"
  "hflag (pc_option lb st p) = (if fst p = CHR ''u'' then 1 else if fst p = CHR ''s'' then 2 else hflag st)"
  by (simp_all add: pc_option_def split: prod.split)

lemma pc_option_fold:
  "tflag (foldl (pc_option lb) st opts) \<longleftrightarrow> tflag st \<or> given CHR ''t'' opts"
  "bflag (foldl (pc_option lb) st opts) \<longleftrightarrow> bflag st \<or> given CHR ''b'' opts"
  "detach (foldl (pc_option lb) st opts) \<longleftrightarrow> detach st \<or> given CHR ''d'' opts"
  "attach (foldl (pc_option lb) st opts) \<longleftrightarrow> attach st \<or> given CHR ''a'' opts"
  "skip (foldl (pc_option lb) st opts) \<longleftrightarrow> skip st \<or>
     given CHR ''t'' opts \<or> given CHR ''b'' opts \<or> given CHR ''d'' opts \<or> given CHR ''a'' opts"
  "help_flag (foldl (pc_option lb) st opts) \<longleftrightarrow>
     help_flag st \<or> given CHR ''h'' opts \<or> given CHR ''?'' opts"
  "ups_events (foldl (pc_option lb) st opts) = ups_events st"
  "transfers (foldl (pc_option lb) st opts) = transfers st"
  by (induction opts arbitrary: st; simp add: pc_option_step; blast)+

text \<open>The number after the last occurrence of an option, as \<open>strtol\<close> in base 16 reads it.\<close>

fun last_hex :: "nat \<Rightarrow> char \<Rightarrow> int \<Rightarrow> (char \<times> string) list \<Rightarrow> int" where
  "last_hex lb c v [] = v"
| "last_hex lb c v ((d, arg) # opts) =
     last_hex lb c (if d = c then s32 (fst (strtol lb 16 arg)) else v) opts"

fun last_mode :: "int \<Rightarrow> (char \<times> string) list \<Rightarrow> int" where
  "last_mode m [] = m"
| "last_mode m ((d, arg) # opts) =
     last_mode (if d = CHR ''u'' then 1 else if d = CHR ''s'' then 2 else m) opts"

lemma pc_option_last:
  "vendor (foldl (pc_option lb) st opts) = last_hex lb CHR ''v'' (vendor st) opts"
  "product (foldl (pc_option lb) st opts) = last_hex lb CHR ''p'' (product st) opts"
  "hflag (foldl (pc_option lb) st opts) = last_mode (hflag st) opts"
  by (induction opts arbitrary: st; simp add: pc_option_step split_paired_all)+

text \<open>The command line of the Powercom monitor. Each action is asked for exactly by its option;
  the identification is what the last \<open>-v\<close> and \<open>-p\<close> say (else the defaults), the last of \<open>-u\<close> and
  \<open>-s\<close> decides the format, and any of \<open>-t -b -d -a\<close> suppresses the human readable report.\<close>

theorem pc_parse_options:
  "let opts = fst (getopt_all ''ustbv:p:dah?'' args); st = pc_parse b args in
    (tflag st \<longleftrightarrow> given CHR ''t'' opts) \<and> (bflag st \<longleftrightarrow> given CHR ''b'' opts) \<and>
    (detach st \<longleftrightarrow> given CHR ''d'' opts) \<and> (attach st \<longleftrightarrow> given CHR ''a'' opts) \<and>
    (skip st \<longleftrightarrow> tflag st \<or> bflag st \<or> detach st \<or> attach st) \<and>
    (help_flag st \<longleftrightarrow> given CHR ''h'' opts \<or> given CHR ''?'' opts) \<and>
    vendor st = last_hex (ups_long_bits b) CHR ''v'' 0x0d9f opts \<and>
    product st = last_hex (ups_long_bits b) CHR ''p'' 0x00a4 opts \<and>
    hflag st = last_mode 0 opts"
  by (simp add: pc_parse_def pc_optstring_def pc_option_fold pc_option_last pc_init_def Let_def)

section \<open>The device\<close>

text \<open>The monitor takes the first device, in the order of the buses and of the devices on each
  bus, whose vendor and product identification are the configured ones, and opens no other.\<close>

theorem pc_open_first:
  "pc_usb_open_imd w st =
     (case find (\<lambda>d. uint (idVendor d) = vendor st \<and> uint (idProduct d) = product st)
            (concat (busses w)) of
        None \<Rightarrow> (None, st)
      | Some d \<Rightarrow> (if can_open w d then Some d else None, st\<lparr>ups_events := ups_events st @ [OpenDevice d]\<rparr>))"
proof -
  let ?P = "\<lambda>d. uint (idVendor d) = vendor st \<and> uint (idProduct d) = product st"
  have dev: "pc_scan_devices st ds = find ?P ds" for ds by (induction ds) auto
  have app: "find ?P (xs @ ys) = (case find ?P xs of None \<Rightarrow> find ?P ys | Some d \<Rightarrow> Some d)" for xs ys
    by (induction xs) auto
  have "pc_scan_busses st bs = find ?P (concat bs)" for bs
    by (induction bs) (auto simp: dev app split: option.split)
  then show ?thesis by (auto simp: pc_usb_open_imd_def log_event_def split: option.split)
qed


section \<open>Whole runs\<close>

text \<open>
  What a run does between opening and closing, and its status, for both programs: \<open>st\<close> is the state
  after the options, \<open>found\<close> the device looked for, \<open>es\<close> what happens while the interface is held.
\<close>

definition run_events ::
  "string list \<Rightarrow> ups_build \<Rightarrow> usb_world \<Rightarrow> ups_state \<Rightarrow> usb_device option \<Rightarrow> ups_event list \<Rightarrow> ups_event list" where
  "run_events help_text b w st found es =
     (if help_flag st then map Print help_text
      else case found of
          None \<Rightarrow> [Print (line ''open failed'')]
        | Some d \<Rightarrow> OpenDevice d #
            (if can_open w d then bracketed b w st es else [Print (line ''open failed'')]))"

definition run_status :: "usb_world \<Rightarrow> ups_state \<Rightarrow> usb_device option \<Rightarrow> int" where
  "run_status w st found =
     (if help_flag st then 0
      else case found of
          None \<Rightarrow> 1
        | Some d \<Rightarrow>
            if can_open w d \<and> \<not> fst (control w 0 hid_descriptor_setup) < 0 \<and> \<not> release_rc w < 0
            then 0 else 1)"

lemma apc_scan_eq: "apc_scan_busses = pc_scan_busses"
proof (intro ext)
  fix st bs
  have "apc_scan_devices st ds = pc_scan_devices st ds" for ds by (induction ds) auto
  then show "apc_scan_busses st bs = pc_scan_busses st bs" by (induction bs) (auto split: option.split)
qed

lemma parse_fresh [simp]:
  "ups_events (pc_parse b args) = []" "transfers (pc_parse b args) = 0"
  "ups_events (apc_parse b args) = []" "transfers (apc_parse b args) = 0"
  by (simp_all add: pc_parse_def apc_parse_def apc_option_eq pc_option_fold pc_init_def apc_init_def)

lemma bracketed_log [simp]: "bracketed b w (log_event e st) es = bracketed b w st es"
  by (simp add: bracketed_def)

lemma descriptor_ret_log [simp]: "descriptor_ret w (log_event e st) = descriptor_ret w st"
  by (simp add: descriptor_ret_def)

text \<open>The part of the two \<open>main\<close>s behind the options, for any session that behaves as
  \<open>session_run\<close> says.\<close>

lemma open_then_session:
  assumes "\<And>s. \<exists>es. ups_events (fst (session s)) = ups_events s @ bracketed b w s es \<and>
      (\<forall>e \<in> set es. device_io e) \<and>
      snd (session s) = (if descriptor_ret w s < 0 \<or> release_rc w < 0 then 1 else 0)"
    and "ups_events st = []" and "transfers st = 0"
    and "r = (if help_flag st then (print_lines h st, 0)
         else (case pc_usb_open_imd w st of
             (None, st) \<Rightarrow> (printf (line ''open failed'') st, 1)
           | (Some _, st) \<Rightarrow> session st))"
  shows "\<exists>es. ups_events (fst r) = run_events h b w st (pc_scan_busses st (busses w)) es \<and>
    list_all device_io es \<and> snd r = run_status w st (pc_scan_busses st (busses w))"
proof -
  have none: "\<exists>es. list_all device_io es" by (rule exI [of _ "[]"]) simp
  show ?thesis
  proof (cases "\<exists>d. pc_scan_busses st (busses w) = Some d \<and> can_open w d \<and> \<not> help_flag st")
    case False
    with none assms(2-4) show ?thesis
      by (auto simp: pc_usb_open_imd_def run_events_def run_status_def printf_def split: option.split)
  next
    case True
    then obtain d where d: "pc_scan_busses st (busses w) = Some d" "can_open w d" "\<not> help_flag st"
      by blast
    then have "r = session (log_event (OpenDevice d) st)" by (simp add: assms(4) pc_usb_open_imd_def)
    with d assms(1) [of "log_event (OpenDevice d) st"] assms(2,3) show ?thesis
      by (auto simp: run_events_def run_status_def descriptor_ret_def list_all_iff)
  qed
qed

lemma apc_open_eq: "apc_usb_open_imd = pc_usb_open_imd"
  by (intro ext) (simp only: apc_usb_open_imd_def pc_usb_open_imd_def apc_scan_eq)

text \<open>C14: a run of the Powercom monitor, whatever the device answers. Help is printed without
  touching any device. Otherwise at most the device found is opened; then the interface is claimed
  before and released after everything done to it, the driver is detached before and attached after
  when asked for, the device is closed last, and on no path is any of this left out. The exit status
  is 1 exactly when there was no device to open, the HID descriptor could not be read or the release
  failed.\<close>

theorem pc_main_run:
  "\<exists>es. ups_events (fst (pc_main b w args)) = run_events pc_help b w (pc_parse b args)
        (pc_scan_busses (pc_parse b args) (busses w)) es \<and> list_all device_io es \<and>
    snd (pc_main b w args) = run_status w (pc_parse b args)
        (pc_scan_busses (pc_parse b args) (busses w))"
proof (rule open_then_session [of "pc_session b w"])
  fix s
  show "\<exists>es. ups_events (fst (pc_session b w s)) = ups_events s @ bracketed b w s es \<and>
      (\<forall>e \<in> set es. device_io e) \<and>
      snd (pc_session b w s) = (if descriptor_ret w s < 0 \<or> release_rc w < 0 then 1 else 0)"
    unfolding pc_session_eq by (rule pc.session_run [of b w b w s]) blast
qed (simp_all only: pc_main_def Let_def parse_fresh)

text \<open>C28: the same for the APC monitor: also its eight readings that are thrown away happen while
  the interface is held.\<close>

theorem apc_main_run:
  "\<exists>es. ups_events (fst (apc_main b w args)) = run_events apc_help b w (apc_parse b args)
        (apc_scan_busses (apc_parse b args) (busses w)) es \<and> list_all device_io es \<and>
    snd (apc_main b w args) = run_status w (apc_parse b args)
        (apc_scan_busses (apc_parse b args) (busses w))"
  unfolding apc_scan_eq
proof (rule open_then_session [of "apc_session b w"])
  fix s
  show "\<exists>es. ups_events (fst (apc_session b w s)) = ups_events s @ bracketed b w s es \<and>
      (\<forall>e \<in> set es. device_io e) \<and>
      snd (apc_session b w s) = (if descriptor_ret w s < 0 \<or> release_rc w < 0 then 1 else 0)"
    unfolding apc_session_eq by (rule apc.session_run [of b w b w s]) blast
qed (simp_all only: apc_main_def apc_open_eq Let_def parse_fresh)


section \<open>What is sent to the device\<close>

definition sent :: "ups_state \<Rightarrow> ups_event list" where
  "sent st = filter host_to_device (ups_events st)"

lemma sent_simps [simp]:
  "sent (log_event e st) = sent st @ filter host_to_device [e]" "sent (printf s st) = sent st"
  "sent (print_lines ss st) = sent st"
  by (simp_all add: sent_def printf_def filter_empty_conv)

lemma adds_quiet_sent: "adds quiet st st' \<Longrightarrow> sent st' = sent st"
  using quietD by (auto simp: adds_def sent_def filter_empty_conv)

lemma adds_flags: "adds P st st' \<Longrightarrow> tflag st' = tflag st \<and> bflag st' = bflag st"
  by (auto simp: adds_def dest: settings_eqD)

lemma pc_release_sent [simp]: "sent (fst (pc_release b w ret st)) = sent st"
  by (simp add: sent_def pc_release_eq release_messages_def)

text \<open>A tool whose two commands are one transfer each.\<close>

locale ups_commands = ups_tool +
  fixes test_setup boff_setup :: usb_setup
  assumes test_sends: "test st = Inr st' \<Longrightarrow>
      sent st' = sent st @ (if tflag st then [Control test_setup] else [])"
    and boff_sends: "boff st = Inr st' \<Longrightarrow>
      sent st' = sent st @ (if bflag st then [Control boff_setup] else [])"
begin

lemma session_sends:
  "sent (fst (session b w st)) = sent st @
     (if descriptor_ret w st < 0 then []
      else (if tflag st then [Control test_setup] else []) @
        (if bflag st then [Control boff_setup] else []))"
proof -
  let ?d = "described b w (claimed b w st)"
  have claimed: "sent (claimed b w st) = sent st"
    by (simp add: sent_def claimed_facts)
  have described: "sent ?d = sent st" "tflag ?d = tflag st" "bflag ?d = bflag st"
    using described_quiet [of "claimed b w st" b w] claimed claimed_facts(2) [of b w st]
    by (auto simp: adds_quiet_sent dest: adds_flags settings_eqD)
  show ?thesis
  proof (cases "descriptor_ret w st < 0")
    case True
    then show ?thesis by (simp add: session_unfold described)
  next
    case False
    have warm: "sent (warm ?d) = sent st" "tflag (warm ?d) = tflag st" "bflag (warm ?d) = bflag st"
      using warm_quiet [of ?d] described by (auto simp: adds_quiet_sent dest: adds_flags)
    obtain st1 where 1: "test (warm ?d) = Inr st1" "adds device_io (warm ?d) st1"
      using test_returns by blast
    obtain st2 where 2: "boff st1 = Inr st2" using boff_returns by blast
    have "bflag st1 = bflag st" using adds_flags [OF 1(2)] warm by simp
    then have "sent st2 = sent st @ (if tflag st then [Control test_setup] else []) @
        (if bflag st then [Control boff_setup] else [])"
      using test_sends [OF 1(1)] boff_sends [OF 2] warm by simp
    then show ?thesis
      using False 1 2 adds_quiet_sent [OF report_quiet, of st2] by (simp add: session_unfold)
  qed
qed

end

lemma send_sent:
  assumes "f st = (let (ret, tmp, st) = control_msg w u st
      in if ret < 0 then (g ret tmp, printf m st) else (h ret tmp, pc_debug b tmp ret st))"
    and "host_to_device (Control u)"
  shows "sent (snd (f st)) = sent st @ [Control u]"
proof -
  obtain ps where "ups_events (snd (f st)) = ups_events st @ Control u # map Print ps"
    by (rule transfer_then_print [of f st w u g m h b, OF assms(1)])
  with assms(2) show ?thesis by (simp add: sent_def filter_empty_conv)
qed

lemma commands_sent:
  "sent (snd (pc_send_test b w st)) = sent st @ [Control (set_report_setup 0x15 [0x15, 0x01])]"
  "sent (snd (pc_send_boff b w st)) = sent st @ [Control (set_report_setup 0x13 [0x13, 0x00])]"
  "sent (snd (apc_send_test b w st)) = sent st @ [Control (set_report_setup 0x16 [0x16, 0x01])]"
  "sent (snd (apc_send_boff b w st)) = sent st @ [Control (set_report_setup 0x14 [0x14, 0x00])]"
  by (rule send_sent; simp only: pc_send_test_def pc_send_boff_def apc_send_test_def
      apc_send_boff_def apc_debug_eq Let_def host_to_device_simps)+

lemma commands_sentD:
  "pc_send_test b w st = (r, st') \<Longrightarrow> sent st' = sent st @ [Control (set_report_setup 0x15 [0x15, 0x01])]"
  "pc_send_boff b w st = (r, st') \<Longrightarrow> sent st' = sent st @ [Control (set_report_setup 0x13 [0x13, 0x00])]"
  "apc_send_test b w st = (r, st') \<Longrightarrow> sent st' = sent st @ [Control (set_report_setup 0x16 [0x16, 0x01])]"
  "apc_send_boff b w st = (r, st') \<Longrightarrow> sent st' = sent st @ [Control (set_report_setup 0x14 [0x14, 0x00])]"
  by (metis commands_sent(1) snd_conv, metis commands_sent(2) snd_conv, metis commands_sent(3) snd_conv,
      metis commands_sent(4) snd_conv)

interpretation pc_cmd: ups_commands "\<lambda>st. st" "pc_report b w" "pc_do_test b w" "pc_do_boff b w"
  "set_report_setup 0x15 [0x15, 0x01]" "set_report_setup 0x13 [0x13, 0x00]" for b w
  by unfold_locales
    (auto simp: pc_do_test_def pc_do_boff_def dest!: commands_sentD split: prod.splits if_splits)

interpretation apc_cmd: ups_commands "apc_dummy_reads b w 8" "apc_report b w" "apc_do_test b w"
  "apc_do_boff b w" "set_report_setup 0x16 [0x16, 0x01]" "set_report_setup 0x14 [0x14, 0x00]" for b w
  by unfold_locales
    (auto simp: apc_do_test_def apc_do_boff_def dest!: commands_sentD split: prod.splits if_splits)

text \<open>The device a run holds: the one found, unless help was asked for or it cannot be opened.\<close>

definition holds_device :: "usb_world \<Rightarrow> ups_state \<Rightarrow> bool" where
  "holds_device w st \<longleftrightarrow> \<not> help_flag st \<and>
     (case pc_scan_busses st (busses w) of None \<Rightarrow> False | Some d \<Rightarrow> can_open w d) \<and>
     \<not> fst (control w 0 hid_descriptor_setup) < 0"

lemma main_sends:
  assumes "\<And>s. sent (fst (session s)) = sent s @ (if descriptor_ret w s < 0 then []
      else (if tflag s then [Control t] else []) @ (if bflag s then [Control u] else []))"
    and "ups_events st = []" and "transfers st = 0"
    and "r = (if help_flag st then (print_lines h st, 0)
         else (case pc_usb_open_imd w st of
             (None, st) \<Rightarrow> (printf (line ''open failed'') st, 1)
           | (Some _, st) \<Rightarrow> session st))"
  shows "filter host_to_device (ups_events (fst r)) = (if holds_device w st
     then (if tflag st then [Control t] else []) @ (if bflag st then [Control u] else []) else [])"
proof -
  have [simp]: "sent st = []" by (simp add: sent_def assms(2))
  show ?thesis
    unfolding sent_def [symmetric] assms(4) pc_usb_open_imd_def holds_device_def
    by (auto simp: assms(1,3) descriptor_ret_def split: option.split)
qed

text \<open>C20: everything the Powercom monitor ever sends to a device (all other transfers ask the device
  for data): the test command with \<open>-t\<close>, the beeper command with \<open>-b\<close>, in this order and once each,
  and only after the device was opened and answered the request for its descriptor; without these
  options the monitor only reads.\<close>

theorem pc_main_sends:
  "filter host_to_device (ups_events (fst (pc_main b w args))) =
     (let st = pc_parse b args in
      if holds_device w st
      then (if tflag st then [Control (set_report_setup 0x15 [0x15, 0x01])] else []) @
        (if bflag st then [Control (set_report_setup 0x13 [0x13, 0x00])] else [])
      else [])"
  unfolding Let_def
  by (rule main_sends [of "pc_session b w"], simp only: pc_session_eq pc_cmd.session_sends)
    (simp_all only: pc_main_def Let_def parse_fresh)

text \<open>C29: the same for the APC monitor, with its own report numbers.\<close>

theorem apc_main_sends:
  "filter host_to_device (ups_events (fst (apc_main b w args))) =
     (let st = apc_parse b args in
      if holds_device w st
      then (if tflag st then [Control (set_report_setup 0x16 [0x16, 0x01])] else []) @
        (if bflag st then [Control (set_report_setup 0x14 [0x14, 0x00])] else [])
      else [])"
  unfolding Let_def
  by (rule main_sends [of "apc_session b w"], simp only: apc_session_eq apc_cmd.session_sends)
    (simp_all only: apc_main_def apc_open_eq Let_def parse_fresh)


section \<open>What a report is worth\<close>

text \<open>The answer to the \<open>n\<close>-th transfer when it asks for a report.\<close>

definition answer :: "usb_world \<Rightarrow> nat \<Rightarrow> byte \<Rightarrow> int \<times> (nat \<Rightarrow> byte)" where
  "answer w n report = control w n (get_report_setup report)"

lemma fst_pc_get_report16: "fst (pc_get_report16 b w report st) =
    (case answer w (transfers st) report of (ret, tmp) \<Rightarrow> if ret < 0 then - 1 else ucast (tmp 1))"
  by (simp add: pc_get_report16_def answer_def control_msg_def Let_def split: prod.split)

lemma pc_status_read: "status (pc_read_status b w st) = fst (pc_get_report16 b w 20 st)"
  by (simp add: pc_read_status_def split: prod.split)

lemma flag_bit: "pc_flag s j \<longleftrightarrow> bit s j"
  by (simp add: pc_flag_def push_bit_eq_mult and_exp_eq_0_iff_not_bit)

lemma apc_flag_eq: "apc_flag = pc_flag"
  by (intro ext) (simp add: apc_flag_def pc_flag_def)

text \<open>C32: the status flags of the Powercom monitor. A flag among the first eight is shown on when
  its bit is set in the one byte that is read, or when the reading failed; the others (shutdown
  requested, shutdown imminent, communication lost, overload) are on exactly when the reading
  failed, whatever the device reports.\<close>

theorem pc_status_flags:
  "pc_flag (status (pc_read_status b w st)) j =
     (case answer w (transfers st) 20 of
        (ret, tmp) \<Rightarrow> j < 16 \<and> (if ret < 0 then True else j < 8 \<and> bit (tmp 1) j))"
  by (auto simp: pc_status_read fst_pc_get_report16 flag_bit bit_simps split: prod.split
      dest: bit_imp_le_length)

text \<open>A little-endian pair of bytes in 16 bits.\<close>

lemma uint_byte_pair:
  fixes x y :: byte
  shows "uint (ucast x :: u16) = uint x"
    and "uint (ucast x OR push_bit 8 (ucast y) :: u16) = uint x + 256 * uint y"
proof -
  have byte: "0 \<le> uint z \<and> uint z < 256" for z :: byte
    using uint_lt2p [of z] by simp
  show ucast: "uint (ucast z :: u16) = uint z" for z :: byte
    using byte [of z] by (simp add: unsigned_ucast_eq take_bit_int_eq_self_iff)
  have push: "uint (push_bit 8 (ucast y) :: u16) = push_bit 8 (uint y)"
    using byte [of y] unfolding unsigned_push_bit_eq [of 8 "ucast y :: u16", where ?'a = int] ucast
    by (simp add: take_bit_int_eq_self_iff push_bit_eq_mult)
  have "uint x + push_bit 8 (uint y) = uint x OR push_bit 8 (uint y)"
    by (intro disjunctive_add) (auto simp: bit_simps dest: bit_imp_le_length)
  then show "uint (ucast x OR push_bit 8 (ucast y) :: u16) = uint x + 256 * uint y"
    unfolding unsigned_or_eq ucast push by (simp add: push_bit_eq_mult)
qed

lemma uint_minus_one_16: "uint (- 1 :: u16) = 65535"
  by (simp add: unsigned_minus_1_eq_mask mask_eq_exp_minus_1)

text \<open>The number a 16-bit report of the APC monitor stands for, on every branch: two bytes behind
  the report number are a little-endian value, one byte is the value, any other length gives 0, and
  a failed transfer 65535.\<close>

theorem apc_get_report16_value:
  "uint (fst (apc_get_report16 b w report st)) =
     (case answer w (transfers st) report of
        (ret, tmp) \<Rightarrow>
          if ret < 0 then 65535
          else if ret = 2 then uint (tmp 1)
          else if ret = 3 then uint (tmp 1) + 256 * uint (tmp 2)
          else 0)"
  by (simp add: apc_get_report16_def answer_def control_msg_def Let_def uint_byte_pair uint_minus_one_16
      split: prod.split)

text \<open>The test command of the Powercom monitor reports success also when the transfer failed: the
  value compared with 0 is unsigned.\<close>

theorem pc_test_unchecked:
  assumes "tflag st" and "fst (control w (transfers st) (set_report_setup 0x15 [0x15, 0x01])) < 0"
  shows "\<exists>st'. pc_do_test b w st = Inr st' \<and> ups_events st' = ups_events st @
    [Print ''Test: '', Control (set_report_setup 0x15 [0x15, 0x01]),
     Print (line ''retrieving hid report failed''), Print (line (line ''OK'')), SleepSec 1]"
  using assms
  by (cases "control w (transfers st) (set_report_setup 0x15 [0x15, 0x01])")
    (simp add: pc_do_test_def pc_send_test_def control_msg_def Let_def printf_def)


theorem pc_test_unchecked_witness:
  "\<exists>st'. pc_do_test \<lparr>DEBUG = False, HAS_DETACH = True, HAS_ATTACH = False, PRINT_STATUS = False,
       ups_long_bits = 32\<rparr>
      \<lparr>busses = [], can_open = (\<lambda>_. True), control = (\<lambda>_ _. (- 110, \<lambda>_. 0)), claim_rc = 0,
       release_rc = 0, detach_rc = 0, attach_rc = 0\<rparr> (pc_init\<lparr>tflag := True\<rparr>) = Inr st' \<and>
    ups_events st' =
    [Print ''Test: '', Control (set_report_setup 0x15 [0x15, 0x01]),
     Print (line ''retrieving hid report failed''), Print (line (line ''OK'')), SleepSec 1]"
  using pc_test_unchecked [of "pc_init\<lparr>tflag := True\<rparr>"
      "\<lparr>busses = [], can_open = (\<lambda>_. True), control = (\<lambda>_ _. (- 110, \<lambda>_. 0)), claim_rc = 0,
       release_rc = 0, detach_rc = 0, attach_rc = 0\<rparr>"
      "\<lparr>DEBUG = False, HAS_DETACH = True, HAS_ATTACH = False, PRINT_STATUS = False, ups_long_bits = 32\<rparr>"]
  by (simp add: pc_init_def)

end
