(* ===== verification/UpsOut.thy ===== *)
theory UpsOut
  imports UpsProps
begin

text \<open>
  The text the monitors print for a device that answers: the format for shell scripts, line by line,
  as a function of the bytes the device sent.
\<close>

unbundle bit_operations_syntax

section \<open>Standard output\<close>

definition stdout_text :: "ups_event list \<Rightarrow> string" where
  "stdout_text es = concat (map (\<lambda>e. case e of Print s \<Rightarrow> s | _ \<Rightarrow> []) es)"

definition shown :: "ups_state \<Rightarrow> string" where
  "shown st = stdout_text (ups_events st)"

lemma output_simps [simp]:
  "shown (log_event e st) = shown st @ (case e of Print s \<Rightarrow> s | _ \<Rightarrow> [])"
  "shown (printf s st) = shown st @ s" "shown (st\<lparr>transfers := n\<rparr>) = shown st"
  "shown (st\<lparr>status := v\<rparr>) = shown st" "shown (print_lines ss st) = shown st @ concat ss"
  by (simp_all add: shown_def stdout_text_def printf_def comp_def)

lemma printf_frame [simp]:
  "transfers (printf s st) = transfers st" "status (printf s st) = status st"
  "hflag (printf s st) = hflag st" "skip (printf s st) = skip st"
  by (simp_all add: printf_def)

section \<open>A device that answers\<close>

text \<open>A build without debug output and a world in which every control transfer succeeds.\<close>

definition healthy :: "ups_build \<Rightarrow> usb_world \<Rightarrow> bool" where
  "healthy b w \<longleftrightarrow> \<not> DEBUG b \<and> (\<forall>n s. 0 \<le> fst (control w n s)) \<and> 0 \<le> claim_rc w \<and> 0 \<le> release_rc w"

definition tick :: "byte \<Rightarrow> ups_state \<Rightarrow> ups_state" where
  "tick report st =
     (log_event (Control (get_report_setup report)) st)\<lparr>transfers := Suc (transfers st)\<rparr>"

lemma tick_simps [simp]:
  "shown (tick r st) = shown st" "transfers (tick r st) = Suc (transfers st)"
  "settings (tick r st) = settings st"
  by (simp_all add: tick_def)

text \<open>The byte behind the report number in the \<open>n\<close>-th answer.\<close>

definition value_byte :: "usb_world \<Rightarrow> nat \<Rightarrow> byte \<Rightarrow> byte" where
  "value_byte w n report = snd (answer w n report) 1"

lemma healthy_pc_reading:
  assumes "healthy b w"
  shows "pc_r16 b w r st = (uint (value_byte w (transfers st) r), tick r st)"
    and "pc_r8 b w r st = (uint (value_byte w (transfers st) r), tick r st)"
proof -
  obtain ret tmp where c: "control w (transfers st) (get_report_setup r) = (ret, tmp)" "\<not> ret < 0"
    using assms by (cases "control w (transfers st) (get_report_setup r)")
      (metis fst_conv healthy_def not_less)
  have d: "\<not> DEBUG b" using assms by (simp add: healthy_def)
  show "pc_r16 b w r st = (uint (value_byte w (transfers st) r), tick r st)"
    and "pc_r8 b w r st = (uint (value_byte w (transfers st) r), tick r st)"
    by (simp_all add: pc_r16_def pc_r8_def pc_get_report16_def pc_get_report8_def control_msg_def
        value_byte_def answer_def tick_def pc_debug_def uint_byte_pair c d)
qed

lemma healthy_pc_status:
  assumes "healthy b w"
  shows "pc_read_status b w st = (tick 20 st)\<lparr>status := ucast (value_byte w (transfers st) 20)\<rparr>"
proof -
  obtain ret tmp where c: "control w (transfers st) (get_report_setup 20) = (ret, tmp)" "\<not> ret < 0"
    using assms by (cases "control w (transfers st) (get_report_setup 20)")
      (metis fst_conv healthy_def not_less)
  have d: "\<not> DEBUG b" using assms by (simp add: healthy_def)
  show ?thesis
    by (simp add: pc_read_status_def pc_get_report16_def control_msg_def
        value_byte_def answer_def tick_def pc_debug_def c d)
qed

definition decimal :: "string \<Rightarrow> int \<Rightarrow> string" where
  "decimal label v = line (label @ show_int v)"

lemma pc_bash_output:
  assumes "healthy b w"
  shows "shown (pc_bash b w st) = shown st @
    (let n = transfers st; v = (\<lambda>k r. uint (value_byte w (n + k) r)); flags = value_byte w (n + 6) 20 in
     decimal ''voltage_in='' (v 0 29) @ decimal ''frequency_in='' (v 1 30) @
     decimal ''voltage_out='' (v 2 33) @ decimal ''frequency_out='' (v 3 34) @
     decimal ''load='' (v 4 31) @ decimal ''capacity='' (v 5 24) @
     concat (map (\<lambda>j. decimal (pc_status_bash_str ! j) (if bit flags j then 1 else 0)) [0..<12]))"
proof -
  have flag: "pc_flag (ucast x) j \<longleftrightarrow> bit x j" for x :: byte and j
    by (auto simp: flag_bit bit_simps dest: bit_imp_le_length)
  show ?thesis
    unfolding pc_bash_def
    by (simp add: Let_def print_table.simps(2) healthy_pc_reading [OF assms] healthy_pc_status [OF assms]
        decimal_def flag eval_nat_numeral del: upt.simps)
qed


section \<open>A whole run with -s\<close>

lemma healthy_release: "healthy b w \<Longrightarrow> shown (fst (pc_release b w r st)) = shown st"
  by (simp add: healthy_def pc_release_def Let_def)

lemma healthy_start:
  assumes "healthy b w"
  shows "shown (claimed b w st) = shown st" "\<not> descriptor_ret w st < 0"
    and "shown (described b w st) = shown st" "transfers (described b w st) = Suc (transfers st)"
    and "settings (described b w st) = settings st"
proof -
  obtain ret tmp where c: "control w (transfers st) hid_descriptor_setup = (ret, tmp)" "\<not> ret < 0"
    using assms by (cases "control w (transfers st) hid_descriptor_setup")
      (metis fst_conv healthy_def not_less)
  with assms show "shown (claimed b w st) = shown st" "\<not> descriptor_ret w st < 0"
    "shown (described b w st) = shown st" "transfers (described b w st) = Suc (transfers st)"
    "settings (described b w st) = settings st"
    by (simp_all add: healthy_def claimed_def described_def descriptor_ret_def control_msg_def Let_def)
qed

lemma pc_session_shown:
  assumes "healthy b w" and "\<not> tflag st" and "\<not> bflag st"
  shows "shown (fst (pc_session b w st)) = shown (pc_report b w (described b w (claimed b w st)))"
proof -
  let ?d = "described b w (claimed b w st)"
  have "settings ?d = settings st"
    using healthy_start(5) [OF assms(1), of "claimed b w st"] by (simp add: claimed_facts)
  with assms(2,3) have "\<not> tflag ?d" "\<not> bflag ?d" by (auto dest: settings_eqD)
  then show ?thesis
    using healthy_start(2) [OF assms(1), of st] healthy_release [OF assms(1)]
    by (simp add: pc_session_eq pc.session_unfold pc_do_test_def pc_do_boff_def)
qed

lemma pc_parse_s: "pc_parse b [''-s''] = pc_init\<lparr>hflag := 2\<rparr>"
  by (simp add: pc_parse_def pc_optstring_def getopt_all_def arg_class_def opt_kind_def pc_option_def)

text \<open>The answers of a device in the order \<open>-s\<close> asks for them, behind the descriptor.\<close>

definition pc_bash_text :: "usb_world \<Rightarrow> string" where
  "pc_bash_text w =
     (let v = (\<lambda>k r. uint (value_byte w k r)); flags = value_byte w 7 20 in
      decimal ''voltage_in='' (v 1 29) @ decimal ''frequency_in='' (v 2 30) @
      decimal ''voltage_out='' (v 3 33) @ decimal ''frequency_out='' (v 4 34) @
      decimal ''load='' (v 5 31) @ decimal ''capacity='' (v 6 24) @
      concat (map (\<lambda>j. decimal (pc_status_bash_str ! j) (if bit flags j then 1 else 0)) [0..<12]))"

text \<open>C26: the run with \<open>-s\<close> on a device that answers prints exactly one assignment per line: the six
  measured values in decimal and the twelve flags as 0 or 1, each from the report it is named
  after, and exits with status 0.\<close>

theorem pc_main_bash:
  assumes "healthy b w" and "pc_scan_busses (pc_parse b [''-s'']) (busses w) = Some d" and "can_open w d"
  shows "shown (fst (pc_main b w [''-s''])) = pc_bash_text w \<and> snd (pc_main b w [''-s'']) = 0"
proof -
  let ?st = "log_event (OpenDevice d) (pc_init\<lparr>hflag := 2\<rparr>)"
  let ?d = "described b w (claimed b w ?st)"
  have flags: "\<not> tflag ?st" "\<not> bflag ?st" "\<not> help_flag ?st" "hflag ?st = 2" "transfers ?st = 0"
    "shown ?st = []"
    by (simp_all add: pc_init_def shown_def stdout_text_def)
  have main: "pc_main b w [''-s''] = pc_session b w ?st"
    using assms(2,3) flags(3) by (simp add: pc_main_def pc_parse_s pc_usb_open_imd_def)
  have "settings ?d = settings ?st"
    using healthy_start(5) [OF assms(1), of "claimed b w ?st"] by (simp add: claimed_facts)
  with flags have "hflag ?d = 2" by (auto dest: settings_eqD)
  moreover have "transfers ?d = 1" "shown ?d = []"
    using healthy_start(1,3,4) [OF assms(1)] flags(5,6) claimed_facts(3) [of b w ?st] by simp_all
  ultimately have "shown (fst (pc_main b w [''-s''])) = pc_bash_text w"
    unfolding main pc_session_shown [OF assms(1) flags(1,2)]
    by (simp add: pc_report_def pc_bash_output [OF assms(1)] pc_bash_text_def Let_def
        eval_nat_numeral del: upt.simps)
  moreover have "snd (pc_main b w [''-s'']) = 0"
    unfolding main pc_session_eq
    by (rule pc.session_run [of b w b w ?st])
      (use assms(1) healthy_start(2) [OF assms(1), of ?st] in \<open>simp add: healthy_def\<close>)
  ultimately show ?thesis by blast
qed


definition demo_build :: ups_build where
  "demo_build = \<lparr>DEBUG = False, HAS_DETACH = True, HAS_ATTACH = False, PRINT_STATUS = True,
     ups_long_bits = 32\<rparr>"

definition demo_world :: "usb_device \<Rightarrow> usb_world" where
  "demo_world d = \<lparr>busses = [[], [d]], can_open = (\<lambda>_. True), control = (\<lambda>_ _. (3, \<lambda>i. of_nat i)),
     claim_rc = 0, release_rc = 0, detach_rc = 0, attach_rc = 0\<rparr>"

lemma healthy_demo: "healthy demo_build (demo_world d)"
  by (simp add: healthy_def demo_build_def demo_world_def)

theorem pc_main_bash_witness:
  "let w = demo_world \<lparr>idVendor = 0x0d9f, idProduct = 0x00a4\<rparr> in
    shown (fst (pc_main demo_build w [''-s''])) = pc_bash_text w \<and>
    snd (pc_main demo_build w [''-s'']) = 0"
  unfolding Let_def
  by (rule pc_main_bash [OF healthy_demo])
    (simp_all add: pc_parse_s pc_init_def demo_world_def)

section \<open>The APC monitor\<close>

definition value_word :: "usb_world \<Rightarrow> nat \<Rightarrow> byte \<Rightarrow> int" where
  "value_word w n report =
     (case answer w n report of
        (ret, tmp) \<Rightarrow> if ret = 2 then uint (tmp 1) else if ret = 3 then uint (tmp 1) + 256 * uint (tmp 2) else 0)"

lemma healthy_apc_report:
  assumes "healthy b w"
  shows "\<exists>x. apc_get_report16 b w r st = (x, tick r st) \<and> uint x = value_word w (transfers st) r"
proof -
  obtain ret tmp where c: "control w (transfers st) (get_report_setup r) = (ret, tmp)" "\<not> ret < 0"
    using assms by (cases "control w (transfers st) (get_report_setup r)")
      (metis fst_conv healthy_def not_less)
  have d: "\<not> DEBUG b" using assms by (simp add: healthy_def)
  show ?thesis
    by (simp add: apc_get_report16_def control_msg_def value_word_def answer_def tick_def apc_debug_def
        uint_byte_pair c d)
qed

lemma healthy_apc_reading:
  assumes "healthy b w"
  shows "apc_r16 b w r m st = (value_word w (transfers st) r div m, tick r st)"
  using healthy_apc_report [OF assms, of r st] by (auto simp: apc_r16_def)

lemma healthy_apc_status:
  assumes "healthy b w"
  shows "\<exists>x. apc_read_status b w st = (tick 7 st)\<lparr>status := x\<rparr> \<and> uint x = value_word w (transfers st) 7"
  using healthy_apc_report [OF assms, of 7 st] by (auto simp: apc_read_status_def)

lemma healthy_apc_dummy:
  assumes "healthy b w" shows "shown (apc_dummy_reads b w n st) = shown st"
proof (induction n arbitrary: st)
  case (Suc n)
  obtain x where "apc_get_report16 b w 32 st = (x, tick 32 st)"
    using healthy_apc_report [OF assms, of 32 st] by blast
  with Suc show ?case by simp
qed simp

definition apc_bash_text :: "ups_build \<Rightarrow> usb_world \<Rightarrow> nat \<Rightarrow> string" where
  "apc_bash_text b w n =
     (let v = (\<lambda>k r. value_word w (n + k) r) in
      decimal ''voltage_in='' (v 0 32 div 10) @ decimal ''voltage_out='' (v 1 43 div 10) @
      decimal ''frequency_out='' (v 2 42 div 100) @ decimal ''load='' (v 3 44 div 10) @
      decimal ''capacity='' (v 4 24 div 10) @ decimal ''run_time_to_empty='' (v 5 25) @
      (if PRINT_STATUS b then concat (map (\<lambda>j. decimal (apc_status_bash_str ! j)
         (if bit (v 6 7) j then 1 else 0)) [0..<12]) else []))"

lemma apc_bash_output:
  assumes "healthy b w"
  shows "shown (apc_bash b w st) = shown st @ apc_bash_text b w (transfers st)"
proof -
  have flag: "apc_flag x j \<longleftrightarrow> bit (uint x) j" if "j < 12" for x :: u16 and j
    using that by (simp add: apc_flag_eq flag_bit bit_uint_iff)
  let ?n = "transfers st"
  let ?t = "print_table
      [(apc_r16 b w 32 10, \<lambda>v. line (''voltage_in='' @ show_int v)),
       (apc_r16 b w 43 10, \<lambda>v. line (''voltage_out='' @ show_int v)),
       (apc_r16 b w 42 100, \<lambda>v. line (''frequency_out='' @ show_int v)),
       (apc_r16 b w 44 10, \<lambda>v. line (''load='' @ show_int v)),
       (apc_r16 b w 24 10, \<lambda>v. line (''capacity='' @ show_int v)),
       (apc_r16 b w 25 1, \<lambda>v. line (''run_time_to_empty='' @ show_int v))] st"
  have t: "shown ?t = shown st @ decimal ''voltage_in='' (value_word w (?n + 0) 32 div 10) @
      decimal ''voltage_out='' (value_word w (?n + 1) 43 div 10) @
      decimal ''frequency_out='' (value_word w (?n + 2) 42 div 100) @
      decimal ''load='' (value_word w (?n + 3) 44 div 10) @
      decimal ''capacity='' (value_word w (?n + 4) 24 div 10) @
      decimal ''run_time_to_empty='' (value_word w (?n + 5) 25)" "transfers ?t = ?n + 6"
    by (simp_all add: print_table.simps(2) healthy_apc_reading [OF assms] decimal_def eval_nat_numeral)
  define T where "T = ?t"
  note t = t [folded T_def]
  obtain x where x: "apc_read_status b w T = (tick 7 T)\<lparr>status := x\<rparr>" "uint x = value_word w (?n + 6) 7"
    using healthy_apc_status [OF assms, of T] t(2) by auto
  have flags: "map (\<lambda>j. line (apc_status_bash_str ! j @ show_int (if apc_flag x j then 1 else 0))) [0..<12]
      = map (\<lambda>j. decimal (apc_status_bash_str ! j) (if bit (value_word w (?n + 6) 7) j then 1 else 0)) [0..<12]"
    using x(2) by (intro map_cong refl) (simp add: decimal_def flag)
  have "apc_bash b w st = (if PRINT_STATUS b then print_lines (map (\<lambda>j. line (apc_status_bash_str ! j
      @ show_int (if apc_flag x j then 1 else 0))) [0..<12]) ((tick 7 T)\<lparr>status := x\<rparr>) else T)"
    unfolding apc_bash_def Let_def T_def [symmetric] x(1) by simp
  then show ?thesis unfolding flags by (simp add: t apc_bash_text_def del: upt.simps)
qed

lemma apc_session_shown:
  assumes "healthy b w" and "\<not> tflag st" and "\<not> bflag st"
  shows "shown (fst (apc_session b w st)) =
    shown (apc_report b w (apc_dummy_reads b w 8 (described b w (claimed b w st))))"
proof -
  let ?d = "apc_dummy_reads b w 8 (described b w (claimed b w st))"
  have "settings ?d = settings st"
    using healthy_start(5) [OF assms(1), of "claimed b w st"] apc_dummy_reads_frame(1) [of _ b w 8]
    by (simp add: claimed_facts adds_def)
  with assms(2,3) have "\<not> tflag ?d" "\<not> bflag ?d" by (auto dest: settings_eqD)
  then show ?thesis
    using healthy_start(2) [OF assms(1), of st] healthy_release [OF assms(1)]
    by (simp add: apc_session_eq apc.session_unfold apc_do_test_def apc_do_boff_def)
qed

lemma apc_parse_s: "apc_parse b [''-s''] = apc_init\<lparr>hflag := 2\<rparr>"
  by (simp add: apc_parse_def apc_optstring_def getopt_all_def arg_class_def opt_kind_def apc_option_def)

text \<open>C30: the run of the APC monitor with \<open>-s\<close> on a device that answers: six values, scaled as the
  report descriptor asks for, read after the eight readings that are thrown away and shown nowhere;
  the twelve flags of the status word follow when the build prints them; the status is 0.\<close>

theorem apc_main_bash:
  assumes "healthy b w" and "apc_scan_busses (apc_parse b [''-s'']) (busses w) = Some d" and "can_open w d"
  shows "shown (fst (apc_main b w [''-s''])) = apc_bash_text b w 9 \<and> snd (apc_main b w [''-s'']) = 0"
proof -
  let ?st = "log_event (OpenDevice d) (apc_init\<lparr>hflag := 2\<rparr>)"
  let ?d = "apc_dummy_reads b w 8 (described b w (claimed b w ?st))"
  have flags: "\<not> tflag ?st" "\<not> bflag ?st" "\<not> help_flag ?st" "hflag ?st = 2" "transfers ?st = 0"
    "shown ?st = []"
    by (simp_all add: apc_init_def shown_def stdout_text_def)
  have main: "apc_main b w [''-s''] = apc_session b w ?st"
    using assms(2,3) flags(3) by (simp add: apc_main_def apc_parse_s apc_usb_open_imd_def)
  have "settings ?d = settings ?st"
    using healthy_start(5) [OF assms(1), of "claimed b w ?st"] apc_dummy_reads_frame(1) [of _ b w 8]
    by (simp add: claimed_facts adds_def)
  with flags have "hflag ?d = 2" by (auto dest: settings_eqD)
  moreover have "transfers ?d = 9" "shown ?d = []"
    using healthy_start(1,3,4) [OF assms(1)] flags(5,6) claimed_facts(3) [of b w ?st]
      apc_dummy_reads_frame(2) [of b w 8] healthy_apc_dummy [OF assms(1), of 8] by simp_all
  ultimately have "shown (fst (apc_main b w [''-s''])) = apc_bash_text b w 9"
    unfolding main apc_session_shown [OF assms(1) flags(1,2)]
    by (simp add: apc_report_def apc_bash_output [OF assms(1)])
  moreover have "snd (apc_main b w [''-s'']) = 0"
    unfolding main apc_session_eq
    by (rule apc.session_run [of b w b w ?st])
      (use assms(1) healthy_start(2) [OF assms(1), of ?st] in \<open>simp add: healthy_def\<close>)
  ultimately show ?thesis by blast
qed

theorem apc_main_bash_witness:
  "let w = demo_world \<lparr>idVendor = 0x051d, idProduct = 0x0002\<rparr> in
    shown (fst (apc_main demo_build w [''-s''])) = apc_bash_text demo_build w 9 \<and>
    snd (apc_main demo_build w [''-s'']) = 0"
  unfolding Let_def
  by (rule apc_main_bash [OF healthy_demo])
    (simp_all add: apc_parse_s apc_init_def demo_world_def)

end
