(* ===== verification/SdState.thy ===== *)
theory SdState
  imports CNum "HOL-Library.Monad_Syntax"
begin

text \<open>
  The daemon \<open>sd-idle/src/sd-idle-2.6.c\<close>: its global state, the world it runs in, logging, the check
  of the kernel version and the command line. Names drop the leading underscore of the source and
  carry the prefix \<open>sd_\<close> where they would clash. An \<open>exit\<close> is an \<open>Inl\<close> with the state and the
  status.
\<close>

unbundle bit_operations_syntax

section \<open>Levels, events, world and state\<close>

datatype log_level = LOG_ERR | LOG_WARNING | LOG_INFO

text \<open>The numbers of \<open>syslog.h\<close>: a smaller number is more severe.\<close>

definition severity :: "log_level \<Rightarrow> nat" where
  "severity l = (case l of LOG_ERR \<Rightarrow> 3 | LOG_WARNING \<Rightarrow> 4 | LOG_INFO \<Rightarrow> 6)"

instantiation log_level :: linorder
begin

definition less_eq_log_level :: "log_level \<Rightarrow> log_level \<Rightarrow> bool" where
  "less_eq_log_level a b \<longleftrightarrow> severity a \<le> severity b"

definition less_log_level :: "log_level \<Rightarrow> log_level \<Rightarrow> bool" where
  "less_log_level a b \<longleftrightarrow> severity a < severity b"

instance
proof
  fix x y z :: log_level
  show "x < y \<longleftrightarrow> x \<le> y \<and> \<not> y \<le> x" by (auto simp: less_eq_log_level_def less_log_level_def)
  show "x \<le> x" by (simp add: less_eq_log_level_def)
  show "x \<le> z" if "x \<le> y" "y \<le> z" using that by (simp add: less_eq_log_level_def)
  show "x = y" if "x \<le> y" "y \<le> x"
    using that by (cases x; cases y) (simp_all add: less_eq_log_level_def severity_def)
  show "x \<le> y \<or> y \<le> x" by (auto simp: less_eq_log_level_def)
qed

end

text \<open>The fields of \<open>sg_io_hdr_t\<close> the program sets or reads; \<open>cmdp\<close> is the command block.\<close>

record sg_io_hdr =
  interface_id :: int
  dxfer_direction :: int
  cmd_len :: nat
  mx_sb_len :: nat
  cmdp :: "byte list"
  sg_status :: byte

datatype sd_event =
    Syslog log_level string | Stdout string | OpenLog string | Daemon
  | Open string | SgIo int sg_io_hdr | Close int | Sleep int

text \<open>
  The world, asked in sequence: the \<open>n\<close>-th answer of \<open>time\<close>, \<open>open\<close> and \<open>ioctl\<close> (its return value,
  the header and the sense buffer afterwards), the text and number of \<open>errno\<close>; the contents of
  \<open>/proc/diskstats\<close> in the \<open>r\<close>-th round; the release of the kernel; the width of \<open>long\<close>; and what
  is in the uninitialised buffer of \<open>_manage\<close>.
\<close>

record sd_world =
  clock :: "nat \<Rightarrow> int"
  open_fd :: "nat \<Rightarrow> string \<Rightarrow> int"
  sg_io :: "nat \<Rightarrow> sg_io_hdr \<Rightarrow> int \<times> sg_io_hdr \<times> (nat \<Rightarrow> char)"
  errno_text :: "nat \<Rightarrow> string"
  errno_number :: "nat \<Rightarrow> int"
  proc_diskstats :: "nat \<Rightarrow> string option"
  uts_release :: "string option"
  sd_long_bits :: nat
  uninit_line :: "nat \<Rightarrow> char"

record sd_state =
  log_stdout :: bool
  idletime :: int
  idletimes :: "int list"
  checktime :: int
  transtimes :: "int list"
  managing :: u32
  spinning :: u32
  diskstats :: "string list"
  calls :: nat
  sd_events :: "sd_event list"

definition IDLETIME_DEFAULT :: int where "IDLETIME_DEFAULT = 900"
definition IDLETIME_MIN :: int where "IDLETIME_MIN = 300"
definition CHECKTIME_DEFAULT :: int where "CHECKTIME_DEFAULT = 30"
definition CHECKTIME_MIN :: int where "CHECKTIME_MIN = 5"
definition TRANSTIME_BUF_SIZE :: nat where "TRANSTIME_BUF_SIZE = 128"
definition DISKSTATS_SIZE :: nat where "DISKSTATS_SIZE = 160"
definition LINE_SIZE :: nat where "LINE_SIZE = 256"

lemmas sd_constants = IDLETIME_DEFAULT_def IDLETIME_MIN_def CHECKTIME_DEFAULT_def CHECKTIME_MIN_def
  TRANSTIME_BUF_SIZE_def DISKSTATS_SIZE_def LINE_SIZE_def

definition sd_init :: sd_state where
  "sd_init =
     \<lparr>log_stdout = False, idletime = IDLETIME_DEFAULT, idletimes = replicate 26 0,
      checktime = CHECKTIME_DEFAULT, transtimes = replicate 26 0, managing = - 1, spinning = - 1,
      diskstats = replicate 26 [], calls = 0, sd_events = []\<rparr>"

section \<open>The bit macros\<close>

definition bit_clear :: "u32 \<Rightarrow> nat \<Rightarrow> u32" where
  "bit_clear bits b = bits AND NOT (push_bit b 1)"

definition bit_set :: "u32 \<Rightarrow> nat \<Rightarrow> u32" where
  "bit_set bits b = bits OR push_bit b 1"

definition is_bit_clear :: "u32 \<Rightarrow> nat \<Rightarrow> bool" where
  "is_bit_clear bits b \<longleftrightarrow> 0 = bits AND push_bit b 1"

definition is_bit_set :: "u32 \<Rightarrow> nat \<Rightarrow> bool" where
  "is_bit_set bits b \<longleftrightarrow> 0 \<noteq> bits AND push_bit b 1"

lemma bit_clear_bit [simp]: "b < 32 \<Longrightarrow> bit (bit_clear bits b) i \<longleftrightarrow> bit bits i \<and> i \<noteq> b"
  by (auto simp: bit_clear_def bit_simps dest: bit_imp_le_length)

lemma bit_set_bit [simp]: "b < 32 \<Longrightarrow> bit (bit_set bits b) i \<longleftrightarrow> bit bits i \<or> i = b"
  by (auto simp: bit_set_def bit_simps)

lemma is_bit_clear_bit: "b < 32 \<Longrightarrow> is_bit_clear bits b \<longleftrightarrow> \<not> bit bits b"
proof -
  have "bits AND push_bit b 1 = 0 \<longleftrightarrow> \<not> bit bits b"
    by (simp add: push_bit_eq_mult and_exp_eq_0_iff_not_bit)
  then show ?thesis by (auto simp: is_bit_clear_def)
qed

lemma is_bit_set_bit: "b < 32 \<Longrightarrow> is_bit_set bits b \<longleftrightarrow> bit bits b"
  using is_bit_clear_bit [of b bits] by (simp add: is_bit_set_def is_bit_clear_def)

section \<open>Logging\<close>

definition record_event :: "sd_event \<Rightarrow> sd_state \<Rightarrow> sd_state" where
  "record_event e st = st\<lparr>sd_events := sd_events st @ [e]\<rparr>"

definition sd_log :: "log_level \<Rightarrow> string \<Rightarrow> sd_state \<Rightarrow> sd_state" where
  "sd_log level msg st =
     (if log_stdout st then record_event (Stdout msg) st else record_event (Syslog level msg) st)"

lemma record_event_simps [simp]:
  "sd_events (record_event e st) = sd_events st @ [e]"
  "log_stdout (record_event e st) = log_stdout st" "idletime (record_event e st) = idletime st"
  "idletimes (record_event e st) = idletimes st" "checktime (record_event e st) = checktime st"
  "transtimes (record_event e st) = transtimes st" "managing (record_event e st) = managing st"
  "spinning (record_event e st) = spinning st" "diskstats (record_event e st) = diskstats st"
  "calls (record_event e st) = calls st"
  by (simp_all add: record_event_def)

lemma sd_log_simps [simp]:
  "log_stdout (sd_log l m st) = log_stdout st" "idletime (sd_log l m st) = idletime st"
  "idletimes (sd_log l m st) = idletimes st" "checktime (sd_log l m st) = checktime st"
  "transtimes (sd_log l m st) = transtimes st" "managing (sd_log l m st) = managing st"
  "spinning (sd_log l m st) = spinning st" "diskstats (sd_log l m st) = diskstats st"
  "calls (sd_log l m st) = calls st"
  by (simp_all add: sd_log_def)

section \<open>The kernel version\<close>

type_synonym 'a exits = "sd_state \<times> int + 'a"

text \<open>\<open>name.release [2]\<close> of the NUL-padded array.\<close>

definition check_linux_version :: "sd_world \<Rightarrow> sd_state \<Rightarrow> sd_state exits" where
  "check_linux_version w st =
     (case uts_release w of
        None \<Rightarrow>
          Inl (sd_log LOG_ERR (''Failure to get linux version number: '' @ errno_text w (calls st)) st, 1)
      | Some release \<Rightarrow>
          if (release @ replicate 3 NUL) ! 2 = CHR ''6'' then Inr st
          else Inl (sd_log LOG_ERR (''Wrong linux version: '' @ release @ ''; must be 2.6; exiting'') st, 1))"

section \<open>The command line\<close>

fun sd_log_all :: "string list \<Rightarrow> sd_state \<Rightarrow> sd_state" where
  "sd_log_all [] st = st"
| "sd_log_all (m # ms) st = sd_log_all ms (sd_log LOG_INFO m st)"

definition usage_lines :: "string \<Rightarrow> string list" where
  "usage_lines progname = map (\<lambda>s. s @ [newline])
     [''Usage: ( runs as a daemon )'',
      ''  '' @ progname @ '' [ -d devices ] [ -i idletime ] [ -c checktime ] [ -h --help ] [ -v --version ]'',
      ''    -d  [a-z]+   include where a => /dev/sda, b => /dev/sdb (default is all disks)'',
      ''       ![a-z]+   exclude'',
      ''    -i n         n seconds a disk must be idle to spin it down (default ''
        @ show_int IDLETIME_DEFAULT @ '', min '' @ show_int IDLETIME_MIN @ '')'',
      ''    -c n         n seconds to sleep between idle checks (default ''
        @ show_int CHECKTIME_DEFAULT @ '', min '' @ show_int CHECKTIME_MIN @ '')'',
      ''    -h --help    usage'',
      ''    -v --version version'',
      ''  for example:'',
      ''    '' @ progname @ ''        will manage all disks with default times'',
      ''    '' @ progname @ '' -d bc  will manage /dev/sdb, /dev/sdc with default times'',
      ''    '' @ progname @ '' -d !bc will manage all disks except /dev/sdb, /dev/sdc with default times'',
      ''    '' @ progname @ '' -i 600 will manage all disks spinning down after 600 seconds or 10 minutes'']"

definition sd_usage :: "string \<Rightarrow> int \<Rightarrow> sd_state \<Rightarrow> sd_state exits" where
  "sd_usage progname exit_status st =
     Inl (sd_log_all (usage_lines (basename progname)) st, exit_status)"

definition get_param :: "string list \<Rightarrow> nat \<Rightarrow> string \<Rightarrow> sd_state \<Rightarrow> string exits" where
  "get_param argv a option st =
     (if a < length argv then Inr (argv ! a)
      else Inl (sd_log LOG_ERR (''Missing parameter for option: '' @ option @ ''; exiting'') st, 1))"

text \<open>The loop of \<open>_set_disks\<close>; characters beyond ASCII are outside \<open>[a-z]\<close> signed or unsigned.\<close>

fun set_disk_chars :: "bool \<Rightarrow> string \<Rightarrow> sd_state \<Rightarrow> sd_state" where
  "set_disk_chars inc [] st = st"
| "set_disk_chars inc (c # disks) st =
     (if c < CHR ''a'' \<or> CHR ''z'' < c then
        set_disk_chars inc disks
          (sd_log LOG_WARNING (''Invalid disk: '' @ [c] @ ''; must be among [a-z]; ignoring'') st)
      else if inc then
        set_disk_chars inc disks (st\<lparr>managing := bit_set (managing st) (of_char c - 97)\<rparr>)
      else
        set_disk_chars inc disks (st\<lparr>managing := bit_clear (managing st) (of_char c - 97)\<rparr>))"

definition set_disks :: "string \<Rightarrow> sd_state \<Rightarrow> sd_state exits" where
  "set_disks disks st =
     (if disks = [] then Inr st
      else
        let st = (if hd disks = CHR ''!'' then set_disk_chars False (tl disks) st
                  else set_disk_chars True disks (st\<lparr>managing := 0\<rparr>))
        in if 0 = managing st
           then Inl (sd_log LOG_ERR ''No disks specified to be managed; exiting'' st, 1)
           else Inr st)"

definition set_idletime :: "nat \<Rightarrow> string \<Rightarrow> sd_state \<Rightarrow> sd_state" where
  "set_idletime lb arg st =
     (let (v, endp) = strtol lb 10 arg; st = st\<lparr>idletime := s32 v\<rparr>
      in if arg \<noteq> [] \<and> endp = [] then
           (if idletime st < IDLETIME_MIN then
              (sd_log LOG_WARNING (''IDLETIME set too small which is bad for disks: ''
                 @ show_int (idletime st) @ ''; setting to minimum '' @ show_int IDLETIME_MIN) st)
              \<lparr>idletime := IDLETIME_MIN\<rparr>
            else st)
         else (sd_log LOG_WARNING (''Invalid idletime: '' @ arg @ ''; using default ''
                 @ show_int IDLETIME_DEFAULT) st)\<lparr>idletime := IDLETIME_DEFAULT\<rparr>)"

definition set_checktime :: "nat \<Rightarrow> string \<Rightarrow> sd_state \<Rightarrow> sd_state" where
  "set_checktime lb arg st =
     (let (v, endp) = strtol lb 10 arg; st = st\<lparr>checktime := s32 v\<rparr>
      in if arg \<noteq> [] \<and> endp = [] then
           (if checktime st < CHECKTIME_MIN then
              (sd_log LOG_WARNING (''CHECKTIME set too small: ''
                 @ show_int (checktime st) @ ''; setting to minimum '' @ show_int CHECKTIME_MIN) st)
              \<lparr>checktime := CHECKTIME_MIN\<rparr>
            else st)
         else (sd_log LOG_WARNING (''Invalid checktime: '' @ arg @ ''; using default ''
                 @ show_int CHECKTIME_DEFAULT) st)\<lparr>checktime := CHECKTIME_DEFAULT\<rparr>)"

text \<open>The first loop of \<open>_parse_options\<close>: help and version anywhere on the command line.\<close>

fun scan_help :: "string \<Rightarrow> string list \<Rightarrow> sd_state \<Rightarrow> sd_state exits" where
  "scan_help argv0 [] st = Inr st"
| "scan_help argv0 (arg # args) st =
     (if ''-h'' = arg \<or> ''--help'' = arg then sd_usage argv0 0 (st\<lparr>log_stdout := True\<rparr>)
      else if ''-v'' = arg \<or> ''--version'' = arg then
        Inl (sd_log LOG_INFO (basename argv0 @ '' version 1.00'' @ [newline])
          (st\<lparr>log_stdout := True\<rparr>), 0)
      else scan_help argv0 args st)"

text \<open>The second loop, at index \<open>a\<close> of \<open>argv\<close>.\<close>

function scan_options :: "nat \<Rightarrow> string list \<Rightarrow> nat \<Rightarrow> sd_state \<Rightarrow> sd_state exits" where
  "scan_options lb argv a st =
     (if a < length argv then
        if ''-d'' = argv ! a then
          (case get_param argv (a + 1) ''-d'' st of
             Inl e \<Rightarrow> Inl e
           | Inr p \<Rightarrow> (case set_disks p st of Inl e \<Rightarrow> Inl e | Inr st \<Rightarrow> scan_options lb argv (a + 2) st))
        else if ''-i'' = argv ! a then
          (case get_param argv (a + 1) ''-i'' st of
             Inl e \<Rightarrow> Inl e
           | Inr p \<Rightarrow> scan_options lb argv (a + 2) (set_idletime lb p st))
        else if ''-c'' = argv ! a then
          (case get_param argv (a + 1) ''-c'' st of
             Inl e \<Rightarrow> Inl e
           | Inr p \<Rightarrow> scan_options lb argv (a + 2) (set_checktime lb p st))
        else
          sd_usage (argv ! 0) 1
            (sd_log LOG_ERR (''Unknown option: '' @ argv ! a @ ''; exiting'') st)
      else Inr st)"
  by pat_completeness auto
termination
  by (relation "measure (\<lambda>(lb, argv, a, st). length argv - a)") auto

declare scan_options.simps [simp del]

definition parse_options :: "nat \<Rightarrow> string list \<Rightarrow> sd_state \<Rightarrow> sd_state exits" where
  "parse_options lb argv st =
     (case scan_help (argv ! 0) (tl argv) st of
        Inl e \<Rightarrow> Inl e
      | Inr st \<Rightarrow> scan_options lb argv 1 st)"

end
