(* ===== verification/SdDisk.thy ===== *)
theory SdDisk
  imports SdState "HOL-Library.Signed_Division"
begin

text \<open>
  Stopping a disk, the messages about transitions, and what the daemon does with an idle and with an
  active disk (\<open>_disk_stop\<close>, \<open>_transition_message\<close>, \<open>_disk_idle\<close>, \<open>_disk_active\<close>). An access
  outside an array is \<open>None\<close>. A disk is its number, below 26.
\<close>

unbundle bit_operations_syntax

text \<open>\<open>'a' + disk\<close> as a character.\<close>

definition disk_letter :: "nat \<Rightarrow> char" where
  "disk_letter disk = char_of (97 + disk)"

definition device_name :: "nat \<Rightarrow> string" where
  "device_name disk = ''/dev/sd'' @ [disk_letter disk]"

section \<open>_disk_stop\<close>

text \<open>\<open>START_STOP\<close> is 0x1b, \<open>SG_DXFER_NONE\<close> is -1.\<close>

definition stop_header :: sg_io_hdr where
  "stop_header =
     \<lparr>interface_id = of_char (CHR ''S''), dxfer_direction = - 1, cmd_len = 6, mx_sb_len = 255,
      cmdp = [0x1b, 0, 0, 0, 0, 0], sg_status = 0\<rparr>"

text \<open>\<open>%s\<close> of the sense buffer: only defined when there is a NUL in it.\<close>

definition sense_string :: "(nat \<Rightarrow> char) \<Rightarrow> string option" where
  "sense_string sense =
     (let b = map sense [0..<255] in if terminated b 0 then Some (cstr b 0) else None)"

definition disk_stop :: "sd_world \<Rightarrow> nat \<Rightarrow> sd_state \<Rightarrow> sd_state option" where
  "disk_stop w disk st =
     (let device = device_name disk; fd = open_fd w (calls st) device;
          opening = calls st;
          st = (record_event (Open device) st)\<lparr>calls := Suc (calls st)\<rparr>
      in if fd < 0 then
           Some (sd_log LOG_WARNING (''Failure to open '' @ device @ '' for spinning down: ''
             @ errno_text w opening) st)
         else
           let (rc, hdr, sense) = sg_io w (calls st) stop_header;
               controlling = calls st;
               st = (record_event (SgIo fd stop_header) st)\<lparr>calls := Suc (calls st)\<rparr>
           in do {
             st \<leftarrow> (if rc < 0 then
                     map_option (\<lambda>s. sd_log LOG_WARNING (''Sense data: '' @ s)
                         (sd_log LOG_WARNING (''Failure to spin down '' @ device @ '': ''
                           @ errno_text w controlling) st))
                       (sense_string sense)
                   else Some st);
             let st = (if sg_status hdr \<noteq> 0 then
                     sd_log LOG_WARNING (''Non-zero status spinning down '' @ device @ '': ''
                       @ show_int (uint (sg_status hdr))) st
                   else st);
             Some (record_event (Close fd) st)
           })"

section \<open>_transition_message\<close>

text \<open>One of the four parts: printed when its number is not zero.\<close>

definition time_part :: "int \<Rightarrow> string \<Rightarrow> string" where
  "time_part n name = (if n \<noteq> 0 then show_int n @ name else [])"

definition interval_text :: "int \<Rightarrow> string" where
  "interval_text secs =
     (let days = secs sdiv 86400; secs = secs - days * 86400;
          hours = secs sdiv 3600; secs = secs - hours * 3600;
          mins = secs sdiv 60; secs = secs - mins * 60
      in time_part days '' days '' @ time_part hours '' hours '' @ time_part mins '' mins ''
         @ time_part secs '' secs '')"

text \<open>The message, if its buffer of \<open>TRANSTIME_BUF_SIZE\<close> characters holds it and its NUL.\<close>

definition transition_message ::
  "sd_world \<Rightarrow> nat \<Rightarrow> string \<Rightarrow> sd_state \<Rightarrow> (string \<times> sd_state) option" where
  "transition_message w disk direction st =
     (let buf = ''spinning '' @ direction @ '' '' @ device_name disk;
          since = transtimes st ! disk;
          now = clock w (calls st);
          st = st\<lparr>transtimes := (transtimes st)[disk := now], calls := Suc (calls st)\<rparr>;
          msg = (if 0 = since then buf else buf @ '' after '' @ interval_text (s32 (now - since)))
      in if length msg < TRANSTIME_BUF_SIZE then Some (msg, st) else None)"

section \<open>_disk_idle and _disk_active\<close>

definition disk_idle :: "sd_world \<Rightarrow> nat \<Rightarrow> sd_state \<Rightarrow> sd_state option" where
  "disk_idle w disk st =
     (let st = st\<lparr>idletimes := (idletimes st)[disk := s32 (idletimes st ! disk + checktime st)]\<rparr>
      in if is_bit_clear (spinning st) disk \<or> idletime st > idletimes st ! disk then Some st
         else do {
           (msg, st) \<leftarrow> transition_message w disk ''down'' st;
           st \<leftarrow> disk_stop w disk (sd_log LOG_INFO msg st);
           Some (st\<lparr>spinning := bit_clear (spinning st) disk\<rparr>)
         })"

text \<open>\<open>strcpy (_diskstats [disk], line)\<close>: the array has \<open>DISKSTATS_SIZE\<close> characters.\<close>

definition disk_active :: "sd_world \<Rightarrow> nat \<Rightarrow> string \<Rightarrow> sd_state \<Rightarrow> sd_state option" where
  "disk_active w disk line st =
     do {
       st \<leftarrow> (if is_bit_clear (spinning st) disk then do {
               (msg, st) \<leftarrow> transition_message w disk ''up'' st;
               let st = sd_log LOG_INFO msg st;
               Some (st\<lparr>spinning := bit_set (spinning st) disk\<rparr>)
             } else Some st);
       let st = st\<lparr>idletimes := (idletimes st)[disk := 0]\<rparr>;
       if length line < DISKSTATS_SIZE
       then Some (st\<lparr>diskstats := (diskstats st)[disk := line]\<rparr>) else None
     }"

section \<open>The message: its value and its length\<close>

text \<open>Division of C: truncated towards zero.\<close>

lemma abs_sdiv: "0 < d \<Longrightarrow> \<bar>(x :: int) sdiv d\<bar> = \<bar>x\<bar> div d"
  by (cases "x = 0") (simp_all add: signed_divide_int_def abs_mult pos_imp_zdiv_nonneg_iff)

lemma nonneg_sdiv: "0 \<le> x \<Longrightarrow> 0 < d \<Longrightarrow> (x :: int) sdiv d = x div d"
  by (cases "x = 0") (simp_all add: signed_divide_int_def)

lemma abs_smod: "0 < d \<Longrightarrow> \<bar>(x :: int) smod d\<bar> < d"
  using smod_int_range [of d x] by auto

lemma interval_text_smod:
  "interval_text secs =
     time_part (secs sdiv 86400) '' days '' @ time_part (secs smod 86400 sdiv 3600) '' hours '' @
     time_part (secs smod 86400 smod 3600 sdiv 60) '' mins '' @
     time_part (secs smod 86400 smod 3600 smod 60) '' secs ''"
  by (simp add: interval_text_def Let_def minus_sdiv_mult_eq_smod)

text \<open>A number of seconds of either sign is printed as its parts, with that sign.\<close>

lemma interval_text_parts:
  assumes "0 \<le> d" and "0 \<le> h" "h < 24" and "0 \<le> m" "m < 60" and "0 \<le> s" "s < 60" and "\<sigma> = 1 \<or> \<sigma> = - 1"
  shows "interval_text (\<sigma> * (d * 86400 + h * 3600 + m * 60 + s)) =
    time_part (\<sigma> * d) '' days '' @ time_part (\<sigma> * h) '' hours '' @
    time_part (\<sigma> * m) '' mins '' @ time_part (\<sigma> * s) '' secs ''"
proof -
  let ?x = "d * 86400 + h * 3600 + m * 60 + s"
  have split: "(q * k + r) sdiv k = q \<and> (q * k + r) smod k = r"
    if "0 \<le> q" "0 \<le> r" "r < k" for q k r :: int
  proof -
    have "0 \<le> q * k + r" "0 < k" using that by (simp_all add: mult_nonneg_nonneg)
    then have "(q * k + r) sdiv k = (q * k + r) div k" "(q * k + r) smod k = (q * k + r) mod k"
      by (simp_all add: nonneg_sdiv smod_mod_positive)
    with that show ?thesis by (simp add: div_pos_pos_trivial mod_pos_pos_trivial)
  qed
  have "?x sdiv 86400 = d \<and> ?x smod 86400 = h * 3600 + m * 60 + s"
    using assms split [of d "h * 3600 + m * 60 + s" 86400] by (simp add: add.assoc)
  moreover have "(h * 3600 + m * 60 + s) sdiv 3600 = h \<and> (h * 3600 + m * 60 + s) smod 3600 = m * 60 + s"
    using assms split [of h "m * 60 + s" 3600] by (simp add: add.assoc)
  moreover have "(m * 60 + s) sdiv 60 = m \<and> (m * 60 + s) smod 60 = s"
    using assms by (intro split)
  moreover note assms(8)
  ultimately show ?thesis
    by (elim conjE disjE)
      (simp_all only: interval_text_smod mult_1 mult_minus1 minus_sdiv_eq minus_smod_eq)
qed

lemma length_time_part: "\<bar>n\<bar> < 10 ^ Suc k \<Longrightarrow> length (time_part n name) \<le> Suc (Suc k) + length name"
  using length_show_int [of n k] by (simp add: time_part_def)

lemma length_interval_text: "in_s32 secs \<Longrightarrow> length (interval_text secs) \<le> 45"
proof -
  assume "in_s32 secs"
  then have "\<bar>secs\<bar> div 86400 \<le> 2147483648 div 86400"
    by (intro zdiv_mono1) (auto dest: in_s32D)
  then have "\<bar>secs sdiv 86400\<bar> < 10 ^ Suc 4" by (simp add: abs_sdiv)
  from length_time_part [OF this, of "'' days ''"]
  have 1: "length (time_part (secs sdiv 86400) '' days '') \<le> 12" by simp
  have small: "length (time_part (x smod d sdiv e) n) \<le> 3 + length n"
    if "0 < d" "0 < e" "(d - 1) div e < 100" for x d e :: int and n
  proof -
    have "\<bar>x smod d\<bar> div e \<le> (d - 1) div e"
      using abs_smod [OF that(1), of x] that(2) by (intro zdiv_mono1) auto
    with that have "\<bar>x smod d sdiv e\<bar> < 10 ^ Suc 1" by (simp add: abs_sdiv)
    from length_time_part [OF this, of n] show ?thesis by simp
  qed
  have "length (time_part (secs smod 86400 sdiv 3600) '' hours '') \<le> 10"
    "length (time_part (secs smod 86400 smod 3600 sdiv 60) '' mins '') \<le> 9"
    using small [of 86400 3600 secs "'' hours ''"] small [of 3600 60 "secs smod 86400" "'' mins ''"]
    by simp_all
  moreover have "length (time_part (secs smod 86400 smod 3600 smod 60) '' secs '') \<le> 9"
    using small [of 60 1 "secs smod 86400 smod 3600" "'' secs ''"] by simp
  ultimately show ?thesis using 1 by (simp add: interval_text_smod)
qed

text \<open>The message always fits its buffer.\<close>

lemma transition_message_fits:
  assumes "length direction \<le> 4"
  shows "\<exists>msg. transition_message w disk direction st = Some (msg,
    st\<lparr>transtimes := (transtimes st)[disk := clock w (calls st)], calls := Suc (calls st)\<rparr>) \<and>
    length msg < TRANSTIME_BUF_SIZE"
proof -
  have "length (interval_text (s32 x)) \<le> 45" for x by (rule length_interval_text) simp
  from this [of "clock w (calls st) - transtimes st ! disk"] assms show ?thesis
    by (auto simp: transition_message_def Let_def device_name_def TRANSTIME_BUF_SIZE_def)
qed

end
