(* ===== verification/SdManage.thy ===== *)
theory SdManage
  imports SdDisk
begin

text \<open>
  Reading \<open>/proc/diskstats\<close>: \<open>_manage_diskstats_line\<close> on the line buffer of \<open>_manage\<close>, the loop over
  the lines of one reading, the endless loop of \<open>_manage\<close> (run for a number of rounds, and as a step
  relation on the states between rounds), and \<open>main\<close>.
\<close>

unbundle bit_operations_syntax

section \<open>Scanning the line buffer\<close>

text \<open>
  \<open>strchr (buf + i, c)\<close> on the buffer: \<open>None\<close> when the scan leaves it, \<open>Some None\<close> for NULL. The scan
  may start behind the NUL of the line.
\<close>

function strchr_buf :: "string \<Rightarrow> nat \<Rightarrow> char \<Rightarrow> nat option option" where
  "strchr_buf buf i c =
     (if i < length buf then
        if buf ! i = c then Some (Some i)
        else if buf ! i = NUL then Some None
        else strchr_buf buf (Suc i) c
      else None)"
  by pat_completeness auto
termination
  by (relation "measure (\<lambda>(buf, i, c). length buf - i)") auto

declare strchr_buf.simps [simp del]

text \<open>\<open>for (i = 0, io = line; (i < 8) && (NULL != (io = strchr (++io, ' '))); i++);\<close>\<close>

fun find_io :: "string \<Rightarrow> nat \<Rightarrow> nat \<Rightarrow> nat option option" where
  "find_io buf io 0 = Some (Some io)"
| "find_io buf io (Suc i) =
     (case strchr_buf buf (Suc io) CHR '' '' of
        None \<Rightarrow> None
      | Some None \<Rightarrow> Some None
      | Some (Some io') \<Rightarrow> find_io buf io' i)"

section \<open>_manage_diskstats_line\<close>

text \<open>The line as it is once the disk \<open>disk\<close> is known to be managed; \<open>line\<close> is the offset \<open>sd + 5\<close>.\<close>

definition manage_disk :: "sd_world \<Rightarrow> string \<Rightarrow> nat \<Rightarrow> nat \<Rightarrow> sd_state \<Rightarrow> sd_state option" where
  "manage_disk w buf line disk st =
     (case find_io buf line 8 of
        None \<Rightarrow> None
      | Some None \<Rightarrow>
          Some (sd_log LOG_WARNING (''Missing I/O in progress stat for device: sd''
            @ [disk_letter disk]) st)
      | Some (Some io) \<Rightarrow> do {
          c \<leftarrow> read_at buf (Suc io);
          if c = CHR ''0'' \<and> diskstats st ! disk = cstr buf line
          then disk_idle w disk st
          else disk_active w disk (cstr buf line) st
        })"

definition manage_diskstats_line :: "sd_world \<Rightarrow> string \<Rightarrow> sd_state \<Rightarrow> sd_state option" where
  "manage_diskstats_line w buf st =
     (let s = cstr buf 0
      in case strstr s '' sd'' of
           None \<Rightarrow> Some st
         | Some sd \<Rightarrow> do {
             c4 \<leftarrow> read_at buf (sd + 4);
             if c4 \<noteq> CHR '' '' then Some st
             else do {
               c3 \<leftarrow> read_at buf (sd + 3);
               if c3 < CHR ''a'' \<or> CHR ''z'' < c3 then Some st
               else
                 let disk = of_char c3 - 97
                 in if is_bit_clear (managing st) disk then Some st
                    else if length s \<ge> DISKSTATS_SIZE then
                      Some (sd_log LOG_WARNING (''/proc/diskstats line too long: '' @ s @ ''; ignoring'') st)
                    else manage_disk w buf (sd + 5) disk st
             }
           })"

section \<open>_manage\<close>

interpretation sd_in: line_reader "fgets LINE_SIZE"
  by (rule line_reader_fgets) (simp add: LINE_SIZE_def)

text \<open>\<open>while (NULL != fgets (diskstats, sizeof (diskstats), proc_diskstats))\<close>.\<close>

function manage_lines :: "sd_world \<Rightarrow> string \<Rightarrow> string \<Rightarrow> sd_state \<Rightarrow> (string \<times> sd_state) option" where
  "manage_lines w contents buf st =
     (case fgets_buf LINE_SIZE buf contents of
        None \<Rightarrow> Some (buf, st)
      | Some (b, rest) \<Rightarrow>
          (case manage_diskstats_line w b st of
             None \<Rightarrow> None
           | Some st' \<Rightarrow> manage_lines w rest b st'))"
  by pat_completeness auto
termination
  by (relation "measure (\<lambda>(w, contents, buf, st). length contents)")
    (auto elim!: fgets_buf_SomeE dest: sd_in.shorter)

declare manage_lines.simps [simp del]

text \<open>One iteration of \<open>for (; ; )\<close>, the \<open>r\<close>-th: the exit, or buffer and state after the sleep.\<close>

definition manage_round ::
  "sd_world \<Rightarrow> nat \<Rightarrow> string \<times> sd_state \<Rightarrow> (string \<times> sd_state) exits option" where
  "manage_round w r s =
     (case s of (buf, st) \<Rightarrow>
        (case proc_diskstats w r of
           None \<Rightarrow>
             Some (Inl (sd_log LOG_ERR (''Failure to open /proc/diskstats: ''
               @ show_int (errno_number w (calls st)) @ '' - '' @ errno_text w (calls st)) st, 1))
         | Some contents \<Rightarrow>
             (case manage_lines w contents buf st of
                None \<Rightarrow> None
              | Some (b, st') \<Rightarrow> Some (Inr (b, record_event (Sleep (checktime st')) st')))))"

text \<open>The first \<open>n\<close> iterations, from the \<open>r\<close>-th on.\<close>

fun manage_rounds ::
  "sd_world \<Rightarrow> nat \<Rightarrow> nat \<Rightarrow> string \<times> sd_state \<Rightarrow> (string \<times> sd_state) exits option" where
  "manage_rounds w r 0 s = Some (Inr s)"
| "manage_rounds w r (Suc n) s =
     (case manage_round w r s of
        None \<Rightarrow> None
      | Some (Inl e) \<Rightarrow> Some (Inl e)
      | Some (Inr s') \<Rightarrow> manage_rounds w (Suc r) n s')"

text \<open>The same loop as a step relation on (round, buffer, state).\<close>

inductive sd_step :: "sd_world \<Rightarrow> nat \<times> string \<times> sd_state \<Rightarrow> nat \<times> string \<times> sd_state \<Rightarrow> bool"
  for w :: sd_world where
  round: "manage_round w r (buf, st) = Some (Inr (buf', st')) \<Longrightarrow>
    sd_step w (r, buf, st) (Suc r, buf', st')"

inductive_cases sd_stepE: "sd_step w (r, buf, st) s'"

inductive_simps sd_step_iff: "sd_step w (r, buf, st) (r', buf', st')"

section \<open>main\<close>

text \<open>
  \<open>main\<close> up to the call of \<open>_manage\<close>, and with the first \<open>n\<close> iterations of its loop. The
  return value of \<open>daemon (0, 0)\<close> is not looked at by the source.
\<close>

definition sd_start :: "sd_world \<Rightarrow> string list \<Rightarrow> sd_state exits" where
  "sd_start w argv =
     (let st = record_event (OpenLog (basename (argv ! 0))) sd_init
      in case check_linux_version w st of
           Inl e \<Rightarrow> Inl e
         | Inr st \<Rightarrow>
             (case parse_options (sd_long_bits w) argv st of
                Inl e \<Rightarrow> Inl e
              | Inr st \<Rightarrow> Inr (sd_log LOG_INFO ''initialized'' (record_event Daemon st))))"

definition sd_main :: "sd_world \<Rightarrow> string list \<Rightarrow> nat \<Rightarrow> (string \<times> sd_state) exits option" where
  "sd_main w argv n =
     (case sd_start w argv of
        Inl e \<Rightarrow> Some (Inl e)
      | Inr st \<Rightarrow> manage_rounds w 0 n (map (uninit_line w) [0..<LINE_SIZE], st))"

end
