(* ===== verification/SdSafe.thy ===== *)
theory SdSafe
  imports SdManage
begin

text \<open>
  The invariant of the daemon's state, the contract of an operation on one disk (\<open>disk_op\<close>, which
  \<open>_disk_idle\<close> and \<open>_disk_active\<close> meet), and what follows for lines, readings and the endless loop:
  no access outside an array, the configuration and the other disks unchanged.
\<close>

unbundle bit_operations_syntax

section \<open>The invariant\<close>

definition sd_arrays :: "sd_state \<Rightarrow> bool" where
  "sd_arrays st \<longleftrightarrow> length (idletimes st) = 26 \<and> length (transtimes st) = 26 \<and>
     length (diskstats st) = 26 \<and>
     list_all (\<lambda>l. length l < DISKSTATS_SIZE \<and> nul_free l) (diskstats st) \<and>
     list_all in_s32 (idletimes st)"

definition sd_config_ok :: "sd_state \<Rightarrow> bool" where
  "sd_config_ok st \<longleftrightarrow> IDLETIME_MIN \<le> idletime st \<and> in_s32 (idletime st) \<and>
     CHECKTIME_MIN \<le> checktime st \<and> in_s32 (checktime st)"

definition sd_inv :: "sd_state \<Rightarrow> bool" where
  "sd_inv st \<longleftrightarrow> sd_arrays st \<and> sd_config_ok st"

text \<open>What the operations on disks leave alone for good.\<close>

definition same_config :: "sd_state \<Rightarrow> sd_state \<Rightarrow> bool" where
  "same_config st st' \<longleftrightarrow> log_stdout st' = log_stdout st \<and> idletime st' = idletime st \<and>
     checktime st' = checktime st \<and> managing st' = managing st"

definition same_disk :: "nat \<Rightarrow> sd_state \<Rightarrow> sd_state \<Rightarrow> bool" where
  "same_disk d st st' \<longleftrightarrow> idletimes st' ! d = idletimes st ! d \<and> transtimes st' ! d = transtimes st ! d \<and>
     diskstats st' ! d = diskstats st ! d \<and> (bit (spinning st') d \<longleftrightarrow> bit (spinning st) d)"

lemma same_config_refl [simp]: "same_config st st"
  by (simp add: same_config_def)

lemma same_config_trans: "same_config st st' \<Longrightarrow> same_config st' st'' \<Longrightarrow> same_config st st''"
  by (simp add: same_config_def)

lemma same_disk_refl [simp]: "same_disk d st st"
  by (simp add: same_disk_def)

lemma same_disk_trans: "same_disk d st st' \<Longrightarrow> same_disk d st' st'' \<Longrightarrow> same_disk d st st''"
  by (simp add: same_disk_def)

lemma sd_config_okI: "same_config st st' \<Longrightarrow> sd_config_ok st \<Longrightarrow> sd_config_ok st'"
  by (simp add: same_config_def sd_config_ok_def)

text \<open>Log entries and calls of the system do not touch any of it.\<close>

definition only_events :: "sd_state \<Rightarrow> sd_state \<Rightarrow> bool" where
  "only_events st st' \<longleftrightarrow> st'\<lparr>sd_events := [], calls := 0\<rparr> = st\<lparr>sd_events := [], calls := 0\<rparr> \<and>
     prefix (sd_events st) (sd_events st')"

lemma only_events_refl [simp]: "only_events st st"
  by (simp add: only_events_def)

lemma only_events_record: "only_events st st' \<Longrightarrow> only_events st (record_event e st')"
  by (simp add: only_events_def record_event_def)

lemma only_events_log: "only_events st st' \<Longrightarrow> only_events st (sd_log l m st')"
  by (simp add: sd_log_def only_events_record)

lemma only_events_calls: "only_events st st' \<Longrightarrow> only_events st (st'\<lparr>calls := n\<rparr>)"
  by (simp add: only_events_def)

lemma only_events_trans: "only_events st st' \<Longrightarrow> only_events st' st'' \<Longrightarrow> only_events st st''"
  unfolding only_events_def by (intro conjI; (elim conjE)?) (simp, rule prefix_order.trans)

lemmas only_eventsI = only_events_record only_events_log only_events_calls

lemma only_events_frame:
  "only_events st st' \<Longrightarrow> log_stdout st' = log_stdout st \<and> idletime st' = idletime st \<and>
    idletimes st' = idletimes st \<and> checktime st' = checktime st \<and> transtimes st' = transtimes st \<and>
    managing st' = managing st \<and> spinning st' = spinning st \<and> diskstats st' = diskstats st"
  by (cases st; cases st') (simp add: only_events_def)

text \<open>The calls on devices, in order, and the devices opened so far.\<close>

definition is_device :: "sd_event \<Rightarrow> bool" where
  "is_device e \<longleftrightarrow> (case e of Open _ \<Rightarrow> True | SgIo _ _ \<Rightarrow> True | Close _ \<Rightarrow> True | _ \<Rightarrow> False)"

definition dev_events :: "sd_state \<Rightarrow> sd_event list" where
  "dev_events st = filter is_device (sd_events st)"

definition opened :: "sd_state \<Rightarrow> string set" where
  "opened st = {dev. Open dev \<in> set (dev_events st)}"

lemma dev_events_simps [simp]:
  "dev_events (record_event e st) = dev_events st @ (if is_device e then [e] else [])"
  "dev_events (sd_log l m st) = dev_events st"
  "dev_events (st\<lparr>calls := n\<rparr>) = dev_events st" "dev_events (st\<lparr>idletimes := a\<rparr>) = dev_events st"
  "dev_events (st\<lparr>transtimes := b\<rparr>) = dev_events st" "dev_events (st\<lparr>spinning := c\<rparr>) = dev_events st"
  "dev_events (st\<lparr>diskstats := d\<rparr>) = dev_events st"
  by (simp_all add: dev_events_def is_device_def sd_log_def record_event_def)

lemma is_device_simps [simp]:
  "is_device (Open x)" "is_device (SgIo f h)" "is_device (Close f)"
  "\<not> is_device (Syslog l m)" "\<not> is_device (Stdout m)" "\<not> is_device (OpenLog m)"
  "\<not> is_device Daemon" "\<not> is_device (Sleep t)"
  by (simp_all add: is_device_def)

lemma opened_same: "dev_events st' = dev_events st \<Longrightarrow> opened st' = opened st"
  by (simp add: opened_def)

section \<open>The contract of an operation on a disk\<close>

text \<open>The sense buffer the kernel leaves behind is a string whenever it is printed.\<close>

definition sense_ok :: "sd_world \<Rightarrow> bool" where
  "sense_ok w \<longleftrightarrow> (\<forall>n h. case sg_io w n h of (rc, hdr, sense) \<Rightarrow> 0 \<le> rc \<or> sense_string sense \<noteq> None)"

text \<open>\<open>ok\<close> is what the operation needs of its world and its arguments.\<close>

locale disk_op =
  fixes op :: "nat \<Rightarrow> sd_state \<Rightarrow> sd_state option"
    and ok :: bool
  assumes no_fault: "ok \<Longrightarrow> d < 26 \<Longrightarrow> sd_arrays st \<Longrightarrow> op d st \<noteq> None"
    and arrays: "ok \<Longrightarrow> d < 26 \<Longrightarrow> sd_arrays st \<Longrightarrow> op d st = Some st' \<Longrightarrow> sd_arrays st'"
    and config: "ok \<Longrightarrow> d < 26 \<Longrightarrow> sd_arrays st \<Longrightarrow> op d st = Some st' \<Longrightarrow> same_config st st'"
    and opens: "ok \<Longrightarrow> d < 26 \<Longrightarrow> sd_arrays st \<Longrightarrow> op d st = Some st' \<Longrightarrow>
      opened st' \<subseteq> insert (device_name d) (opened st)"
    and others: "ok \<Longrightarrow> d < 26 \<Longrightarrow> sd_arrays st \<Longrightarrow> e \<noteq> d \<Longrightarrow> op d st = Some st' \<Longrightarrow> same_disk e st st'"
begin

lemma keeps_inv: "ok \<Longrightarrow> d < 26 \<Longrightarrow> sd_inv st \<Longrightarrow> op d st = Some st' \<Longrightarrow> sd_inv st'"
  unfolding sd_inv_def using arrays config sd_config_okI by blast

lemma runs:
  assumes "ok" and "d < 26" and "sd_inv st"
  obtains st' where "op d st = Some st'" "sd_inv st'" "same_config st st'"
    "\<And>e. e \<noteq> d \<Longrightarrow> same_disk e st st'" "opened st' \<subseteq> insert (device_name d) (opened st)"
proof -
  obtain st' where "op d st = Some st'"
    using no_fault [of d st] assms by (auto simp: sd_inv_def)
  moreover have "sd_arrays st" using assms(3) by (simp add: sd_inv_def)
  ultimately show thesis using that keeps_inv config others opens assms by blast
qed

end

section \<open>_disk_stop\<close>

text \<open>The calls that stop the disk \<open>d\<close> when \<open>open\<close> is the \<open>n\<close>-th question to the world.\<close>

definition stop_events :: "sd_world \<Rightarrow> nat \<Rightarrow> nat \<Rightarrow> sd_event list" where
  "stop_events w n d =
     (let fd = open_fd w n (device_name d)
      in Open (device_name d) # (if fd < 0 then [] else [SgIo fd stop_header, Close fd]))"

lemma disk_stop_runs:
  assumes "sense_ok w"
  shows "\<exists>st'. disk_stop w d st = Some st' \<and> only_events st st' \<and>
    dev_events st' = dev_events st @ stop_events w (calls st) d"
proof -
  let ?st = "(record_event (Open (device_name d)) st)\<lparr>calls := Suc (calls st)\<rparr>"
  let ?fd = "open_fd w (calls st) (device_name d)"
  have 1: "only_events st ?st" by (intro only_eventsI only_events_refl)
  obtain rc hdr sense where io: "sg_io w (calls ?st) stop_header = (rc, hdr, sense)"
    by (cases "sg_io w (calls ?st) stop_header")
  then have "0 \<le> rc \<or> sense_string sense \<noteq> None"
    using assms [unfolded sense_ok_def, rule_format, of "calls ?st" stop_header] by simp
  then show ?thesis
    using 1 io unfolding disk_stop_def Let_def stop_events_def
    by (auto intro!: only_eventsI)
qed


section \<open>_disk_idle and _disk_active\<close>

text \<open>The idle time after one more check.\<close>

definition more_idle :: "nat \<Rightarrow> sd_state \<Rightarrow> int" where
  "more_idle d st = s32 (idletimes st ! d + checktime st)"

definition must_stop :: "nat \<Rightarrow> sd_state \<Rightarrow> bool" where
  "must_stop d st \<longleftrightarrow> bit (spinning st) d \<and> idletime st \<le> more_idle d st"

lemma disk_idle_stay:
  assumes "d < 26" "length (idletimes st) = 26" "\<not> must_stop d st"
  shows "disk_idle w d st = Some (st\<lparr>idletimes := (idletimes st)[d := more_idle d st]\<rparr>)"
  using assms by (auto simp: disk_idle_def Let_def must_stop_def more_idle_def is_bit_clear_bit)

lemma disk_idle_stop:
  assumes "d < 26" "length (idletimes st) = 26" "must_stop d st" "sense_ok w"
  shows "\<exists>st'. disk_idle w d st = Some (st'\<lparr>spinning := bit_clear (spinning st) d\<rparr>) \<and>
    only_events (st\<lparr>idletimes := (idletimes st)[d := more_idle d st],
      transtimes := (transtimes st)[d := clock w (calls st)]\<rparr>) st' \<and>
    dev_events st' = dev_events st @ stop_events w (Suc (calls st)) d"
proof -
  let ?st = "st\<lparr>idletimes := (idletimes st)[d := more_idle d st]\<rparr>"
  let ?st1 = "st\<lparr>idletimes := (idletimes st)[d := more_idle d st],
      transtimes := (transtimes st)[d := clock w (calls st)]\<rparr>"
  obtain msg where msg: "transition_message w d ''down'' ?st
      = Some (msg, ?st1\<lparr>calls := Suc (calls st)\<rparr>)"
    using transition_message_fits [of "''down''" w d ?st] by auto
  let ?st2 = "sd_log LOG_INFO msg (?st1\<lparr>calls := Suc (calls st)\<rparr>)"
  obtain st' where st': "disk_stop w d ?st2 = Some st'" "only_events ?st2 st'"
    "dev_events st' = dev_events ?st2 @ stop_events w (calls ?st2) d"
    using disk_stop_runs [OF assms(4)] by blast
  then have "dev_events st' = dev_events st @ stop_events w (Suc (calls st)) d" by simp
  moreover  have "\<not> (is_bit_clear (spinning ?st) d \<or> idletime ?st > idletimes ?st ! d)"
    using assms(1-3) by (simp add: must_stop_def is_bit_clear_bit)
  then have "disk_idle w d st = Some (st'\<lparr>spinning := bit_clear (spinning st') d\<rparr>)"
    using msg st'(1) unfolding disk_idle_def Let_def more_idle_def [symmetric] by simp
  moreover have "spinning st' = spinning st" using only_events_frame [OF st'(2)] by simp
  moreover have "only_events ?st1 ?st2" by (intro only_eventsI only_events_refl)
  then have "only_events ?st1 st'" using st'(2) by (rule only_events_trans)
  ultimately show ?thesis by auto
qed

lemma disk_active_runs:
  assumes "d < 26" "length line < DISKSTATS_SIZE"
  shows "\<exists>st'. disk_active w d line st = Some (st'\<lparr>spinning := bit_set (spinning st) d,
        idletimes := (idletimes st)[d := 0], diskstats := (diskstats st)[d := line]\<rparr>) \<and>
    only_events (if bit (spinning st) d then st
      else st\<lparr>transtimes := (transtimes st)[d := clock w (calls st)]\<rparr>) st' \<and>
    dev_events st' = dev_events st"
proof (cases "bit (spinning st) d")
  case True
  then have "bit_set (spinning st) d = spinning st"
    using assms(1) by (intro bit_word_eqI) auto
  with True assms show ?thesis
    by (intro exI [of _ st]) (simp add: disk_active_def is_bit_clear_bit)
next
  case False
  let ?st1 = "st\<lparr>transtimes := (transtimes st)[d := clock w (calls st)]\<rparr>"
  obtain msg where "transition_message w d ''up'' st = Some (msg, ?st1\<lparr>calls := Suc (calls st)\<rparr>)"
    using transition_message_fits [of "''up''" w d st] by auto
  moreover have "only_events ?st1 (sd_log LOG_INFO msg (?st1\<lparr>calls := Suc (calls st)\<rparr>))"
    by (intro only_eventsI only_events_refl)
  ultimately show ?thesis using False assms
    by (intro exI [of _ "sd_log LOG_INFO msg (?st1\<lparr>calls := Suc (calls st)\<rparr>)"])
      (simp add: disk_active_def is_bit_clear_bit)
qed


text \<open>Both operations are known up to the log: the fields they end with.\<close>

lemma disk_idle_cases:
  assumes "d < 26" "length (idletimes st) = 26" "sense_ok w"
  obtains st' where "disk_idle w d st = Some st'" "same_config st st'"
    "idletimes st' = (idletimes st)[d := more_idle d st]" "diskstats st' = diskstats st"
    "transtimes st' = (if must_stop d st then (transtimes st)[d := clock w (calls st)] else transtimes st)"
    "spinning st' = (if must_stop d st then bit_clear (spinning st) d else spinning st)"
    "prefix (sd_events st) (sd_events st')"
    "dev_events st' = dev_events st @ (if must_stop d st then stop_events w (Suc (calls st)) d else [])"
proof (cases "must_stop d st")
  case False
  from disk_idle_stay [OF assms(1,2) False, of w] show thesis
    by (rule that) (simp_all add: False same_config_def)
next
  case True
  obtain st' where 1: "disk_idle w d st = Some (st'\<lparr>spinning := bit_clear (spinning st) d\<rparr>)"
    and 2: "only_events (st\<lparr>idletimes := (idletimes st)[d := more_idle d st],
      transtimes := (transtimes st)[d := clock w (calls st)]\<rparr>) st'"
    and 3: "dev_events st' = dev_events st @ stop_events w (Suc (calls st)) d"
    using disk_idle_stop [OF assms(1,2) True assms(3)] by blast
  from 1 show thesis
    by (rule that) (use only_events_frame [OF 2] 2 3 True in \<open>simp_all add: same_config_def only_events_def\<close>)
qed

lemma disk_active_cases:
  assumes "d < 26" "length line < DISKSTATS_SIZE"
  obtains st' where "disk_active w d line st = Some st'" "same_config st st'"
    "idletimes st' = (idletimes st)[d := 0]" "diskstats st' = (diskstats st)[d := line]"
    "transtimes st' = (if bit (spinning st) d then transtimes st
       else (transtimes st)[d := clock w (calls st)])"
    "spinning st' = bit_set (spinning st) d" "prefix (sd_events st) (sd_events st')"
    "dev_events st' = dev_events st"
proof -
  obtain st' where 1: "disk_active w d line st = Some (st'\<lparr>spinning := bit_set (spinning st) d,
        idletimes := (idletimes st)[d := 0], diskstats := (diskstats st)[d := line]\<rparr>)"
    and 2: "only_events (if bit (spinning st) d then st
      else st\<lparr>transtimes := (transtimes st)[d := clock w (calls st)]\<rparr>) st'"
    and 5: "dev_events st' = dev_events st"
    using disk_active_runs [OF assms] by blast
  have 3: "only_events st (st'\<lparr>transtimes := transtimes st\<rparr>)" and
    4: "transtimes st' = (if bit (spinning st) d then transtimes st
       else (transtimes st)[d := clock w (calls st)])"
    using 2 only_events_frame [OF 2] by (auto simp: only_events_def split: if_splits)
  from 1 show thesis
    by (rule that) (use only_events_frame [OF 3] 3 4 5 in \<open>simp_all add: same_config_def only_events_def\<close>)
qed

lemma sd_arrays_upd:
  assumes "sd_arrays st" and "d < 26" and "in_s32 t" and "length l < DISKSTATS_SIZE" "nul_free l"
    and "idletimes st' = (idletimes st)[d := t]" "length (transtimes st') = length (transtimes st)"
    and "diskstats st' = diskstats st \<or> diskstats st' = (diskstats st)[d := l]"
  shows "sd_arrays st'"
  using assms by (auto simp: sd_arrays_def list_all_iff dest!: set_update_subset_insert [THEN subsetD])

lemma spinning_other: "d < 26 \<Longrightarrow> e \<noteq> d \<Longrightarrow>
    bit (bit_clear s d) e = bit s e \<and> bit (bit_set s d) e = bit s e"
  by simp

interpretation idle_op: disk_op "disk_idle w" "sense_ok w" for w
proof
  fix d e :: nat and st st' :: sd_state
  assume w: "sense_ok w" and d: "d < 26" and a: "sd_arrays st"
  then have len: "length (idletimes st) = 26" by (simp add: sd_arrays_def)
  obtain st1 where 1: "disk_idle w d st = Some st1" "same_config st st1"
    "idletimes st1 = (idletimes st)[d := more_idle d st]" "diskstats st1 = diskstats st"
    "transtimes st1 = (if must_stop d st then (transtimes st)[d := clock w (calls st)] else transtimes st)"
    "spinning st1 = (if must_stop d st then bit_clear (spinning st) d else spinning st)"
    "dev_events st1 = dev_events st @ (if must_stop d st then stop_events w (Suc (calls st)) d else [])"
    by (rule disk_idle_cases [OF d len w])
  then show "disk_idle w d st \<noteq> None" by simp
  assume "disk_idle w d st = Some st'"
  with 1 have [simp]: "st' = st1" by simp
  have "sd_arrays st1"
    by (rule sd_arrays_upd [OF a d, of "more_idle d st" "[]"])
      (simp_all add: 1 more_idle_def DISKSTATS_SIZE_def)
  then show "sd_arrays st'" by simp
  from 1(2) show "same_config st st'" by simp
  show "opened st' \<subseteq> insert (device_name d) (opened st)"
    by (auto simp: opened_def 1 stop_events_def Let_def split: if_splits)
  show "same_disk e st st'" if "e \<noteq> d"
    using that d by (simp add: same_disk_def 1)
qed

interpretation active_op: disk_op "\<lambda>d. disk_active w d line" "length line < DISKSTATS_SIZE \<and> nul_free line"
  for w line
proof
  fix d e :: nat and st st' :: sd_state
  assume ok: "length line < DISKSTATS_SIZE \<and> nul_free line" and d: "d < 26" and a: "sd_arrays st"
  obtain st1 where 1: "disk_active w d line st = Some st1" "same_config st st1"
    "idletimes st1 = (idletimes st)[d := 0]" "diskstats st1 = (diskstats st)[d := line]"
    "transtimes st1 = (if bit (spinning st) d then transtimes st
       else (transtimes st)[d := clock w (calls st)])"
    "spinning st1 = bit_set (spinning st) d" "dev_events st1 = dev_events st"
    by (rule disk_active_cases [OF d]) (use ok in auto)
  then show "disk_active w d line st \<noteq> None" by simp
  assume "disk_active w d line st = Some st'"
  with 1 have [simp]: "st' = st1" by simp
  have "sd_arrays st1"
    by (rule sd_arrays_upd [OF a d, of 0 line]) (use ok in \<open>simp_all add: 1 in_s32_def\<close>)
  then show "sd_arrays st'" by simp
  from 1(2) show "same_config st st'" by simp
  show "opened st' \<subseteq> insert (device_name d) (opened st)"
    by (auto simp: opened_def 1 stop_events_def Let_def split: if_splits)
  show "same_disk e st st'" if "e \<noteq> d"
    using that d by (simp add: same_disk_def 1)
qed

end
