(* ===== verification/SdLines.thy ===== *)
theory SdLines
  imports SdSafe
begin

text \<open>
  Lines of \<open>/proc/diskstats\<close>: what the scans over the line buffer find, that they stay inside it, what
  a line of the kernel's format makes the daemon do, and the invariant over whole readings and over
  the endless loop.
\<close>

unbundle bit_operations_syntax

section \<open>The scans\<close>

lemma drop_ConsD: "drop i xs = y # ys \<Longrightarrow> i < length xs \<and> xs ! i = y \<and> drop (Suc i) xs = ys"
  by (metis Cons_nth_drop_Suc drop_all linorder_not_le list.distinct(1) list.inject)

lemma strchr_buf_found:
  assumes "drop i buf = g @ c # r" and "c \<notin> set g" and "nul_free g"
  shows "strchr_buf buf i c = Some (Some (i + length g))"
  using assms
proof (induction g arbitrary: i)
  case Nil
  then have "i < length buf" "buf ! i = c" by (simp_all add: drop_ConsD)
  then show ?case by (simp add: strchr_buf.simps [of buf i])
next
  case (Cons x g)
  then have "i < length buf" "buf ! i = x" "drop (Suc i) buf = g @ c # r" by (simp_all add: drop_ConsD)
  with Cons show ?case by (auto simp: strchr_buf.simps [of buf i])
qed

lemma strchr_buf_string:
  assumes "terminated buf 0" and "i \<le> length (cstr buf 0)" and "c \<noteq> NUL"
  shows "strchr_buf buf i c = Some None \<or>
    (\<exists>j. strchr_buf buf i c = Some (Some j) \<and> i \<le> j \<and> j < length (cstr buf 0))"
  using assms(2)
proof (induction "length (cstr buf 0) - i" arbitrary: i)
  case 0
  then have "i = length (cstr buf 0)" by simp
  with nth_cstr_end [OF assms(1)] cstr_less [OF assms(1)] assms(3) show ?case
    by (auto simp: strchr_buf.simps [of buf "length (cstr buf 0)"])
next
  case (Suc n)
  then have i: "i < length (cstr buf 0)" by simp
  moreover have "buf ! i \<noteq> NUL"
    using cstr_nth [of i buf 0] i nul_free_cstr [of buf 0] by (auto simp: nul_free_def in_set_conv_nth)
  moreover from Suc(1) [of "Suc i"] Suc(2) i
  have "strchr_buf buf (Suc i) c = Some None \<or>
    (\<exists>j. strchr_buf buf (Suc i) c = Some (Some j) \<and> Suc i \<le> j \<and> j < length (cstr buf 0))" by auto
  ultimately show ?case using cstr_less [OF assms(1)]
    by (auto simp: strchr_buf.simps [of buf i])
qed

lemma find_io_string:
  assumes "terminated buf 0" and "io < length (cstr buf 0)"
  shows "find_io buf io k = Some None \<or>
    (\<exists>j. find_io buf io k = Some (Some j) \<and> j < length (cstr buf 0))"
  using assms(2)
proof (induction k arbitrary: io)
  case (Suc k)
  then consider "strchr_buf buf (Suc io) CHR '' '' = Some None"
    | j where "strchr_buf buf (Suc io) CHR '' '' = Some (Some j)" "j < length (cstr buf 0)"
    using strchr_buf_string [OF assms(1), of "Suc io" "CHR '' ''"] by auto
  then show ?case using Suc.IH by cases simp_all
qed simp

text \<open>Over blank-separated words, \<open>find_io\<close> stops at the blank in front of the next one.\<close>

definition word_ok :: "string \<Rightarrow> bool" where
  "word_ok f \<longleftrightarrow> f \<noteq> [] \<and> CHR '' '' \<notin> set f \<and> nul_free f"

lemma find_io_words:
  assumes "drop (Suc io) buf = concat (map (\<lambda>g. g @ '' '') gs) @ r"
    and "\<forall>g \<in> set gs. CHR '' '' \<notin> set g \<and> nul_free g"
  shows "\<exists>j. find_io buf io (length gs) = Some (Some j) \<and> drop (Suc j) buf = r"
  using assms
proof (induction gs arbitrary: io)
  case (Cons g gs)
  let ?r = "concat (map (\<lambda>g. g @ '' '') gs) @ r"
  have d: "drop (Suc io) buf = g @ CHR '' '' # ?r" using Cons.prems(1) by simp
  from strchr_buf_found [OF d] Cons.prems(2)
  have 1: "strchr_buf buf (Suc io) CHR '' '' = Some (Some (Suc io + length g))" by simp
  have "drop (Suc (length g)) (drop (Suc io) buf) = ?r" unfolding d by simp
  then have "drop (Suc (Suc io + length g)) buf = ?r" by (simp add: add.commute)
  from Cons.IH [OF this] Cons.prems(2) 1 show ?case by simp
qed simp

section \<open>A line in the buffer\<close>

text \<open>A line the kernel writes: it fits the buffer with room to spare, newline included.\<close>

definition line_plain :: "string \<Rightarrow> bool" where
  "line_plain l \<longleftrightarrow> newline \<notin> set l \<and> nul_free l \<and> length l + 3 \<le> LINE_SIZE"

definition line_in :: "string \<Rightarrow> string \<Rightarrow> bool" where
  "line_in l buf \<longleftrightarrow> line_plain l \<and> length buf = LINE_SIZE \<and> (\<exists>t. buf = l @ newline # NUL # t)"

lemma line_in_cstr:
  assumes "line_in l buf"
  shows "cstr buf 0 = l @ [newline]" "terminated buf 0"
proof -
  from assms obtain t where "buf = (l @ [newline]) @ NUL # t" "nul_free l"
    by (auto simp: line_in_def line_plain_def)
  then show "cstr buf 0 = l @ [newline]" "terminated buf 0"
    using cstr_append_NUL [of "l @ [newline]" t] by (simp_all add: terminated_def)
qed

text \<open>What one line can change: nothing of the configuration, and of the disks at most one that is
  managed.\<close>

definition managed_change :: "sd_state \<Rightarrow> sd_state \<Rightarrow> bool" where
  "managed_change st st' \<longleftrightarrow> same_config st st' \<and>
     (\<forall>e < 26. \<not> bit (managing st) e \<longrightarrow> same_disk e st st') \<and>
     opened st' \<subseteq> opened st \<union> device_name ` {e. e < 26 \<and> bit (managing st) e}"

lemma managed_change_refl [simp]: "managed_change st st"
  by (simp add: managed_change_def)

lemma managed_change_trans:
  assumes "managed_change st st'" and "managed_change st' st''"
  shows "managed_change st st''"
proof -
  have m: "managing st' = managing st" using assms(1) by (simp add: managed_change_def same_config_def)
  have "same_config st st''" using assms same_config_trans unfolding managed_change_def by blast
  moreover have "same_disk e st st''" if "e < 26" "\<not> bit (managing st) e" for e
    using assms that same_disk_trans unfolding managed_change_def m by blast
  moreover have "opened st'' \<subseteq> opened st \<union> device_name ` {e. e < 26 \<and> bit (managing st) e}"
    using assms unfolding managed_change_def m by blast
  ultimately show ?thesis unfolding managed_change_def by blast
qed

lemma only_events_managed:
  "only_events st st' \<Longrightarrow> dev_events st' = dev_events st \<Longrightarrow> managed_change st st'"
  by (auto simp: managed_change_def same_config_def same_disk_def opened_def dest!: only_events_frame)

lemma only_events_inv: "only_events st st' \<Longrightarrow> sd_inv st \<Longrightarrow> sd_inv st'"
  by (auto simp: sd_inv_def sd_arrays_def sd_config_ok_def dest!: only_events_frame)

lemma op_managed:
  assumes "disk_op op ok" and "ok" and "d < 26" and "sd_inv st" and "bit (managing st) d"
  shows "\<exists>st'. op d st = Some st' \<and> sd_inv st' \<and> managed_change st st'"
proof -
  obtain st' where "op d st = Some st'" "sd_inv st'" "same_config st st'"
    "\<And>e. e \<noteq> d \<Longrightarrow> same_disk e st st'" "opened st' \<subseteq> insert (device_name d) (opened st)"
    using disk_op.runs [OF assms(1-4)] by blast
  moreover from this(5) assms(3,5) have "opened st' \<subseteq> opened st \<union> device_name ` {e. e < 26 \<and> bit (managing st) e}"
    by blast
  ultimately show ?thesis using assms(5) unfolding managed_change_def by metis
qed

lemma log_inv:
  assumes "sd_inv st"
  shows "sd_inv (sd_log l m st) \<and> managed_change st (sd_log l m st)"
  using only_events_log [OF only_events_refl] only_events_inv [OF _ assms]
    only_events_managed [of st "sd_log l m st"] by simp

lemma manage_disk_inv:
  assumes "sense_ok w" and "sd_inv st" and "d < 26" and "bit (managing st) d"
    and "terminated buf 0" and "length (cstr buf 0) < DISKSTATS_SIZE" and "k < length (cstr buf 0)"
  shows "\<exists>st'. manage_disk w buf k d st = Some st' \<and> sd_inv st' \<and> managed_change st st'"
proof -
  have line: "cstr buf k = drop k (cstr buf 0)" using assms(7) cstr_suffix [of k buf 0] by simp
  then have "length (cstr buf k) \<le> length (cstr buf 0)" by simp
  then have ok: "length (cstr buf k) < DISKSTATS_SIZE \<and> nul_free (cstr buf k)" using assms(6) by simp
  consider (none) "find_io buf k 8 = Some None"
    | (found) j where "find_io buf k 8 = Some (Some j)" "j < length (cstr buf 0)"
    using find_io_string [OF assms(5,7), of 8] by blast
  then show ?thesis
  proof cases
    case none
    with log_inv [OF assms(2)] show ?thesis by (simp add: manage_disk_def)
  next
    case found
    then have "Suc j < length buf" using cstr_less [OF assms(5)] by simp
    with found(1) show ?thesis
      using op_managed [OF idle_op.disk_op_axioms assms(1,3,2,4)]
        op_managed [OF active_op.disk_op_axioms ok assms(3,2,4), of w]
      by (simp add: manage_disk_def)
  qed
qed


lemma manage_line_inv:
  assumes "sense_ok w" and "sd_inv st" and "line_in l buf"
  shows "\<exists>st'. manage_diskstats_line w buf st = Some st' \<and> sd_inv st' \<and> managed_change st st'"
proof (cases "strstr (l @ [newline]) '' sd''")
  case None
  with assms line_in_cstr [OF assms(3)] show ?thesis by (simp add: manage_diskstats_line_def Let_def)
next
  case (Some sd)
  let ?s = "l @ [newline]"
  from assms(3) obtain t where buf: "buf = ?s @ NUL # t" and len: "length buf = LINE_SIZE"
    and l: "line_plain l" by (auto simp: line_in_def)
  have sd: "sd + 3 \<le> length ?s" using strstr_SomeD [OF Some] by simp
  have inside: "sd + 4 < length buf" "sd + 3 < length buf"
    using sd l len by (auto simp: line_plain_def LINE_SIZE_def)
  have end_line: "buf ! length ?s = NUL" "buf ! length l = newline" by (simp_all add: buf nth_append)
  let ?d = "of_char (buf ! (sd + 3)) - 97 :: nat"
  show ?thesis
  proof (cases "buf ! (sd + 4) \<noteq> CHR '' '' \<or> buf ! (sd + 3) < CHR ''a'' \<or> CHR ''z'' < buf ! (sd + 3) \<or>
      is_bit_clear (managing st) ?d \<or> length ?s \<ge> DISKSTATS_SIZE")
    case True
    with inside line_in_cstr [OF assms(3)] Some log_inv [OF assms(2)] assms(2) show ?thesis
      by (auto simp: manage_diskstats_line_def Let_def)
  next
    case False
    then have c: "CHR ''a'' \<le> buf ! (sd + 3)" "buf ! (sd + 3) \<le> CHR ''z''" "buf ! (sd + 4) = CHR '' ''"
      by (simp_all add: not_less)
    then have d: "?d < 26" by (simp add: less_eq_char_def)
    have "buf ! (sd + 3) \<noteq> NUL" "buf ! (sd + 3) \<noteq> newline" "buf ! (sd + 4) \<noteq> NUL" "buf ! (sd + 4) \<noteq> newline"
      using c by (auto simp: less_eq_char_def)
    with end_line have "sd + 3 \<noteq> length ?s" "sd + 4 \<noteq> length ?s" "sd + 3 \<noteq> length l" "sd + 4 \<noteq> length l"
      by metis+
    with sd have k: "sd + 5 < length (cstr buf 0)" by (simp add: line_in_cstr [OF assms(3)])
    from False have m: "bit (managing st) ?d" using d by (simp add: is_bit_clear_bit)
    have "length (cstr buf 0) < DISKSTATS_SIZE" using False by (simp add: line_in_cstr [OF assms(3)])
    from manage_disk_inv [OF assms(1,2) d m line_in_cstr(2) [OF assms(3)] this k] False inside
      line_in_cstr [OF assms(3)] Some
    show ?thesis by (simp add: manage_diskstats_line_def Let_def)
  qed
qed


section \<open>A line as a string\<close>

text \<open>What follows the \<open>n\<close>-th blank.\<close>

fun after_blanks :: "nat \<Rightarrow> string \<Rightarrow> string option" where
  "after_blanks 0 s = Some s"
| "after_blanks (Suc n) s =
     (if CHR '' '' \<in> set s then after_blanks n (tl (dropWhile (\<lambda>c. c \<noteq> CHR '' '') s)) else None)"

lemma strchr_buf_none:
  assumes "drop i buf = g @ NUL # r" and "c \<notin> set g" and "nul_free g" and "c \<noteq> NUL"
  shows "strchr_buf buf i c = Some None"
  using assms
proof (induction g arbitrary: i)
  case Nil
  then have "i < length buf" "buf ! i = NUL" by (simp_all add: drop_ConsD)
  then show ?case using Nil by (simp add: strchr_buf.simps [of buf i])
next
  case (Cons x g)
  then have "i < length buf" "buf ! i = x" "drop (Suc i) buf = g @ NUL # r" by (simp_all add: drop_ConsD)
  with Cons show ?case by (auto simp: strchr_buf.simps [of buf i])
qed

lemma find_io_after:
  assumes "buf = s @ NUL # t" and "nul_free s" and "io < length s"
  shows "case after_blanks k (drop (Suc io) s) of
      None \<Rightarrow> find_io buf io k = Some None
    | Some r \<Rightarrow> \<exists>j < length s. find_io buf io k = Some (Some j) \<and> drop (Suc j) s = r"
  using assms(3)
proof (induction k arbitrary: io)
  case (Suc k)
  let ?u = "drop (Suc io) s"
  have u: "drop (Suc io) buf = ?u @ NUL # t" using Suc.prems by (simp add: assms(1))
  show ?case
  proof (cases "CHR '' '' \<in> set ?u")
    case False
    with strchr_buf_none [OF u False] nul_free_dropI [OF assms(2), of "Suc io"] show ?thesis by auto
  next
    case True
    then obtain g r where gr: "?u = g @ CHR '' '' # r" "CHR '' '' \<notin> set g"
      by (auto dest: split_list_first)
    have "drop (Suc io) buf = g @ CHR '' '' # (r @ NUL # t)" using u gr(1) by simp
    moreover have "nul_free g" using nul_free_dropI [OF assms(2), of "Suc io"] gr(1) by simp
    ultimately have 1: "strchr_buf buf (Suc io) CHR '' '' = Some (Some (Suc io + length g))"
      using gr(2) strchr_buf_found by blast
    have "length ?u = length g + Suc (length r)" by (simp add: gr(1))
    then have less: "Suc io + length g < length s" by simp
    have "drop (Suc (length g)) ?u = r" unfolding gr(1) by simp
    then have r: "drop (Suc (Suc io + length g)) s = r" by (simp add: add.commute)
    have "tl (dropWhile (\<lambda>c. c \<noteq> CHR '' '') ?u) = r"
      using gr(2) unfolding gr(1) by (subst dropWhile_append2) auto
    then show ?thesis using Suc.IH [OF less] 1 True unfolding r by (auto split: option.splits)
  qed
qed simp

text \<open>What a line does, on strings: the device is the letter behind the first \<open> sd\<close>; the statistics
  are what follows the blank behind it, and their ninth word begins with the number of requests in
  progress.\<close>

definition line_effect :: "sd_world \<Rightarrow> string \<Rightarrow> sd_state \<Rightarrow> sd_state option" where
  "line_effect w s st =
     (case strstr s '' sd'' of
        None \<Rightarrow> Some st
      | Some k \<Rightarrow>
          (case drop (k + 3) s of
             c # b # stats \<Rightarrow>
               (let d = of_char c - 97 in
                if b \<noteq> CHR '' '' \<or> c < CHR ''a'' \<or> CHR ''z'' < c \<or> \<not> bit (managing st) d then Some st
                else if length s \<ge> DISKSTATS_SIZE then
                  Some (sd_log LOG_WARNING (''/proc/diskstats line too long: '' @ s @ ''; ignoring'') st)
                else case after_blanks 8 (tl stats) of
                    None \<Rightarrow>
                      Some (sd_log LOG_WARNING (''Missing I/O in progress stat for device: sd''
                        @ [disk_letter d]) st)
                  | Some r \<Rightarrow>
                      if take 1 r = ''0'' \<and> diskstats st ! d = stats then disk_idle w d st
                      else disk_active w d stats st)
           | _ \<Rightarrow> Some st))"

lemma manage_disk_effect:
  assumes "buf = s @ NUL # t" and "nul_free s" and "k < length s"
  shows "manage_disk w buf k d st =
    (case after_blanks 8 (drop (Suc k) s) of
       None \<Rightarrow> Some (sd_log LOG_WARNING (''Missing I/O in progress stat for device: sd'' @ [disk_letter d]) st)
     | Some r \<Rightarrow> if take 1 r = ''0'' \<and> diskstats st ! d = drop k s then disk_idle w d st
                 else disk_active w d (drop k s) st)"
proof -
  have line: "cstr buf k = drop k s"
    using cstr_suffix [of k buf 0] assms by simp
  show ?thesis
  proof (cases "after_blanks 8 (drop (Suc k) s)")
    case None
    with find_io_after [OF assms, of 8] show ?thesis by (simp add: manage_disk_def)
  next
    case (Some r)
    with find_io_after [OF assms, of 8] obtain j where
      j: "j < length s" "find_io buf k 8 = Some (Some j)" "drop (Suc j) s = r" by auto
    have "drop (Suc j) buf = r @ NUL # t" using j by (simp add: assms(1))
    then have "read_at buf (Suc j) = Some (hd (r @ NUL # t))"
      using j(1) assms(1) by (simp add: hd_drop_conv_nth [symmetric])
    moreover have "hd (r @ NUL # t) = CHR ''0'' \<longleftrightarrow> take 1 r = ''0''" by (cases r) auto
    ultimately show ?thesis using j(2) Some by (simp add: manage_disk_def line)
  qed
qed


lemma manage_line_effect:
  assumes "line_in l buf"
  shows "manage_diskstats_line w buf st = line_effect w (l @ [newline]) st"
proof (cases "strstr (l @ [newline]) '' sd''")
  case None
  with line_in_cstr [OF assms] show ?thesis by (simp add: manage_diskstats_line_def line_effect_def Let_def)
next
  case (Some k)
  let ?s = "l @ [newline]"
  from assms obtain t where buf: "buf = ?s @ NUL # t" and len: "length buf = LINE_SIZE"
    and l: "line_plain l" by (auto simp: line_in_def)
  have s: "nul_free ?s" using l by (simp add: line_plain_def)
  have k: "k + 3 \<le> length ?s" using strstr_SomeD [OF Some] by simp
  have inside: "k + 4 < length buf" "k + 3 < length buf"
    using k l len by (auto simp: line_plain_def LINE_SIZE_def)
  have unfold: "manage_diskstats_line w buf st =
    (if buf ! (k + 4) \<noteq> CHR '' '' then Some st
     else if buf ! (k + 3) < CHR ''a'' \<or> CHR ''z'' < buf ! (k + 3) then Some st
     else if is_bit_clear (managing st) (of_char (buf ! (k + 3)) - 97) then Some st
     else if length ?s \<ge> DISKSTATS_SIZE then
       Some (sd_log LOG_WARNING (''/proc/diskstats line too long: '' @ ?s @ ''; ignoring'') st)
     else manage_disk w buf (k + 5) (of_char (buf ! (k + 3)) - 97) st)"
    using inside line_in_cstr [OF assms] Some by (simp add: manage_diskstats_line_def Let_def)
  have buf_k: "drop (k + 3) buf = drop (k + 3) ?s @ NUL # t"
    unfolding buf drop_append using k by simp
  have suc: "Suc (k + 3) = k + 4" "Suc (k + 4) = k + 5" "Suc (k + 5) = k + 6" by simp_all
  consider (none) "drop (k + 3) ?s = []" | (one) c where "drop (k + 3) ?s = [c]"
    | (more) c b stats where "drop (k + 3) ?s = c # b # stats"
    by (metis list.exhaust)
  then show ?thesis
  proof cases
    case none
    then have "buf ! (k + 3) = NUL" using buf_k drop_ConsD [of "k + 3" buf] by simp
    with Some none show ?thesis by (simp add: unfold line_effect_def less_char_def)
  next
    case one
    then have "drop (k + 4) buf = NUL # t" using buf_k drop_ConsD [of "k + 3" buf c] by (simp add: suc)
    then have "buf ! (k + 4) = NUL" by (simp add: drop_ConsD)
    with Some one show ?thesis by (simp add: unfold line_effect_def)
  next
    case more
    then have "drop (k + 3) buf = c # b # stats @ NUL # t" using buf_k by simp
    then have c: "buf ! (k + 3) = c" and 4: "drop (k + 4) buf = b # stats @ NUL # t"
      using drop_ConsD [of "k + 3" buf c] by (simp_all add: suc)
    from 4 have b: "buf ! (k + 4) = b" by (simp add: drop_ConsD)
    have stats: "drop (k + 5) ?s = stats"
      using drop_ConsD [OF more] drop_ConsD [of "k + 4" ?s b stats] by (simp only: suc)
    then have tl_stats: "drop (k + 6) ?s = tl stats" using tl_drop [of "k + 5" ?s] drop_Suc [of "k + 5" ?s]
      by (simp only: suc)
    have d: "of_char c - 97 < (32 :: nat)" if "\<not> CHR ''z'' < c" using that by (simp add: less_char_def)
    show ?thesis
    proof (cases "b = CHR '' '' \<and> \<not> c < CHR ''a'' \<and> \<not> CHR ''z'' < c \<and>
        bit (managing st) (of_char c - 97) \<and> length ?s < DISKSTATS_SIZE")
      case False
      then show ?thesis using Some more d
        by (auto simp: unfold line_effect_def c b Let_def is_bit_clear_bit)
    next
      case True
      have "k + 4 < length ?s \<and> ?s ! (k + 4) = b"
        using drop_ConsD [OF more] drop_ConsD [of "k + 4" ?s b stats] by (simp only: suc)
      moreover have "?s ! length l = newline" by simp
      ultimately have "k + 4 \<noteq> length l" using True by auto
      with \<open>k + 4 < length ?s \<and> ?s ! (k + 4) = b\<close> have "k + 5 < length ?s" by simp
      then have "manage_disk w buf (k + 5) (of_char c - 97) st = (case after_blanks 8 (tl stats) of
          None \<Rightarrow> Some (sd_log LOG_WARNING (''Missing I/O in progress stat for device: sd''
            @ [disk_letter (of_char c - 97)]) st)
        | Some r \<Rightarrow> if take 1 r = ''0'' \<and> diskstats st ! (of_char c - 97) = stats
            then disk_idle w (of_char c - 97) st else disk_active w (of_char c - 97) stats st)"
        using manage_disk_effect [OF buf s, of "k + 5" w] stats tl_stats
        by (simp only: suc)
      then show ?thesis using True Some more d
        by (simp add: unfold line_effect_def c b Let_def is_bit_clear_bit not_le)
    qed
  qed
qed


section \<open>Readings and rounds\<close>

definition diskstats_text :: "string list \<Rightarrow> string" where
  "diskstats_text ls = concat (map (\<lambda>l. l @ [newline]) ls)"

text \<open>The lines of one reading, in order.\<close>

fun reading_effect :: "sd_world \<Rightarrow> string list \<Rightarrow> sd_state \<Rightarrow> sd_state option" where
  "reading_effect w [] st = Some st"
| "reading_effect w (l # ls) st =
     (case line_effect w (l @ [newline]) st of None \<Rightarrow> None | Some st' \<Rightarrow> reading_effect w ls st')"

lemma fgets_line_in:
  assumes "line_plain l" and "length buf = LINE_SIZE"
  obtains b where "fgets_buf LINE_SIZE buf (l @ newline # r) = Some (b, r)" "line_in l b"
    "length b = LINE_SIZE"
proof -
  let ?b = "l @ newline # NUL # drop (Suc (Suc (length l))) buf"
  have "fgets_buf LINE_SIZE buf (l @ newline # r) = Some (?b, r)"
    using assms(1) by (simp add: fgets_buf_def fgets_short line_plain_def)
  moreover have "length ?b = LINE_SIZE" using assms by (simp add: line_plain_def LINE_SIZE_def)
  ultimately show thesis using that assms(1) by (auto simp: line_in_def)
qed

lemma manage_lines_effect:
  assumes "\<forall>l \<in> set ls. line_plain l" and "length buf = LINE_SIZE"
  shows "map_option snd (manage_lines w (diskstats_text ls) buf st) = reading_effect w ls st \<and>
    (\<forall>b st'. manage_lines w (diskstats_text ls) buf st = Some (b, st') \<longrightarrow> length b = LINE_SIZE)"
  using assms
proof (induction ls arbitrary: buf st)
  case Nil
  then show ?case by (simp add: diskstats_text_def manage_lines.simps [of w "[]"])
next
  case (Cons l ls)
  obtain b where g: "fgets_buf LINE_SIZE buf (l @ newline # diskstats_text ls) = Some (b, diskstats_text ls)"
    and b: "line_in l b" "length b = LINE_SIZE"
    using fgets_line_in [of l buf "diskstats_text ls"] Cons.prems by auto
  have t: "diskstats_text (l # ls) = l @ newline # diskstats_text ls" by (simp add: diskstats_text_def)
  show ?case
    unfolding t manage_lines.simps [of w "l @ newline # diskstats_text ls"] g option.case prod.case
      manage_line_effect [OF b(1)]
    using Cons.IH [of b] Cons.prems(1) b(2) by (simp split: option.split)
qed

lemma line_effect_inv:
  assumes "sense_ok w" and "sd_inv st" and "line_plain l"
  shows "\<exists>st'. line_effect w (l @ [newline]) st = Some st' \<and> sd_inv st' \<and> managed_change st st'"
proof -
  obtain b where b: "line_in l b"
    using fgets_line_in [OF assms(3), of "replicate LINE_SIZE NUL"] by auto
  from manage_line_inv [OF assms(1,2) b] show ?thesis by (simp add: manage_line_effect [OF b])
qed

lemma reading_effect_inv:
  "sense_ok w \<Longrightarrow> sd_inv st \<Longrightarrow> \<forall>l \<in> set ls. line_plain l \<Longrightarrow>
    \<exists>st'. reading_effect w ls st = Some st' \<and> sd_inv st' \<and> managed_change st st'"
proof (induction ls arbitrary: st)
  case (Cons l ls)
  obtain st1 where 1: "line_effect w (l @ [newline]) st = Some st1" "sd_inv st1" "managed_change st st1"
    using line_effect_inv [OF Cons.prems(1,2), of l] Cons.prems(3) by auto
  with Cons.IH [OF Cons.prems(1) 1(2)] Cons.prems(3) show ?case
    using managed_change_trans [OF 1(3)] by fastforce
qed simp

text \<open>The kernel's side: readings made of plain lines; and, where a printed sense buffer matters, that it
  is a string.\<close>

definition plain_kernel :: "sd_world \<Rightarrow> bool" where
  "plain_kernel w \<longleftrightarrow> (\<forall>r c. proc_diskstats w r = Some c \<longrightarrow>
     (\<exists>ls. c = diskstats_text ls \<and> (\<forall>l \<in> set ls. line_plain l)))"

definition kernel_ok :: "sd_world \<Rightarrow> bool" where
  "kernel_ok w \<longleftrightarrow> sense_ok w \<and> plain_kernel w"

lemma manage_round_inv:
  assumes "kernel_ok w" and "sd_inv st" and "length buf = LINE_SIZE"
  shows "(\<exists>msg. proc_diskstats w r = None \<and>
      manage_round w r (buf, st) = Some (Inl (sd_log LOG_ERR msg st, 1))) \<or>
    (\<exists>b st'. manage_round w r (buf, st) = Some (Inr (b, st')) \<and> length b = LINE_SIZE \<and> sd_inv st' \<and>
      managed_change st st')"
proof (cases "proc_diskstats w r")
  case None
  then show ?thesis unfolding manage_round_def prod.case by (simp only: option.case) blast
next
  case (Some c)
  with assms(1) obtain ls where ls: "c = diskstats_text ls" "\<forall>l \<in> set ls. line_plain l"
    by (auto simp: kernel_ok_def plain_kernel_def)
  obtain st1 where 1: "reading_effect w ls st = Some st1" "sd_inv st1" "managed_change st st1"
    using reading_effect_inv [OF _ assms(2) ls(2), of w] assms(1) by (auto simp: kernel_ok_def)
  with manage_lines_effect [OF ls(2) assms(3), of w st] obtain b where
    "manage_lines w c buf st = Some (b, st1)" "length b = LINE_SIZE" by (auto simp: ls(1))
  moreover have "only_events st1 (record_event (Sleep (checktime st1)) st1)"
    by (simp add: only_events_record)
  ultimately show ?thesis
    using Some only_events_inv [OF _ 1(2)] managed_change_trans [OF 1(3) only_events_managed]
    by (simp add: manage_round_def del: record_event_simps)
qed

lemma manage_rounds_inv:
  assumes "kernel_ok w" and "sd_inv st" and "length buf = LINE_SIZE"
  shows "\<exists>x. manage_rounds w r n (buf, st) = Some x \<and>
    (case x of Inl (st', status) \<Rightarrow> status = 1 \<and> managed_change st st'
     | Inr (b, st') \<Rightarrow> length b = LINE_SIZE \<and> sd_inv st' \<and> managed_change st st')"
  using assms(2,3)
proof (induction n arbitrary: r buf st)
  case (Suc n)
  from manage_round_inv [OF assms(1) Suc.prems, of r] show ?case
  proof (elim disjE exE conjE)
    fix msg assume "manage_round w r (buf, st) = Some (Inl (sd_log LOG_ERR msg st, 1))"
    with log_inv [OF Suc.prems(1)] show ?thesis by simp
  next
    fix b st' assume 1: "manage_round w r (buf, st) = Some (Inr (b, st'))" "length b = LINE_SIZE"
      "sd_inv st'" "managed_change st st'"
    obtain x where x: "manage_rounds w (Suc r) n (b, st') = Some x"
      "case x of Inl (st'', status) \<Rightarrow> status = 1 \<and> managed_change st' st''
     | Inr (b, st'') \<Rightarrow> length b = LINE_SIZE \<and> sd_inv st'' \<and> managed_change st' st''"
      using Suc.IH [OF 1(3,2)] by blast
    with 1(1) managed_change_trans [OF 1(4)] show ?thesis by (auto split: sum.splits)
  qed
qed simp

text \<open>The same for the step relation.\<close>

lemma sd_step_inv:
  assumes "sd_step w (r, buf, st) (r', buf', st')" and "kernel_ok w" and "sd_inv st" "length buf = LINE_SIZE"
  shows "r' = Suc r \<and> length buf' = LINE_SIZE \<and> sd_inv st' \<and> managed_change st st'"
  using assms(1) manage_round_inv [OF assms(2-4), of r] by (auto simp: sd_step_iff)

end
