(* ===== verification/SdProps.thy ===== *)
theory SdProps
  imports SdLines
begin

text \<open>
  What \<open>sd-idle\<close> guarantees: the options and their bounds, the set of managed disks, the life of the
  daemon, the meaning of a line of \<open>/proc/diskstats\<close>, when a disk is stopped and how, the messages,
  and the places where the code goes wrong.
\<close>

unbundle bit_operations_syntax

section \<open>The kernel version\<close>

text \<open>The check of the kernel version lets exactly those releases pass whose third character is
  a 6, although the message asks for 2.6: the major version is not looked at.\<close>

theorem check_linux_version_iff:
  "(\<exists>st'. check_linux_version w st = Inr st') \<longleftrightarrow>
    (\<exists>a b r. uts_release w = Some (a # b # CHR ''6'' # r))"
proof (cases "uts_release w")
  case (Some s)
  consider "s = []" | a where "s = [a]" | a b where "s = [a, b]" | a b c r where "s = a # b # c # r"
    by (metis list.exhaust)
  then show ?thesis by cases (simp_all add: check_linux_version_def Some numeral_2_eq_2 numeral_3_eq_3)
qed (simp add: check_linux_version_def)

section \<open>The managed disks\<close>

definition disk_set :: "u32 \<Rightarrow> nat set" where
  "disk_set m = {b. bit m b}"

text \<open>The disks named by the letters of a string.\<close>

definition letters :: "string \<Rightarrow> nat set" where
  "letters s = {of_char c - 97 | c. c \<in> set s \<and> CHR ''a'' \<le> c \<and> c \<le> CHR ''z''}"

lemma letters_Cons:
  "letters (c # s) = (if c < CHR ''a'' \<or> CHR ''z'' < c then {} else {of_char c - 97}) \<union> letters s"
  by (auto simp: letters_def not_less)

lemma letters_less: "\<not> (c < CHR ''a'' \<or> CHR ''z'' < c) \<Longrightarrow> of_char c - 97 < (32 :: nat)"
  unfolding less_char_def by simp linarith

lemma set_disk_chars_spec:
  "disk_set (managing (set_disk_chars inc s st)) =
     (if inc then disk_set (managing st) \<union> letters s else disk_set (managing st) - letters s) \<and>
   only_events (st\<lparr>managing := managing (set_disk_chars inc s st)\<rparr>) (set_disk_chars inc s st)"
proof (induction inc s st rule: set_disk_chars.induct)
  case (1 inc st)
  then show ?case by (simp add: letters_def)
next
  case (2 inc c s st)
  show ?case
  proof (cases "c < CHR ''a'' \<or> CHR ''z'' < c")
    case True
    let ?st = "sd_log LOG_WARNING (''Invalid disk: '' @ [c] @ ''; must be among [a-z]; ignoring'') st"
    let ?m = "managing (set_disk_chars inc s ?st)"
    have "only_events (st\<lparr>managing := ?m\<rparr>) (?st\<lparr>managing := ?m\<rparr>)"
      by (auto simp: only_events_def sd_log_def record_event_def)
    with 2(1) [OF True] True show ?thesis
      by (auto simp: letters_Cons intro: only_events_trans)
  next
    case False
    with 2(2) [OF False] 2(3) [OF False] letters_less [OF False] show ?thesis
      by (cases inc) (auto simp: letters_Cons disk_set_def)
  qed
qed

lemma disk_set_empty: "disk_set m = {} \<longleftrightarrow> m = 0"
  by (auto simp: disk_set_def intro: bit_word_eqI)

text \<open>C34: the argument of \<open>-d\<close>: an empty one changes nothing, one that starts with \<open>!\<close> takes the named
  disks out, any other one manages exactly the named disks; characters outside a-z are skipped. The
  daemon gives up, with status 1, exactly when nothing is left in the set (of 32 bits).\<close>

theorem set_disks_spec:
  "let wanted = (if s = [] then disk_set (managing st)
       else if hd s = CHR ''!'' then disk_set (managing st) - letters (tl s) else letters s) in
   case set_disks s st of
     Inl (st', code) \<Rightarrow> code = 1 \<and> s \<noteq> [] \<and> wanted = {}
   | Inr st' \<Rightarrow> disk_set (managing st') = wanted \<and> \<not> (s \<noteq> [] \<and> wanted = {}) \<and>
       idletime st' = idletime st \<and> checktime st' = checktime st \<and> spinning st' = spinning st"
proof (cases "s = []")
  case False
  let ?a = "set_disk_chars False (tl s) st" and ?b = "set_disk_chars True s (st\<lparr>managing := 0\<rparr>)"
  have "disk_set (managing ?a) = disk_set (managing st) - letters (tl s)"
    "disk_set (managing ?b) = letters s"
    using set_disk_chars_spec [of False "tl s" st] set_disk_chars_spec [of True s "st\<lparr>managing := 0\<rparr>"]
      disk_set_empty [of 0] by simp_all
  moreover have "idletime ?a = idletime st \<and> checktime ?a = checktime st \<and> spinning ?a = spinning st"
    "idletime ?b = idletime st \<and> checktime ?b = checktime st \<and> spinning ?b = spinning st"
    using set_disk_chars_spec [of False "tl s" st, THEN conjunct2, THEN only_events_frame]
      set_disk_chars_spec [of True s "st\<lparr>managing := 0\<rparr>", THEN conjunct2, THEN only_events_frame]
    by simp_all
  moreover note disk_set_empty [of "managing ?a"] disk_set_empty [of "managing ?b"]
  ultimately show ?thesis using False by (auto simp: set_disks_def Let_def)
qed (simp add: set_disks_def)

text \<open>Excluding every disk is not recognised as an empty selection: the initial set has 32 bits,
  of which 26 can be taken out, so the daemon goes on and manages no disk at all.\<close>

theorem exclude_all_goes_on:
  "\<exists>st'. set_disks ''!abcdefghijklmnopqrstuvwxyz'' sd_init = Inr st' \<and>
    managing st' = 0xFC000000 \<and> disk_set (managing st') \<inter> {..<26} = {}"
proof -
  let ?a = "''abcdefghijklmnopqrstuvwxyz''"
  have m: "managing (set_disk_chars False ?a sd_init) = 0xFC000000"
    by (simp add: sd_init_def bit_clear_def less_char_def)
  have "disk_set (managing (set_disk_chars False ?a sd_init)) \<inter> {..<26} = {}"
  proof -
    have "\<not> bit (push_bit 26 63 :: u32) b" if "b < 26" for b
      using that by (simp only: bit_push_bit_iff) simp
    moreover have "push_bit 26 63 = (0xFC000000 :: u32)" by simp
    ultimately show ?thesis unfolding m disk_set_def by auto
  qed
  with m show ?thesis by (simp add: set_disks_def Let_def)
qed


section \<open>The times\<close>

text \<open>What a user writes in decimal is what the daemon uses: for a number of seconds within the
  limits the text of the number, given to \<open>-i\<close> and \<open>-c\<close>, sets exactly that time.\<close>

theorem set_times_roundtrip:
  assumes "32 \<le> lb" and "n < 2 ^ 31" and "300 \<le> n" and "k < 2 ^ 31" and "5 \<le> k"
  shows "idletime (set_idletime lb (show_int n) st) = n \<and> checktime (set_checktime lb (show_int k) st) = k"
proof -
  have in_n: "in_s32 n" and in_k: "in_s32 k" using assms by (simp_all add: in_s32_def)
  have "strtol lb 10 (show_int n) = (n, [])" "strtol lb 10 (show_int k) = (k, [])"
    using strtol_show_nat [of n lb] strtol_show_nat [of k lb] in_n in_k assms by simp_all
  then show ?thesis using in_n in_k assms
    by (simp add: set_idletime_def set_checktime_def Let_def sd_constants)
qed

theorem set_times_roundtrip_witness:
  "idletime (set_idletime 32 (show_int 600) sd_init) = 600 \<and>
   checktime (set_checktime 32 (show_int 10) sd_init) = 10"
  by (rule set_times_roundtrip) simp_all

section \<open>The options establish the invariant\<close>

lemma sd_arrays_same:
  "idletimes st' = idletimes st \<Longrightarrow> transtimes st' = transtimes st \<Longrightarrow> diskstats st' = diskstats st \<Longrightarrow>
    sd_arrays st' = sd_arrays st"
  by (simp add: sd_arrays_def)

lemma set_disk_chars_arrays: "sd_arrays (set_disk_chars inc s st) = sd_arrays st"
  using set_disk_chars_spec [of inc s st, THEN conjunct2, THEN only_events_frame]
  by (intro sd_arrays_same) simp_all

lemma set_disk_chars_config: "sd_config_ok (set_disk_chars inc s st) = sd_config_ok st"
  using set_disk_chars_spec [of inc s st, THEN conjunct2, THEN only_events_frame]
  by (simp add: sd_config_ok_def)

lemma set_disks_inv: "set_disks s st = Inr st' \<Longrightarrow> sd_inv st \<Longrightarrow> sd_inv st'"
  by (auto simp: set_disks_def Let_def sd_inv_def set_disk_chars_arrays set_disk_chars_config
      split: if_splits) (simp_all add: sd_arrays_def sd_config_ok_def)

lemma set_times_frame:
  "sd_arrays (set_idletime lb arg st) = sd_arrays st" "checktime (set_idletime lb arg st) = checktime st"
  "sd_arrays (set_checktime lb arg st) = sd_arrays st" "idletime (set_checktime lb arg st) = idletime st"
  by (simp_all add: set_idletime_def set_checktime_def Let_def sd_arrays_def split: prod.split)

lemma set_times_range:
  "IDLETIME_MIN \<le> idletime (set_idletime lb arg st)" "in_s32 (idletime (set_idletime lb arg st))"
  "CHECKTIME_MIN \<le> checktime (set_checktime lb arg st)" "in_s32 (checktime (set_checktime lb arg st))"
  by (auto simp: set_idletime_def set_checktime_def Let_def sd_constants split: prod.split)
    (simp_all add: in_s32_def)

lemma set_times_inv:
  "sd_inv st \<Longrightarrow> sd_inv (set_idletime lb arg st)" "sd_inv st \<Longrightarrow> sd_inv (set_checktime lb arg st)"
  using set_times_frame [of lb arg st] set_times_range [of lb arg st]
  by (simp_all add: sd_inv_def sd_config_ok_def)

lemma sd_usage_exits: "\<exists>st'. sd_usage p code st = Inl (st', code)"
  by (simp add: sd_usage_def)

lemma get_param_exits: "get_param argv a opt st = Inl e \<Longrightarrow> snd e = 1"
  by (auto simp: get_param_def split: if_splits)

lemma set_disks_exits: "set_disks s st = Inl e \<Longrightarrow> snd e = 1"
  by (auto simp: set_disks_def Let_def split: if_splits)

text \<open>What every option keeps, the whole command line keeps; an error ends with status 1.\<close>

lemma scan_options_keeps:
  assumes d: "\<And>s st st'. P st \<Longrightarrow> set_disks s st = Inr st' \<Longrightarrow> P st'"
    and i: "\<And>s st. P st \<Longrightarrow> P (set_idletime lb s st)"
    and c: "\<And>s st. P st \<Longrightarrow> P (set_checktime lb s st)"
  shows "P st \<Longrightarrow> case scan_options lb argv a st of Inl e \<Rightarrow> snd e = 1 | Inr st' \<Rightarrow> P st'"
proof (induction "length argv - a" arbitrary: a st rule: less_induct)
  case less
  note unfold = scan_options.simps [of lb argv a st]
  show ?case
  proof (cases "a < length argv")
    case False
    with less.prems show ?thesis unfolding unfold by simp
  next
    case True
    have next_ok: "case scan_options lb argv (a + 2) st1 of Inl e \<Rightarrow> snd e = 1 | Inr st' \<Rightarrow> P st'"
      if "P st1" for st1
      using True that by (intro less.hyps) simp_all
    then have next_d: "case scan_options lb argv (a + 2) st1 of Inl e \<Rightarrow> snd e = 1 | Inr st' \<Rightarrow> P st'"
      if "set_disks p st = Inr st1" for p st1
      using d [OF less.prems that] by blast
    obtain u where u: "sd_usage (argv ! 0) 1 (sd_log LOG_ERR
        (''Unknown option: '' @ argv ! a @ ''; exiting'') st) = Inl (u, 1)"
      using sd_usage_exits by blast
    show ?thesis
      unfolding unfold if_P [OF True] u
      using next_ok [OF i [OF less.prems]] next_ok [OF c [OF less.prems]]
      by (simp split: sum.split) (auto dest!: next_d dest: get_param_exits set_disks_exits)
  qed
qed

lemma sd_init_inv: "sd_inv sd_init"
  by (simp add: sd_inv_def sd_arrays_def sd_config_ok_def sd_init_def sd_constants in_s32_def
      list_all_length)

lemma scan_help_cases:
  "scan_help p args st = Inr st \<or> (\<exists>st'. scan_help p args st = Inl (st', 0))"
  using sd_usage_exits [of p 0] by (induction args) auto

text \<open>The same for everything up to the call of \<open>_manage\<close>, which adds entries to the log.\<close>

lemma sd_start_keeps:
  assumes d: "\<And>s st st'. P st \<Longrightarrow> set_disks s st = Inr st' \<Longrightarrow> P st'"
    and i: "\<And>lb s st. P st \<Longrightarrow> P (set_idletime lb s st)"
    and c: "\<And>lb s st. P st \<Longrightarrow> P (set_checktime lb s st)"
    and ev: "\<And>e st. P st \<Longrightarrow> \<not> is_device e \<Longrightarrow> P (record_event e st)"
    and init: "P sd_init"
  shows "case sd_start w argv of Inl e \<Rightarrow> snd e = 0 \<or> snd e = 1 | Inr st \<Rightarrow> P st"
proof -
  let ?st = "record_event (OpenLog (basename (argv ! 0))) sd_init"
  have 1: "P ?st" by (rule ev [OF init]) simp
  have log: "P (sd_log l m s)" if "P s" for l m s using ev [OF that] by (simp add: sd_log_def)
  consider e where "check_linux_version w ?st = Inl (e, 1)" | "check_linux_version w ?st = Inr ?st"
    by (fastforce simp: check_linux_version_def split: option.splits)
  then show ?thesis
  proof cases
    case 1
    then show ?thesis by (simp add: sd_start_def Let_def)
  next
    case 2
    have "case scan_options (sd_long_bits w) argv 1 ?st of Inl e \<Rightarrow> snd e = 1 | Inr st' \<Rightarrow> P st'"
      by (rule scan_options_keeps [OF d i c 1])
    then have "case parse_options (sd_long_bits w) argv ?st of
        Inl e \<Rightarrow> snd e = 0 \<or> snd e = 1 | Inr st' \<Rightarrow> P st'"
      using scan_help_cases [of "argv ! 0" "tl argv" ?st]
      by (auto simp: parse_options_def split: sum.splits)
    moreover have "P (sd_log LOG_INFO ''initialized'' (record_event Daemon s))" if "P s" for s
      using log [OF ev [OF that]] by simp
    ultimately show ?thesis using 2 by (auto simp: sd_start_def Let_def split: sum.splits)
  qed
qed

lemma sd_start_inv:
  "case sd_start w argv of Inl (st, code) \<Rightarrow> code = 0 \<or> code = 1 | Inr st \<Rightarrow> sd_inv st"
proof -
  have "only_events s (record_event e s)" for s e by (simp add: only_events_record)
  then have "case sd_start w argv of Inl e \<Rightarrow> snd e = 0 \<or> snd e = 1 | Inr st \<Rightarrow> sd_inv st"
    using set_disks_inv set_times_inv only_events_inv sd_init_inv by (intro sd_start_keeps) blast+
  then show ?thesis by (auto split: sum.splits)
qed

text \<open>The daemon starts with all disks spinning, no idle time, no statistics and no device opened.\<close>

definition fresh :: "sd_state \<Rightarrow> bool" where
  "fresh st \<longleftrightarrow> idletimes st = replicate 26 0 \<and> diskstats st = replicate 26 [] \<and> spinning st = - 1 \<and>
     dev_events st = []"

lemma dev_events_config [simp]:
  "dev_events (st\<lparr>managing := m\<rparr>) = dev_events st" "dev_events (st\<lparr>idletime := t\<rparr>) = dev_events st"
  "dev_events (st\<lparr>checktime := t\<rparr>) = dev_events st"
  by (simp_all add: dev_events_def)

lemma fresh_set_disks: "fresh st \<Longrightarrow> set_disks s st = Inr st' \<Longrightarrow> fresh st'"
proof -
  have chars: "dev_events (set_disk_chars inc s st) = dev_events st" for inc s st
    by (induction inc s st rule: set_disk_chars.induct) simp_all
  have f: "fresh (set_disk_chars inc s (st\<lparr>managing := m\<rparr>)) = fresh st" for inc s st m
    using set_disk_chars_spec [of inc s "st\<lparr>managing := m\<rparr>", THEN conjunct2, THEN only_events_frame]
    by (simp add: fresh_def chars)
  from f [where st = st and m = "managing st"] f [where st = st and m = 0]
  show "fresh st'" if "fresh st" "set_disks s st = Inr st'"
    using that by (auto simp: set_disks_def Let_def split: if_splits)
qed

lemma sd_start_fresh: "sd_start w argv = Inr st \<Longrightarrow> fresh st"
proof -
  assume start: "sd_start w argv = Inr st"
  have "fresh (set_idletime lb s st)" "fresh (set_checktime lb s st)" if "fresh st" for lb s st
    using that by (simp_all add: fresh_def set_idletime_def set_checktime_def Let_def split: prod.split)
  moreover have "fresh (record_event e st)" if "fresh st" "\<not> is_device e" for e st
    using that by (simp add: fresh_def)
  moreover have "fresh sd_init" by (simp add: fresh_def sd_init_def dev_events_def)
  ultimately have "case sd_start w argv of Inl e \<Rightarrow> snd e = 0 \<or> snd e = 1 | Inr st \<Rightarrow> fresh st"
    using fresh_set_disks by (intro sd_start_keeps) blast+
  with start show ?thesis by simp
qed

end
