(* ===== verification/SdSense.thy ===== *)
theory SdSense
  imports SdLines
begin

text \<open>
  The one place where a run of \<open>sd-idle\<close> can leave its memory although every line is plain: when \<open>SG_IO\<close>
  fails, \<open>_disk_stop\<close> prints the sense buffer with \<open>%s\<close>, an array on the stack that only the kernel may
  have written to. Runs are compared with those in a world whose sense buffers are strings: they agree
  up to the first failed call that leaves a buffer without a NUL.
\<close>

unbundle bit_operations_syntax

section \<open>Two worlds\<close>

text \<open>The call \<open>n\<close>, if it is the stop command, fails and leaves no NUL in the buffer.\<close>

definition spoilt :: "sd_world \<Rightarrow> nat \<Rightarrow> bool" where
  "spoilt w n \<longleftrightarrow> (case sg_io w n stop_header of (rc, hdr, sense) \<Rightarrow> rc < 0 \<and> sense_string sense = None)"

text \<open>The same world with buffers that are strings.\<close>

definition mend :: "sd_world \<Rightarrow> sd_world" where
  "mend w = w\<lparr>sg_io := (\<lambda>n h. case sg_io w n h of (rc, hdr, sense) \<Rightarrow>
     (rc, hdr, if sense_string sense = None then (\<lambda>_. NUL) else sense))\<rparr>"

lemma mend_simps [simp]:
  "clock (mend w) = clock w" "open_fd (mend w) = open_fd w" "errno_text (mend w) = errno_text w"
  "errno_number (mend w) = errno_number w" "proc_diskstats (mend w) = proc_diskstats w"
  "uts_release (mend w) = uts_release w" "sd_long_bits (mend w) = sd_long_bits w"
  "uninit_line (mend w) = uninit_line w"
  by (simp_all add: mend_def)

lemma sense_string_NUL [simp]: "sense_string (\<lambda>_. NUL) \<noteq> None"
proof -
  have "map (\<lambda>_. NUL) [0..<255] = [] @ NUL # map (\<lambda>_. NUL) [0..<254]"
    by (simp add: map_replicate_const flip: replicate_Suc)
  then show ?thesis by (simp add: sense_string_def Let_def terminated_def)
qed

lemma mend_ok: "plain_kernel w \<Longrightarrow> kernel_ok (mend w)"
  by (auto simp: kernel_ok_def plain_kernel_def sense_ok_def mend_def split: prod.splits)

section \<open>Agreement\<close>

text \<open>The result \<open>r\<close> of a computation in the world is the result \<open>r'\<close> in the mended one, or it stops at a
  call made on the way; \<open>c\<close> reads the number of calls off a result.\<close>

definition spoilt_in :: "sd_world \<Rightarrow> nat \<Rightarrow> nat \<Rightarrow> bool" where
  "spoilt_in w a b \<longleftrightarrow> (\<exists>k. a \<le> k \<and> k < b \<and> spoilt w k)"

lemma spoilt_in_mono: "spoilt_in w a b \<Longrightarrow> a' \<le> a \<Longrightarrow> b \<le> b' \<Longrightarrow> spoilt_in w a' b'"
  unfolding spoilt_in_def by (meson le_trans less_le_trans)

definition agrees :: "sd_world \<Rightarrow> ('a \<Rightarrow> nat) \<Rightarrow> nat \<Rightarrow> 'a option \<Rightarrow> 'a option \<Rightarrow> bool" where
  "agrees w c n r r' \<longleftrightarrow>
     (case r' of
        None \<Rightarrow> r = None
      | Some x \<Rightarrow> n \<le> c x \<and> (r = Some x \<or> r = None \<and> spoilt_in w n (c x)))"

lemma agrees_same: "(\<And>x. r = Some x \<Longrightarrow> n \<le> c x) \<Longrightarrow> agrees w c n r r"
  by (simp add: agrees_def split: option.split)

lemma agrees_result [simp]: "agrees w c n None None" "agrees w c n (Some x) (Some x) \<longleftrightarrow> n \<le> c x"
  by (simp_all add: agrees_def)

lemma agrees_bind:
  assumes "agrees w c n r r'" and "\<And>x. r' = Some x \<Longrightarrow> agrees w c' (c x) (f x) (f' x)"
  shows "agrees w c' n (Option.bind r f) (Option.bind r' f')"
proof (cases r')
  case None
  with assms(1) show ?thesis by (simp add: agrees_def)
next
  case (Some x)
  then have x: "n \<le> c x" "r = Some x \<or> r = None \<and> spoilt_in w n (c x)"
    using assms(1) by (simp_all add: agrees_def)
  show ?thesis
  proof (cases "f' x")
    case None
    with assms(2) [OF Some] x Some show ?thesis by (auto simp: agrees_def)
  next
    case (Some y)
    then have y: "c x \<le> c' y" "f x = Some y \<or> f x = None \<and> spoilt_in w (c x) (c' y)"
      using assms(2) [OF \<open>r' = Some x\<close>] by (simp_all add: agrees_def)
    have "spoilt_in w n (c' y)" if "r = None \<or> f x = None"
      using that x y by (auto intro: spoilt_in_mono)
    with x y Some \<open>r' = Some x\<close> show ?thesis by (cases r) (auto simp: agrees_def)
  qed
qed

lemma agrees_start: "agrees w c m r r' \<Longrightarrow> n \<le> m \<Longrightarrow> agrees w c n r r'"
  by (auto simp: agrees_def split: option.split intro: spoilt_in_mono)

lemma case_option_bind: "(case r of None \<Rightarrow> None | Some x \<Rightarrow> f x) = Option.bind r f"
  by (cases r) simp_all

section \<open>The operations\<close>

lemma calls_log [simp]: "calls (sd_log l m st) = calls st" "calls (record_event e st) = calls st"
  by (simp_all add: sd_log_def record_event_def)

lemma disk_stop_calls: "disk_stop w d st = Some st' \<Longrightarrow> calls st \<le> calls st'"
  by (auto simp: disk_stop_def Let_def split: if_splits prod.splits bind_splits)

lemma disk_stop_agrees: "agrees w calls (calls st) (disk_stop w d st) (disk_stop (mend w) d st)"
proof (cases "open_fd w (calls st) (device_name d) < 0")
  case True
  then have "disk_stop (mend w) d st = disk_stop w d st" by (simp add: disk_stop_def Let_def)
  with True show ?thesis by (auto simp: disk_stop_def Let_def intro!: agrees_same)
next
  case False
  obtain rc hdr sense where io: "sg_io w (Suc (calls st)) stop_header = (rc, hdr, sense)"
    by (metis prod.exhaust)
  then have io': "sg_io (mend w) (Suc (calls st)) stop_header =
      (rc, hdr, if sense_string sense = None then (\<lambda>_. NUL) else sense)"
    by (simp add: mend_def)
  show ?thesis
  proof (cases "rc < 0 \<and> sense_string sense = None")
    case True
    then have sp: "spoilt w (Suc (calls st))" by (simp add: spoilt_def io)
    obtain z where z: "sense_string (\<lambda>_. NUL) = Some z" using sense_string_NUL by blast
    have "disk_stop w d st = None" using True False io by (simp add: disk_stop_def Let_def)
    moreover have "\<exists>st'. disk_stop (mend w) d st = Some st' \<and> calls st' = Suc (Suc (calls st))"
      using True False io' z by (simp add: disk_stop_def Let_def)
    moreover have "spoilt_in w (calls st) (Suc (Suc (calls st)))" using sp unfolding spoilt_in_def
      by (intro exI [of _ "Suc (calls st)"]) simp
    ultimately show ?thesis by (auto simp: agrees_def)
  next
    case fine: False
    then have "disk_stop (mend w) d st = disk_stop w d st"
      using io io' False by (cases "rc < 0"; cases "sense_string sense = None") (simp_all add: disk_stop_def Let_def)
    then show ?thesis by (simp add: agrees_same disk_stop_calls)
  qed
qed

lemma transition_message_mend [simp]: "transition_message (mend w) d dir st = transition_message w d dir st"
  by (simp add: transition_message_def)

lemma transition_message_calls: "transition_message w d dir st = Some (m, st') \<Longrightarrow> calls st' = Suc (calls st)"
  by (auto simp: transition_message_def Let_def split: if_splits)

lemma disk_active_agrees: "agrees w calls (calls st) (disk_active w d l st) (disk_active (mend w) d l st)"
proof -
  have "disk_active (mend w) d l st = disk_active w d l st" by (simp add: disk_active_def)
  moreover have "calls st \<le> calls st'" if "disk_active w d l st = Some st'" for st'
    using that transition_message_calls
    by (fastforce simp: disk_active_def Let_def split: if_splits option.splits prod.splits bind_splits)
  ultimately show ?thesis by (auto intro!: agrees_same)
qed

lemma disk_idle_agrees: "agrees w calls (calls st) (disk_idle w d st) (disk_idle (mend w) d st)"
proof -
  let ?st = "st\<lparr>idletimes := (idletimes st)[d := s32 (idletimes st ! d + checktime st)]\<rparr>"
  show ?thesis
  proof (cases "is_bit_clear (spinning ?st) d \<or> idletime ?st > idletimes ?st ! d")
    case True
    then show ?thesis unfolding disk_idle_def Let_def by (auto intro!: agrees_same)
  next
    case False
    have "agrees w calls (calls st)
      (transition_message w d ''down'' ?st \<bind> (\<lambda>(m, s). disk_stop w d (sd_log LOG_INFO m s) \<bind>
          (\<lambda>s. Some (s\<lparr>spinning := bit_clear (spinning s) d\<rparr>))))
      (transition_message w d ''down'' ?st \<bind> (\<lambda>(m, s). disk_stop (mend w) d (sd_log LOG_INFO m s) \<bind>
          (\<lambda>s. Some (s\<lparr>spinning := bit_clear (spinning s) d\<rparr>))))"
    proof (rule agrees_bind [where c = "\<lambda>(m, s). calls s"])
      show "agrees w (\<lambda>(m, s). calls s) (calls st) (transition_message w d ''down'' ?st) (transition_message w d ''down'' ?st)"
        by (rule agrees_same) (auto dest: transition_message_calls)
    next
      fix x assume "transition_message w d ''down'' ?st = Some x"
      obtain m s where x: "x = (m, s)" by fastforce
      show "agrees w calls (case x of (m, s) \<Rightarrow> calls s)
        (case x of (m, s) \<Rightarrow> disk_stop w d (sd_log LOG_INFO m s) \<bind> (\<lambda>s. Some (s\<lparr>spinning := bit_clear (spinning s) d\<rparr>)))
        (case x of (m, s) \<Rightarrow> disk_stop (mend w) d (sd_log LOG_INFO m s) \<bind> (\<lambda>s. Some (s\<lparr>spinning := bit_clear (spinning s) d\<rparr>)))"
        unfolding x prod.case
        by (rule agrees_bind [where c = calls]) (use disk_stop_agrees [of w "sd_log LOG_INFO m s" d] in \<open>auto intro: agrees_same\<close>)
    qed
    then show ?thesis using False unfolding disk_idle_def Let_def by simp
  qed
qed

lemmas disk_agrees = disk_active_agrees disk_idle_agrees

lemma manage_disk_agrees: "agrees w calls (calls st) (manage_disk w buf k d st) (manage_disk (mend w) buf k d st)"
proof (cases "find_io buf k 8")
  case (Some io)
  show ?thesis
  proof (cases io)
    case None
    with Some show ?thesis by (auto simp: manage_disk_def intro!: agrees_same)
  next
    case (Some j)
    with \<open>find_io buf k 8 = Some io\<close> show ?thesis
      by (cases "read_at buf (Suc j)") (auto simp: manage_disk_def disk_agrees intro: agrees_same)
  qed
qed (auto simp: manage_disk_def intro: agrees_same)

lemma manage_line_agrees:
  "agrees w calls (calls st) (manage_diskstats_line w buf st) (manage_diskstats_line (mend w) buf st)"
  using manage_disk_agrees by (auto simp: manage_diskstats_line_def Let_def split: option.split bind_split)

definition result_calls :: "(string \<times> sd_state) exits \<Rightarrow> nat" where
  "result_calls x = (case x of Inl (st, code) \<Rightarrow> calls st | Inr (buf, st) \<Rightarrow> calls st)"

lemma manage_lines_agrees:
  "agrees w (\<lambda>(b, s). calls s) (calls st) (manage_lines w c buf st) (manage_lines (mend w) c buf st)"
proof (induction c arbitrary: buf st rule: length_induct)
  case (1 c)
  show ?case
  proof (cases "fgets_buf LINE_SIZE buf c")
    case None
    then show ?thesis by (subst (1 2) manage_lines.simps) simp
  next
    case (Some x)
    obtain b rest where x: "x = (b, rest)" by fastforce
    with Some have "length rest < length c" by (auto elim!: fgets_buf_SomeE dest: sd_in.shorter)
    with 1 have "agrees w (\<lambda>(b, s). calls s) (calls st') (manage_lines w rest b st') (manage_lines (mend w) rest b st')"
      for st' by blast
    from agrees_bind [OF manage_line_agrees this] show ?thesis
      using Some x by (simp add: manage_lines.simps [of _ c] case_option_bind)
  qed
qed

section \<open>Rounds and runs\<close>

lemma manage_round_agrees:
  "agrees w result_calls (calls st) (manage_round w r (buf, st)) (manage_round (mend w) r (buf, st))"
proof (cases "proc_diskstats w r")
  case None
  then show ?thesis by (auto simp: manage_round_def result_calls_def intro!: agrees_same)
next
  case (Some c)
  have "agrees w result_calls (case x of (b, st') \<Rightarrow> calls st')
      (case x of (b, st') \<Rightarrow> Some (Inr (b, record_event (Sleep (checktime st')) st')))
      (case x of (b, st') \<Rightarrow> Some (Inr (b, record_event (Sleep (checktime st')) st')))" for x :: "string \<times> sd_state"
    by (cases x) (simp add: agrees_def result_calls_def)
  from agrees_bind [OF manage_lines_agrees this] Some show ?thesis
    by (simp add: manage_round_def case_option_bind)
qed

lemma manage_rounds_agrees:
  "agrees w result_calls (calls st) (manage_rounds w r n (buf, st)) (manage_rounds (mend w) r n (buf, st))"
proof (induction n arbitrary: r buf st)
  case 0
  then show ?case by (simp add: agrees_def result_calls_def)
next
  case (Suc n)
  have "agrees w result_calls (result_calls x)
      (case x of Inl e \<Rightarrow> Some (Inl e) | Inr s' \<Rightarrow> manage_rounds w (Suc r) n s')
      (case x of Inl e \<Rightarrow> Some (Inl e) | Inr s' \<Rightarrow> manage_rounds (mend w) (Suc r) n s')" for x
  proof (cases x)
    case (Inr y)
    obtain b s where "y = (b, s)" by fastforce
    then have "result_calls x = calls s" by (simp add: Inr result_calls_def)
    with Inr Suc.IH [of s "Suc r" b] show ?thesis by (simp add: \<open>y = (b, s)\<close>)
  qed simp
  from agrees_bind [OF manage_round_agrees this] have
    "agrees w result_calls (calls st)
      (manage_round w r (buf, st) \<bind> (\<lambda>x. case x of Inl e \<Rightarrow> Some (Inl e) | Inr s' \<Rightarrow> manage_rounds w (Suc r) n s'))
      (manage_round (mend w) r (buf, st) \<bind> (\<lambda>x. case x of Inl e \<Rightarrow> Some (Inl e) | Inr s' \<Rightarrow> manage_rounds (mend w) (Suc r) n s'))" .
  moreover have *: "(case m of None \<Rightarrow> None | Some (Inl e) \<Rightarrow> Some (Inl e) | Some (Inr s') \<Rightarrow> f s') =
      m \<bind> (\<lambda>x. case x of Inl e \<Rightarrow> Some (Inl e) | Inr s' \<Rightarrow> f s')" for m :: "('e + 's) option" and f
    by (simp split: option.split sum.split)
  ultimately show ?case unfolding manage_rounds.simps * by blast
qed

lemma sd_start_mend [simp]: "sd_start (mend w) argv = sd_start w argv"
  unfolding sd_start_def check_linux_version_def mend_simps by (rule refl)

text \<open>A run is the run with buffers that are strings, or it stops at a failed call it made.\<close>

lemma sd_main_mend:
  assumes "sd_main (mend w) argv n = Some x"
  shows "sd_main w argv n = Some x \<or> sd_main w argv n = None \<and> (\<exists>k < result_calls x. spoilt w k)"
proof (cases "sd_start w argv")
  case (Inl e)
  with assms show ?thesis by (simp add: sd_main_def)
next
  case (Inr st)
  with assms manage_rounds_agrees [of w st 0 n "map (uninit_line w) [0..<LINE_SIZE]"] show ?thesis
    by (auto simp: sd_main_def agrees_def spoilt_in_def)
qed

lemma manage_round_mend: "manage_round w r s = Some x \<Longrightarrow> manage_round (mend w) r s = Some x"
  using manage_round_agrees [of w "snd s" r "fst s"] by (auto simp: agrees_def split: option.splits)

lemma sd_step_mend: "sd_step w s s' \<Longrightarrow> sd_step (mend w) s s'"
  by (cases s; cases s') (simp add: sd_step_iff manage_round_mend)

lemma sd_steps_mend: "(sd_step w)\<^sup>*\<^sup>* s s' \<Longrightarrow> (sd_step (mend w))\<^sup>*\<^sup>* s s'"
  by (rule rtranclp_mono [THEN predicate2D]) (auto simp: le_fun_def sd_step_mend)

end
