(* ===== verification/SdLife.thy ===== *)
theory SdLife
  imports SdProps SdSense
begin

text \<open>
  The running daemon: whole runs and reachable states, the meaning of a line, when and how a disk is
  stopped, the messages, and where a line that fills the buffer leads.
\<close>

unbundle bit_operations_syntax

section \<open>Runs and reachable states\<close>

definition demo_kernel :: sd_world where
  "demo_kernel =
     \<lparr>clock = int, open_fd = (\<lambda>_ _. 3), sg_io = (\<lambda>_ h. (0, h, \<lambda>_. NUL)), errno_text = (\<lambda>_. ''error''),
      errno_number = (\<lambda>_. 2),
      proc_diskstats = (\<lambda>_. Some (diskstats_text [''8 0 sda 1 2 3 4 5 6 7 8 0 10 11''])),
      uts_release = Some ''2.6.16'', sd_long_bits = 32, uninit_line = (\<lambda>_. NUL)\<rparr>"

lemma demo_kernel_ok: "kernel_ok demo_kernel" "plain_kernel demo_kernel"
proof -
  have "line_plain ''8 0 sda 1 2 3 4 5 6 7 8 0 10 11''" by (simp add: line_plain_def LINE_SIZE_def)
  then show "plain_kernel demo_kernel"
    by (auto simp: plain_kernel_def demo_kernel_def intro!: exI [of _ "[''8 0 sda 1 2 3 4 5 6 7 8 0 10 11'']"])
  then show "kernel_ok demo_kernel" by (simp add: kernel_ok_def sense_ok_def demo_kernel_def)
qed

lemma sd_main_runs:
  assumes "kernel_ok w"
  shows "\<exists>x. sd_main w argv n = Some x \<and>
    (case x of
       Inl (st, code) \<Rightarrow> code = 0 \<or> code = 1
     | Inr (buf, st) \<Rightarrow> length buf = LINE_SIZE \<and> 300 \<le> idletime st \<and> 5 \<le> checktime st \<and>
         list_all (\<lambda>l. length l < 160 \<and> nul_free l) (diskstats st))"
proof (cases "sd_start w argv")
  case (Inl e)
  with sd_start_inv [of w argv] show ?thesis by (auto simp: sd_main_def split: prod.splits)
next
  case (Inr st)
  then have inv: "sd_inv st" using sd_start_inv [of w argv] by simp
  have len: "length (map (uninit_line w) [0..<LINE_SIZE]) = LINE_SIZE" by simp
  obtain x where x: "manage_rounds w 0 n (map (uninit_line w) [0..<LINE_SIZE], st) = Some x"
    "case x of Inl (st', code) \<Rightarrow> code = 1 \<and> managed_change st st'
     | Inr (b, st') \<Rightarrow> length b = LINE_SIZE \<and> sd_inv st' \<and> managed_change st st'"
    using manage_rounds_inv [OF assms inv len, of 0 n] by blast
  from x(1) have "sd_main w argv n = Some x" by (simp add: sd_main_def Inr)
  with x(2) show ?thesis
    by (cases x) (auto simp: sd_inv_def sd_arrays_def sd_config_ok_def sd_constants split: prod.splits)
qed

text \<open>C2: when \<open>/proc/diskstats\<close> consists of lines of less than 254 characters, a run of the daemon, with
  any command line and for any number of rounds, can access memory outside its arrays at one place only:
  where it prints the sense buffer of a stop command that failed and that left no NUL in the buffer.
  Every other run, and that one as if its buffers were strings, ends with status 0 or 1 or is still going
  on with an idle time of at least 300 seconds, checks at least 5 seconds apart, and every stored line
  of statistics a string that fits its array.\<close>

theorem sd_main_safe:
  assumes "plain_kernel w"
  shows "\<exists>x. sd_main (mend w) argv n = Some x \<and>
    (sd_main w argv n = Some x \<or> sd_main w argv n = None \<and> (\<exists>k < result_calls x. spoilt w k)) \<and>
    (case x of
       Inl (st, code) \<Rightarrow> code = 0 \<or> code = 1
     | Inr (buf, st) \<Rightarrow> length buf = LINE_SIZE \<and> 300 \<le> idletime st \<and> 5 \<le> checktime st \<and>
         list_all (\<lambda>l. length l < 160 \<and> nul_free l) (diskstats st))"
proof -
  obtain x where x: "sd_main (mend w) argv n = Some x"
    "case x of
       Inl (st, code) \<Rightarrow> code = 0 \<or> code = 1
     | Inr (buf, st) \<Rightarrow> length buf = LINE_SIZE \<and> 300 \<le> idletime st \<and> 5 \<le> checktime st \<and>
         list_all (\<lambda>l. length l < 160 \<and> nul_free l) (diskstats st)"
    using sd_main_runs [OF mend_ok [OF assms], of argv n] by blast
  with sd_main_mend [OF x(1)] show ?thesis by blast
qed

theorem sd_main_safe_witness:
  "\<exists>x. sd_main (mend demo_kernel) [''sd-idle''] 2 = Some x \<and>
    (sd_main demo_kernel [''sd-idle''] 2 = Some x \<or>
     sd_main demo_kernel [''sd-idle''] 2 = None \<and> (\<exists>k < result_calls x. spoilt demo_kernel k)) \<and>
    (case x of
       Inl (st, code) \<Rightarrow> code = 0 \<or> code = 1
     | Inr (buf, st) \<Rightarrow> length buf = LINE_SIZE \<and> 300 \<le> idletime st \<and> 5 \<le> checktime st \<and>
         list_all (\<lambda>l. length l < 160 \<and> nul_free l) (diskstats st))"
  by (rule sd_main_safe [OF demo_kernel_ok(2)])

lemma reachable_inv:
  "(sd_step w)\<^sup>*\<^sup>* s s' \<Longrightarrow> s = (r, buf, st) \<Longrightarrow> kernel_ok w \<Longrightarrow> sd_inv st \<Longrightarrow> length buf = LINE_SIZE \<Longrightarrow>
    \<exists>r' buf' st'. s' = (r', buf', st') \<and> length buf' = LINE_SIZE \<and> sd_inv st' \<and> managed_change st st'"
proof (induction rule: rtranclp_induct)
  case (step s1 s2)
  then obtain r1 b1 st1 where 1: "s1 = (r1, b1, st1)" "length b1 = LINE_SIZE" "sd_inv st1"
    "managed_change st st1" by blast
  obtain r2 b2 st2 where s2: "s2 = (r2, b2, st2)" by (cases s2)
  from sd_step_inv [OF step(2) [unfolded 1(1) s2] step(5) 1(3,2)] managed_change_trans [OF 1(4)] s2
  show ?case by blast
qed simp

text \<open>C24: in every state the daemon reaches from its start, through any number of rounds, the options
  are those it started with, the state kept about a disk that is not managed is the initial one, and
  no device but those of managed disks was ever opened.\<close>

theorem reachable_managed:
  assumes "plain_kernel w" and "sd_start w argv = Inr st" and "length buf = LINE_SIZE"
    and "(sd_step w)\<^sup>*\<^sup>* (0, buf, st) (r, buf', st')" and "e < 26" and "\<not> bit (managing st) e"
  shows "idletime st' = idletime st \<and> checktime st' = checktime st \<and> managing st' = managing st \<and>
    idletimes st' ! e = idletimes st ! e \<and> diskstats st' ! e = diskstats st ! e \<and>
    (bit (spinning st') e \<longleftrightarrow> bit (spinning st) e) \<and>
    opened st' \<subseteq> opened st \<union> device_name ` {d. d < 26 \<and> bit (managing st) d}"
proof -
  have "sd_inv st" using sd_start_inv [of w argv] assms(2) by simp
  from reachable_inv [OF sd_steps_mend [OF assms(4)] refl mend_ok [OF assms(1)] this assms(3)] assms(5,6) show ?thesis
    by (auto simp: managed_change_def same_config_def same_disk_def)
qed

lemma demo_start:
  "\<exists>st. sd_start demo_kernel [''sd-idle'', ''-d'', ''b''] = Inr st \<and> managing st = 2 \<and> sd_inv st"
proof -
  let ?argv = "[''sd-idle'', ''-d'', ''b'']"
  let ?st = "record_event (OpenLog (basename (?argv ! 0))) sd_init"
  have "check_linux_version demo_kernel ?st = Inr ?st"
    by (simp add: check_linux_version_def demo_kernel_def numeral_2_eq_2)
  moreover have "scan_help (?argv ! 0) (tl ?argv) ?st = Inr ?st" by simp
  moreover have "set_disks ''b'' ?st = Inr (?st\<lparr>managing := 2\<rparr>)"
    by (simp add: set_disks_def less_char_def bit_set_def)
  then have "scan_options 32 ?argv 1 ?st = Inr (?st\<lparr>managing := 2\<rparr>)"
    by (simp add: scan_options.simps [of 32 ?argv "Suc 0"] get_param_def
        scan_options.simps [of 32 ?argv "Suc (Suc (Suc 0))"] numeral_2_eq_2 del: set_disk_chars.simps)
  ultimately have "\<exists>st. sd_start demo_kernel ?argv = Inr st \<and> managing st = 2"
    by (simp add: sd_start_def parse_options_def demo_kernel_def)
  then show ?thesis using sd_start_inv [of demo_kernel ?argv] by auto
qed

theorem reachable_managed_witness:
  "\<exists>st buf st'. sd_start demo_kernel [''sd-idle'', ''-d'', ''b''] = Inr st \<and>
    (sd_step demo_kernel)\<^sup>*\<^sup>* (0, replicate LINE_SIZE NUL, st) (1, buf, st') \<and>
    idletime st' = idletime st \<and> checktime st' = checktime st \<and> managing st' = managing st \<and>
    idletimes st' ! 0 = idletimes st ! 0 \<and> diskstats st' ! 0 = diskstats st ! 0 \<and>
    (bit (spinning st') 0 \<longleftrightarrow> bit (spinning st) 0) \<and>
    opened st' \<subseteq> opened st \<union> device_name ` {d. d < 26 \<and> bit (managing st) d}"
proof -
  obtain st where st: "sd_start demo_kernel [''sd-idle'', ''-d'', ''b''] = Inr st" "managing st = 2"
    "sd_inv st" using demo_start by blast
  have len: "length (replicate LINE_SIZE NUL) = LINE_SIZE" by simp
  have "proc_diskstats demo_kernel 0 \<noteq> None" by (simp add: demo_kernel_def)
  with manage_round_inv [OF demo_kernel_ok(1) st(3) len, of 0] obtain b st' where
    "manage_round demo_kernel 0 (replicate LINE_SIZE NUL, st) = Some (Inr (b, st'))" by blast
  then have "sd_step demo_kernel (0, replicate LINE_SIZE NUL, st) (1, b, st')" by (simp add: sd_step_iff)
  then have run: "(sd_step demo_kernel)\<^sup>*\<^sup>* (0, replicate LINE_SIZE NUL, st) (1, b, st')" by blast
  have "\<not> bit (managing st) 0" using st(2) by simp
  have "(0::nat) < 26" by simp
  from reachable_managed [OF demo_kernel_ok(2) st(1) len run this \<open>\<not> bit (managing st) 0\<close>] st(1) run
  show ?thesis by blast
qed

section \<open>The meaning of a line\<close>

text \<open>C21: what the scans over the line buffer (\<open>strstr\<close>, the character tests at \<open>sd [3]\<close> and \<open>sd [4]\<close>,
  eight times \<open>strchr\<close>, \<open>strcmp\<close>) compute is the effect of the line as a string: it does not depend
  on what the buffer holds behind the line, and no access leaves the buffer.\<close>

theorem manage_line_refines:
  assumes "newline \<notin> set l" and "nul_free l" and "length l + 2 + length t = 256" and "t \<noteq> []"
  shows "manage_diskstats_line w (l @ newline # NUL # t) st = line_effect w (l @ [newline]) st"
proof -
  obtain y ys where "t = y # ys" using assms(4) by (cases t) auto
  then have "line_in l (l @ newline # NUL # t)"
    using assms(1-3) by (simp add: line_in_def line_plain_def LINE_SIZE_def)
  then show ?thesis by (rule manage_line_effect)
qed

theorem manage_line_refines_witness:
  "manage_diskstats_line demo_kernel (''8 0 sda 1'' @ newline # NUL # replicate 245 (CHR ''x'')) sd_init =
   line_effect demo_kernel (''8 0 sda 1'' @ [newline]) sd_init"
  by (rule manage_line_refines) simp_all

fun words :: "string list \<Rightarrow> string" where
  "words [] = []"
| "words [f] = f"
| "words (f # g # fs) = f @ CHR '' '' # words (g # fs)"

lemma after_blanks_step:
  "CHR '' '' \<notin> set f \<Longrightarrow> after_blanks (Suc n) (f @ CHR '' '' # s) = after_blanks n s"
proof -
  assume f: "CHR '' '' \<notin> set f"
  then have "dropWhile (\<lambda>c. c \<noteq> CHR '' '') (f @ CHR '' '' # s) = CHR '' '' # s"
    by (subst dropWhile_append2) auto
  then show ?thesis by simp
qed

lemma after_blanks_words:
  "\<forall>f \<in> set fs. CHR '' '' \<notin> set f \<Longrightarrow> n < length fs \<Longrightarrow>
    after_blanks n (words fs @ r) = Some (words (drop n fs) @ r)"
proof (induction fs arbitrary: n rule: words.induct)
  case (3 f g fs)
  then show ?case by (cases n) (auto simp: after_blanks_step simp del: after_blanks.simps(2))
qed (auto simp: less_Suc_eq)

lemma take_1_words: "fs \<noteq> [] \<Longrightarrow> hd fs \<noteq> [] \<Longrightarrow> take 1 (words fs @ r) = take 1 (hd fs)"
  by (induction fs rule: words.induct) (auto simp: neq_Nil_conv)

lemma strstr_device:
  assumes "CHR ''s'' \<notin> set p"
  shows "strstr (p @ '' sd'' @ r) '' sd'' = Some (length p)"
proof (rule strstr_found)
  let ?s = "p @ '' sd'' @ r"
  fix i assume i: "i < length p"
  have nth: "drop i ?s ! 1 = ?s ! Suc i" using i by (subst nth_drop) auto
  have "drop i ?s ! 1 \<noteq> CHR ''s''"
  proof (cases "Suc i < length p")
    case True
    then have "?s ! Suc i = p ! Suc i" by (subst nth_append) simp
    with True assms nth show ?thesis by (metis nth_mem)
  next
    case False
    with i have e: "Suc i = length p" by simp
    have "?s ! length p = CHR '' ''" by simp
    with nth show ?thesis unfolding e by simp
  qed
  moreover have "''s'' ! 0 = q ! 1" if "prefix '' sd'' q" for q
    using that by (auto simp: prefix_def)
  ultimately show "\<not> prefix '' sd'' (drop i ?s)" by fastforce
qed simp

text \<open>The statistics of the kernel: what follows the eighth blank behind the first word.\<close>

lemma after_blanks_stats:
  assumes "\<forall>f \<in> set ws. word_ok f" and "9 \<le> length ws"
  shows "\<exists>r. after_blanks 8 (tl (words ws @ [newline])) = Some r \<and> take 1 r = take 1 (ws ! 8)"
proof -
  have blanks: "\<forall>f \<in> set ws. CHR '' '' \<notin> set f" and ne: "\<forall>f \<in> set ws. f \<noteq> []"
    using assms(1) by (auto simp: word_ok_def)
  obtain f g fs where ws: "ws = f # g # fs"
    using assms(2) by (cases ws; cases "tl ws") auto
  have f: "f \<noteq> []" "CHR '' '' \<notin> set (tl f)" using blanks ne ws by (auto dest: list.set_sel(2))
  have "tl (words ws @ [newline]) = words (tl f # g # fs) @ [newline]" using f by (cases f) (simp_all add: ws)
  moreover have "\<forall>x \<in> set (tl f # g # fs). CHR '' '' \<notin> set x" using blanks f by (auto simp: ws)
  moreover have "8 < length (tl f # g # fs)" using assms(2) by (simp add: ws)
  ultimately have "after_blanks 8 (tl (words ws @ [newline])) = Some (words (drop 8 (tl f # g # fs)) @ [newline])"
    using after_blanks_words [of "tl f # g # fs" 8 "[newline]"] by simp
  moreover have "drop 8 (tl f # g # fs) = drop 8 ws" by (simp add: ws)
  moreover have "drop 8 ws \<noteq> []" "hd (drop 8 ws) = ws ! 8" "ws ! 8 \<noteq> []"
    using assms(2) ne by (simp_all add: hd_drop_conv_nth)
  then have "take 1 (words (drop 8 ws) @ [newline]) = take 1 (ws ! 8)"
    using take_1_words [of "drop 8 ws" "[newline]"] by simp
  ultimately show ?thesis by metis
qed

lemma kernel_line_effect:
  assumes "CHR ''s'' \<notin> set p" and "CHR ''a'' \<le> c" and "c \<le> CHR ''z''" and "\<forall>f \<in> set ws. word_ok f"
    and "9 \<le> length ws" and "bit (managing st) (of_char c - 97)"
    and "length p + 6 + length (words ws) < 160"
  shows "line_effect w (p @ '' sd'' @ c # '' '' @ words ws @ [newline]) st =
    (if take 1 (ws ! 8) = ''0'' \<and> diskstats st ! (of_char c - 97) = words ws @ [newline]
     then disk_idle w (of_char c - 97) st
     else disk_active w (of_char c - 97) (words ws @ [newline]) st)"
proof -
  let ?stats = "words ws @ [newline]"
  let ?s = "p @ '' sd'' @ c # '' '' @ ?stats"
  have 1: "strstr ?s '' sd'' = Some (length p)" by (rule strstr_device [OF assms(1)])
  have 2: "drop (length p + 3) ?s = c # CHR '' '' # ?stats" by simp
  obtain r where 3: "after_blanks 8 (tl ?stats) = Some r" and 4: "take 1 r = take 1 (ws ! 8)"
    using after_blanks_stats [OF assms(4,5)] by blast
  have 5: "\<not> (CHR '' '' \<noteq> CHR '' '' \<or> c < CHR ''a'' \<or> CHR ''z'' < c \<or> \<not> bit (managing st) (of_char c - 97))"
    "\<not> length ?s \<ge> DISKSTATS_SIZE"
    using assms(2,3,6,7) by (auto simp: not_less DISKSTATS_SIZE_def)
  show ?thesis
    unfolding line_effect_def 1 option.case 2 list.case Let_def if_not_P [OF 5(1)] if_not_P [OF 5(2)] 3 4
    by (rule refl)
qed

lemma words_free:
  "\<forall>f \<in> set ws. x \<notin> set f \<Longrightarrow> x \<noteq> CHR '' '' \<Longrightarrow> x \<notin> set (words ws)"
  by (induction ws rule: words.induct) auto

text \<open>C25: \<open>_manage_diskstats_line\<close> on a line in the format of the kernel that is in the buffer, whatever the
  buffer holds behind it, with the statistics as blank-separated words behind the name of a managed
  disk: the disk counts as idle exactly when the ninth word (requests in progress) begins with 0 and the
  whole statistics are those of the last activity; else it counts as active and the statistics are kept.\<close>

theorem kernel_line:
  assumes "CHR ''s'' \<notin> set p" and "CHR ''a'' \<le> c" and "c \<le> CHR ''z''" and "\<forall>f \<in> set ws. word_ok f"
    and "9 \<le> length ws" and "bit (managing st) (of_char c - 97)"
    and "length p + 6 + length (words ws) < 160"
    and "nul_free p" and "newline \<notin> set p" and "\<forall>f \<in> set ws. newline \<notin> set f"
    and "length p + 7 + length (words ws) + length t = 256"
  shows "manage_diskstats_line w (p @ '' sd'' @ c # '' '' @ words ws @ newline # NUL # t) st =
    (if take 1 (ws ! 8) = ''0'' \<and> diskstats st ! (of_char c - 97) = words ws @ [newline]
     then disk_idle w (of_char c - 97) st
     else disk_active w (of_char c - 97) (words ws @ [newline]) st)"
proof -
  let ?l = "p @ '' sd'' @ c # '' '' @ words ws"
  have "NUL \<notin> set (words ws)" "newline \<notin> set (words ws)"
    using words_free assms(4,10) by (auto simp: word_ok_def nul_free_def)
  moreover have "c \<noteq> NUL" "c \<noteq> newline" using assms(2) by (auto simp: less_eq_char_def)
  ultimately have "line_plain ?l"
    using assms(7-9) by (simp add: line_plain_def nul_free_def LINE_SIZE_def)
  then have "line_in ?l (?l @ newline # NUL # t)"
    using assms(11) by (simp add: line_in_def LINE_SIZE_def)
  from manage_line_effect [OF this] show ?thesis
    using kernel_line_effect [OF assms(1-7)] by simp
qed

theorem kernel_line_witness:
  "let ws = [''1'', ''2'', ''3'', ''4'', ''5'', ''6'', ''7'', ''8'', ''2'', ''10'', ''11''] in
   manage_diskstats_line demo_kernel
     (''   8  0'' @ '' sd'' @ CHR ''c'' # '' '' @ words ws @ newline # NUL # replicate 219 (CHR ''0'')) sd_init =
   disk_active demo_kernel 2 (words ws @ [newline]) sd_init"
  unfolding Let_def
  by (subst kernel_line) (simp_all add: sd_init_def word_ok_def nul_free_def less_eq_char_def)


text \<open>A line that fills the buffer and ends in \<open> sd\<close> makes the test of \<open>sd [4]\<close> read behind the
  buffer: this is why the other properties ask for lines of less than 254 characters.\<close>

theorem full_line_faults:
  "manage_diskstats_line w (replicate 252 (CHR ''x'') @ '' sd'' @ [NUL]) st = None"
proof -
  let ?s = "replicate 252 (CHR ''x'') @ '' sd''"
  have "nul_free ?s" by (simp add: nul_free_def)
  then have c: "cstr (?s @ [NUL]) 0 = ?s" by (rule cstr_append_NUL)
  have "strstr ?s '' sd'' = Some (length (replicate 252 (CHR ''x'')))"
  proof (rule strstr_found)
    fix i assume "i < length (replicate 252 (CHR ''x''))"
    then have "hd (drop i ?s) = CHR ''x''" by (subst hd_drop_conv_nth) (simp_all add: nth_append)
    then show "\<not> prefix '' sd'' (drop i ?s)" by (auto simp: prefix_def)
  qed simp
  then have "strstr ?s '' sd'' = Some 252" by simp
  with c show ?thesis by (simp add: manage_diskstats_line_def)
qed

section \<open>Stopping a disk\<close>

text \<open>One check of an idle disk: its idle time grows by the time between checks (in 32 bits); the
  disk is stopped exactly when it is spinning and has been idle for the configured time, and then
  counts as stopped; stopping opens the device, sends the SCSI START STOP command with all other
  bytes 0, and closes it again, or only fails to open it.\<close>

theorem disk_idle_outcome:
  assumes "d < 26" and "sd_inv st" and "sense_ok w"
  shows "\<exists>st'. disk_idle w d st = Some st' \<and>
    idletimes st' ! d = s32 (idletimes st ! d + checktime st) \<and>
    (bit (spinning st') d \<longleftrightarrow> bit (spinning st) d \<and> idletimes st' ! d < idletime st) \<and>
    dev_events st' = dev_events st @
      (if bit (spinning st) d \<and> idletime st \<le> idletimes st' ! d
       then let fd = open_fd w (Suc (calls st)) (device_name d)
            in Open (device_name d) # (if fd < 0 then [] else [SgIo fd stop_header, Close fd])
       else [])"
proof -
  have len: "length (idletimes st) = 26" using assms(2) by (simp add: sd_inv_def sd_arrays_def)
  have d: "d < 32" using assms(1) by simp
  show ?thesis
    by (rule disk_idle_cases [OF assms(1) len assms(3)])
      (auto simp: assms(1) d len more_idle_def must_stop_def stop_events_def Let_def)
qed

theorem disk_idle_outcome_witness:
  "\<exists>st'. disk_idle demo_kernel 1 (sd_init\<lparr>idletimes := replicate 26 880\<rparr>) = Some st' \<and>
    idletimes st' ! 1 = 910 \<and> \<not> bit (spinning st') 1 \<and>
    dev_events st' = [Open (device_name 1), SgIo 3 stop_header, Close 3]"
proof -
  let ?st = "sd_init\<lparr>idletimes := replicate 26 880\<rparr>"
  have "sd_inv ?st"
    using sd_init_inv by (auto simp: sd_inv_def sd_arrays_def sd_config_ok_def in_s32_def list_all_length)
  moreover have "sense_ok demo_kernel" using demo_kernel_ok by (simp add: kernel_ok_def)
  ultimately show ?thesis
    using disk_idle_outcome [of 1 ?st demo_kernel]
    by (auto simp: sd_init_def sd_constants demo_kernel_def dev_events_def s32_id in_s32_def Let_def)
qed

section \<open>Messages\<close>

text \<open>C39: when a disk has changed its state before and the time since then is less than 24855 days, in either
  direction, the message about the next change names the disk and that time as days, hours, minutes and
  seconds, leaving out the parts that are 0; a clock that was set back gives the same text with negative
  numbers. The message fits its buffer.\<close>

theorem transition_message_text:
  assumes "clock w (calls st) - transtimes st ! d = \<sigma> * (days * 86400 + hours * 3600 + mins * 60 + secs)"
    and "transtimes st ! d \<noteq> 0" and "\<sigma> = 1 \<or> \<sigma> = - 1"
    and "0 \<le> days" and "0 \<le> hours" "hours < 24" and "0 \<le> mins" "mins < 60" and "0 \<le> secs" "secs < 60"
    and "days < 24855" and "length direction \<le> 4"
  shows "\<exists>st'. transition_message w d direction st = Some
    (''spinning '' @ direction @ '' /dev/sd'' @ disk_letter d # '' after '' @
     time_part (\<sigma> * days) '' days '' @ time_part (\<sigma> * hours) '' hours '' @
     time_part (\<sigma> * mins) '' mins '' @ time_part (\<sigma> * secs) '' secs '', st')"
proof -
  let ?n = "days * 86400 + hours * 3600 + mins * 60 + secs"
  have "0 \<le> ?n" "?n \<le> 2147483647" using assms by simp_all
  then have "in_s32 (\<sigma> * ?n)" using assms(3) by (auto intro!: in_s32I)
  then have parts: "interval_text (s32 (clock w (calls st) - transtimes st ! d)) =
    time_part (\<sigma> * days) '' days '' @ time_part (\<sigma> * hours) '' hours '' @
     time_part (\<sigma> * mins) '' mins '' @ time_part (\<sigma> * secs) '' secs ''"
    using interval_text_parts [of days hours mins secs \<sigma>] assms by simp
  obtain msg st' where m: "transition_message w d direction st = Some (msg, st')"
    using transition_message_fits [OF assms(12), of w d st] by blast
  then have "msg = ''spinning '' @ direction @ '' '' @ device_name d @ '' after '' @
      interval_text (s32 (clock w (calls st) - transtimes st ! d))"
    using assms(2) by (simp add: transition_message_def Let_def split: if_splits)
  with m parts show ?thesis by (simp add: device_name_def)
qed


theorem transition_message_text_witness:
  "\<exists>st'. transition_message demo_kernel 0 ''down'' (sd_init\<lparr>transtimes := replicate 26 100, calls := 3825\<rparr>)
    = Some (''spinning down /dev/sd'' @ disk_letter 0 # '' after '' @ [] @ time_part 1 '' hours '' @
        time_part 2 '' mins '' @ time_part 5 '' secs '', st')"
  using transition_message_text [of demo_kernel "sd_init\<lparr>transtimes := replicate 26 100, calls := 3825\<rparr>"
      0 1 0 1 2 5 "''down''"]
  by (simp add: demo_kernel_def time_part_def)

end
