(* ===== verification/SdWatch.thy ===== *)
theory SdWatch
  imports SdLife
begin

text \<open>
  The daemon as one automaton per disk: an abstract specification that knows nothing of the other
  disks, of buffers, logs and devices, and the proof that whole runs of the program implement it;
  then what follows for a disk at rest and for a busy one.
\<close>

unbundle bit_operations_syntax

section \<open>The automaton of one disk\<close>

text \<open>What the daemon knows of a disk, and what it is told by a line about it: the statistics, and
  whether no request is in progress.\<close>

record disk_view =
  spins :: bool
  idle_secs :: int
  last_stats :: string

type_synonym sight = "string \<times> bool"

text \<open>One sight, for an idle time of \<open>T\<close> and checks \<open>C\<close> apart: the next view and the number of stops.\<close>

definition watch :: "int \<Rightarrow> int \<Rightarrow> disk_view \<Rightarrow> sight \<Rightarrow> disk_view \<times> nat" where
  "watch T C v x =
     (case x of (stats, at_rest) \<Rightarrow>
        if at_rest \<and> last_stats v = stats then
          (let t = s32 (idle_secs v + C); stop = spins v \<and> T \<le> t
           in (v\<lparr>idle_secs := t, spins := spins v \<and> \<not> stop\<rparr>, if stop then 1 else 0))
        else (\<lparr>spins = True, idle_secs = 0, last_stats = stats\<rparr>, 0))"

fun watch_all :: "int \<Rightarrow> int \<Rightarrow> disk_view \<Rightarrow> sight list \<Rightarrow> disk_view \<times> nat" where
  "watch_all T C v [] = (v, 0)"
| "watch_all T C v (x # xs) =
     (let (v, n) = watch T C v x; (v, m) = watch_all T C v xs in (v, n + m))"

text \<open>The sight of the disk \<open>d\<close> that the line \<open>s\<close> gives, if it is about this disk.\<close>

definition sighting :: "nat \<Rightarrow> string \<Rightarrow> sight option" where
  "sighting d s =
     (case strstr s '' sd'' of
        None \<Rightarrow> None
      | Some k \<Rightarrow>
          (case drop (k + 3) s of
             c # b # stats \<Rightarrow>
               if b = CHR '' '' \<and> \<not> c < CHR ''a'' \<and> \<not> CHR ''z'' < c \<and> of_char c - 97 = d \<and>
                 length s < DISKSTATS_SIZE
               then map_option (\<lambda>r. (stats, take 1 r = ''0'')) (after_blanks 8 (tl stats))
               else None
           | _ \<Rightarrow> None))"

fun sightings :: "nat \<Rightarrow> string list \<Rightarrow> sight list" where
  "sightings d [] = []"
| "sightings d (l # ls) =
     (case sighting d (l @ [newline]) of None \<Rightarrow> sightings d ls | Some x \<Rightarrow> x # sightings d ls)"

definition view :: "nat \<Rightarrow> sd_state \<Rightarrow> disk_view" where
  "view d st = \<lparr>spins = bit (spinning st) d, idle_secs = idletimes st ! d, last_stats = diskstats st ! d\<rparr>"

text \<open>How often the disk \<open>d\<close> was opened for stopping it.\<close>

definition stops :: "nat \<Rightarrow> sd_state \<Rightarrow> nat" where
  "stops d st = length (filter (\<lambda>e. e = Open (device_name d)) (dev_events st))"

section \<open>A line is a step of the automaton of its disk\<close>

lemma watch_all_append:
  "watch_all T C v (xs @ ys) =
     (let (v, n) = watch_all T C v xs; (v, m) = watch_all T C v ys in (v, n + m))"
  by (induction xs arbitrary: v) (simp_all add: Let_def split: prod.split)

text \<open>A state and a later one, seen as a run of the automaton of \<open>d\<close> over the sights \<open>xs\<close>.\<close>

definition runs_as :: "nat \<Rightarrow> sight list \<Rightarrow> sd_state \<Rightarrow> sd_state \<Rightarrow> bool" where
  "runs_as d xs st st' \<longleftrightarrow> same_config st st' \<and>
     watch_all (idletime st) (checktime st) (view d st) xs = (view d st', stops d st' - stops d st) \<and>
     stops d st \<le> stops d st'"

lemma runs_as_trans:
  "runs_as d xs st st1 \<Longrightarrow> runs_as d ys st1 st2 \<Longrightarrow> runs_as d (xs @ ys) st st2"
  by (auto simp: runs_as_def watch_all_append Let_def same_config_def)

lemma runs_as_same:
  "same_config st st' \<Longrightarrow> same_disk d st st' \<Longrightarrow> stops d st' = stops d st \<Longrightarrow> runs_as d [] st st'"
  by (simp add: runs_as_def view_def same_disk_def)

lemma device_name_inj: "d < 26 \<Longrightarrow> e < 26 \<Longrightarrow> device_name d = device_name e \<longleftrightarrow> d = e"
proof -
  assume "d < 26" "e < 26"
  moreover have "97 + d = 97 + e" if "char_of (97 + d) = (char_of (97 + e) :: char)"
  proof -
    from that have "(97 + d) mod 256 = (97 + e) mod 256" by (metis of_char_of)
    with \<open>d < 26\<close> \<open>e < 26\<close> show ?thesis by simp
  qed
  ultimately show ?thesis by (auto simp: device_name_def disk_letter_def)
qed

lemma stops_stop_events:
  assumes "d < 26" "e < 26" "dev_events st' = dev_events st @ (if b then stop_events w n e else [])"
  shows "stops d st' = stops d st + (if b \<and> e = d then 1 else 0)"
  using assms device_name_inj [OF assms(1,2)] by (auto simp: stops_def stop_events_def Let_def)

lemma idle_runs_as:
  assumes "sense_ok w" "sd_inv st" "d < 26" "e < 26" "disk_idle w e st = Some st'"
  shows "runs_as d (if e = d then [(diskstats st ! d, True)] else []) st st'"
proof -
  have len: "length (idletimes st) = 26" using assms(2) by (simp add: sd_inv_def sd_arrays_def)
  obtain st1 where 1: "disk_idle w e st = Some st1" "same_config st st1"
    "idletimes st1 = (idletimes st)[e := more_idle e st]" "diskstats st1 = diskstats st"
    "spinning st1 = (if must_stop e st then bit_clear (spinning st) e else spinning st)"
    "dev_events st1 = dev_events st @ (if must_stop e st then stop_events w (Suc (calls st)) e else [])"
    using disk_idle_cases [OF assms(4) len assms(1)] by metis
  have "st' = st1" using assms(5) 1(1) by simp
  moreover note stops_stop_events [OF assms(3,4) 1(6)]
  ultimately show ?thesis using 1(2-5) len assms(3,4)
    by (auto simp: runs_as_def view_def watch_def Let_def must_stop_def more_idle_def)
qed

lemma active_runs_as:
  assumes "length stats < DISKSTATS_SIZE" "sd_inv st" "d < 26" "e < 26"
    "disk_active w e stats st = Some st'" "\<not> (q \<and> diskstats st ! e = stats)"
  shows "runs_as d (if e = d then [(stats, q)] else []) st st'"
proof -
  have len: "length (idletimes st) = 26" "length (diskstats st) = 26"
    using assms(2) by (simp_all add: sd_inv_def sd_arrays_def)
  obtain st1 where 1: "disk_active w e stats st = Some st1" "same_config st st1"
    "idletimes st1 = (idletimes st)[e := 0]" "diskstats st1 = (diskstats st)[e := stats]"
    "spinning st1 = bit_set (spinning st) e" "dev_events st1 = dev_events st"
    using disk_active_cases [OF assms(4,1)] by metis
  have "st' = st1" using assms(5) 1(1) by simp
  moreover have "stops d st1 = stops d st" using 1(6) by (simp add: stops_def)
  ultimately show ?thesis using 1(2-5) len assms(3,4,6)
    by (auto simp: runs_as_def view_def watch_def)
qed

text \<open>A line is about no managed disk, or it is the sight of exactly one.\<close>

lemma line_effect_sights:
  assumes "line_plain l"
  obtains (none) st' where "line_effect w (l @ [newline]) st = Some st'" "only_events st st'"
      "dev_events st' = dev_events st" "\<And>d. bit (managing st) d \<Longrightarrow> sighting d (l @ [newline]) = None"
    | (sight) e stats q where "e < 26" "sighting e (l @ [newline]) = Some (stats, q)"
      "\<And>d. d \<noteq> e \<Longrightarrow> sighting d (l @ [newline]) = None" "length stats < DISKSTATS_SIZE" "nul_free stats"
      "line_effect w (l @ [newline]) st =
        (if q \<and> diskstats st ! e = stats then disk_idle w e st else disk_active w e stats st)"
proof (cases "strstr (l @ [newline]) '' sd''")
  case None
  then show thesis by (intro none [of st]) (simp_all add: line_effect_def sighting_def)
next
  case (Some k)
  let ?s = "l @ [newline]"
  show thesis
  proof (cases "\<exists>c b stats. drop (k + 3) ?s = c # b # stats")
    case False
    then have "drop (k + 3) ?s = [] \<or> (\<exists>c. drop (k + 3) ?s = [c])" by (metis list.exhaust)
    with Some have "line_effect w ?s st = Some st" "sighting d ?s = None" for d
      unfolding line_effect_def sighting_def by (auto simp del: drop_append)
    then show thesis by (intro none [of st]) simp_all
  next
    case True
    then obtain c b stats where cb: "drop (k + 3) ?s = c # b # stats" by blast
    let ?e = "of_char c - 97 :: nat"
    have e: "?e < 26" if "\<not> CHR ''z'' < c" using that by (simp add: less_char_def)
    have stats: "nul_free stats" "length stats \<le> length ?s"
    proof -
      have "nul_free ?s" using assms by (simp add: line_plain_def)
      then have "nul_free (drop (k + 3) ?s)" by (rule nul_free_dropI)
      then show "nul_free stats" unfolding cb by simp
      have "length (drop (k + 3) ?s) \<le> length ?s" by simp
      then show "length stats \<le> length ?s" unfolding cb by simp
    qed
    note eff = line_effect_def [of w ?s st] Some option.case cb list.case Let_def
    note sgt = sighting_def [of _ ?s] Some option.case cb list.case
    show thesis
    proof (cases "b = CHR '' '' \<and> \<not> c < CHR ''a'' \<and> \<not> CHR ''z'' < c \<and> bit (managing st) ?e \<and>
        length ?s < DISKSTATS_SIZE \<and> after_blanks 8 (tl stats) \<noteq> None")
      case True
      then obtain r where r: "after_blanks 8 (tl stats) = Some r" by blast
      show thesis
      proof (rule sight)
        show "?e < 26" using True e by blast
        show "sighting ?e ?s = Some (stats, take 1 r = ''0'')" using True r unfolding sgt by simp
        show "sighting d ?s = None" if "d \<noteq> ?e" for d using that unfolding sgt by simp
        show "length stats < DISKSTATS_SIZE" using True stats by simp
        show "nul_free stats" by (fact stats)
        show "line_effect w ?s st = (if take 1 r = ''0'' \<and> diskstats st ! ?e = stats
          then disk_idle w ?e st else disk_active w ?e stats st)"
          using True r unfolding eff by simp
      qed
    next
      case False
      then have "sighting d ?s = None" if "bit (managing st) d" for d
        using that unfolding sgt by auto
      moreover from False have "\<exists>st'. line_effect w ?s st = Some st' \<and> only_events st st' \<and>
          dev_events st' = dev_events st"
        unfolding eff by (auto intro!: only_events_log)
      ultimately show thesis using none by blast
    qed
  qed
qed

lemma line_runs_as:
  assumes "sense_ok w" "sd_inv st" "line_plain l" "d < 26" "bit (managing st) d"
    "line_effect w (l @ [newline]) st = Some st'"
  shows "runs_as d (sightings d [l]) st st'"
  using assms(3)
proof (cases rule: line_effect_sights [of l w st])
  case (none st1)
  with assms(5,6) show ?thesis
    using only_events_managed [OF none(2,3)] only_events_frame [OF none(2)]
    by (auto intro!: runs_as_same simp: managed_change_def same_disk_def stops_def)
next
  case (sight e stats q)
  then have "sightings d [l] = (if e = d then [(stats, q)] else [])" by auto
  moreover have "runs_as d (if e = d then [(stats, q)] else []) st st'"
    using idle_runs_as [OF assms(1,2,4) sight(1)] active_runs_as [OF sight(4) assms(2,4) sight(1)]
      sight(6) assms(6) by (cases "q \<and> diskstats st ! e = stats") auto
  ultimately show ?thesis by simp
qed

section \<open>Readings and rounds are runs of the automaton\<close>

lemma sightings_append: "sightings d (ls @ ms) = sightings d ls @ sightings d ms"
  by (induction ls) (simp_all split: option.split)

lemma reading_runs_as:
  assumes "sense_ok w" "d < 26"
  shows "sd_inv st \<Longrightarrow> \<forall>l \<in> set ls. line_plain l \<Longrightarrow> bit (managing st) d \<Longrightarrow>
    reading_effect w ls st = Some st' \<Longrightarrow> runs_as d (sightings d ls) st st'"
proof (induction ls arbitrary: st)
  case Nil
  then show ?case by (simp add: runs_as_same)
next
  case (Cons l ls)
  obtain st1 where 1: "line_effect w (l @ [newline]) st = Some st1" "sd_inv st1" "managed_change st st1"
    using line_effect_inv [OF assms(1) Cons.prems(1), of l] Cons.prems(2) by auto
  have "runs_as d (sightings d [l]) st st1"
    using line_runs_as [OF assms(1) Cons.prems(1) _ assms(2)] Cons.prems 1(1) by simp
  moreover have "bit (managing st1) d"
    using 1(3) Cons.prems(3) by (simp add: managed_change_def same_config_def)
  then have "runs_as d (sightings d ls) st1 st'" using Cons.IH [OF 1(2)] Cons.prems(2,4) 1(1) by simp
  ultimately have "runs_as d (sightings d [l] @ sightings d ls) st st'" by (rule runs_as_trans)
  then show ?case using sightings_append [of d "[l]" ls] by simp
qed

text \<open>A kernel whose \<open>r\<close>-th reading has the lines \<open>rd r\<close>, and whose sense buffers can be printed: a run that
  prints another one is outside of what these properties say (theorem \<open>sd_main_safe\<close> says where it stops).\<close>

definition kernel_shows :: "sd_world \<Rightarrow> (nat \<Rightarrow> string list) \<Rightarrow> bool" where
  "kernel_shows w rd \<longleftrightarrow> sense_ok w \<and>
     (\<forall>r. proc_diskstats w r = Some (diskstats_text (rd r)) \<and> (\<forall>l \<in> set (rd r). line_plain l))"

lemma manage_rounds_runs_as:
  assumes "kernel_shows w rd" "d < 26"
  shows "sd_inv st \<Longrightarrow> length buf = LINE_SIZE \<Longrightarrow> bit (managing st) d \<Longrightarrow>
    \<exists>b st'. manage_rounds w r n (buf, st) = Some (Inr (b, st')) \<and>
      runs_as d (concat (map (\<lambda>i. sightings d (rd i)) [r..<r + n])) st st'"
proof (induction n arbitrary: r buf st)
  case 0
  then show ?case by (simp add: runs_as_same)
next
  case (Suc n)
  have rd: "proc_diskstats w r = Some (diskstats_text (rd r))" "\<forall>l \<in> set (rd r). line_plain l"
    and w: "sense_ok w" using assms(1) by (simp_all add: kernel_shows_def)
  obtain st1 where 1: "reading_effect w (rd r) st = Some st1" "sd_inv st1" "managed_change st st1"
    using reading_effect_inv [OF w Suc.prems(1) rd(2)] by blast
  obtain b where b: "manage_lines w (diskstats_text (rd r)) buf st = Some (b, st1)" "length b = LINE_SIZE"
    using manage_lines_effect [OF rd(2) Suc.prems(2), of w st] 1(1) by auto
  let ?st = "record_event (Sleep (checktime st1)) st1"
  have ev: "only_events st1 ?st" by (simp add: only_events_record)
  have "same_config st1 ?st" "same_disk d st1 ?st" "stops d ?st = stops d st1"
    by (simp_all add: same_config_def same_disk_def stops_def)
  from runs_as_trans [OF reading_runs_as [OF w assms(2) Suc.prems(1) rd(2) Suc.prems(3) 1(1)]
      runs_as_same [OF this]]
  have run: "runs_as d (sightings d (rd r)) st ?st" by simp
  have "bit (managing ?st) d" using 1(3) Suc.prems(3) by (simp add: managed_change_def same_config_def)
  from Suc.IH [OF only_events_inv [OF ev 1(2)] b(2) this, of "Suc r"] obtain b' st' where
    2: "manage_rounds w (Suc r) n (b, ?st) = Some (Inr (b', st'))"
    "runs_as d (concat (map (\<lambda>i. sightings d (rd i)) [Suc r..<Suc r + n])) ?st st'" by blast
  have "manage_rounds w r (Suc n) (buf, st) = Some (Inr (b', st'))"
    using 2(1) rd(1) b(1) by (simp add: manage_round_def)
  moreover have "[r..<r + Suc n] = r # [Suc r..<Suc r + n]" by (simp add: upt_conv_Cons)
  then have "runs_as d (concat (map (\<lambda>i. sightings d (rd i)) [r..<r + Suc n])) st st'"
    using runs_as_trans [OF run 2(2)] by simp
  ultimately show ?case by blast
qed

section \<open>Runs of the program\<close>

definition start_view :: disk_view where
  "start_view = \<lparr>spins = True, idle_secs = 0, last_stats = []\<rparr>"

text \<open>All sights of a disk in the first \<open>n\<close> readings.\<close>

definition history :: "nat \<Rightarrow> (nat \<Rightarrow> string list) \<Rightarrow> nat \<Rightarrow> sight list" where
  "history d rd n = concat (map (\<lambda>i. sightings d (rd i)) [0..<n])"

lemma history_add:
  "history d rd (m + n) = history d rd m @ concat (map (\<lambda>i. sightings d (rd i)) [m..<m + n])"
  using upt_add_eq_append [of 0 m n] by (simp add: history_def)

lemma start_view: "fresh st \<Longrightarrow> d < 26 \<Longrightarrow> view d st = start_view"
  by (simp add: fresh_def view_def start_view_def)

lemma sd_main_runs_as:
  assumes "kernel_shows w rd" and "sd_start w argv = Inr st" and "d < 26" and "bit (managing st) d"
  shows "\<exists>b st'. sd_main w argv n = Some (Inr (b, st')) \<and> same_config st st' \<and>
    watch_all (idletime st) (checktime st) start_view (history d rd n) = (view d st', stops d st')"
proof -
  have inv: "sd_inv st" and fresh: "fresh st"
    using sd_start_inv [of w argv] sd_start_fresh [OF assms(2)] assms(2) by simp_all
  have "stops d st = 0" using fresh by (simp add: fresh_def stops_def)
  with manage_rounds_runs_as [OF assms(1,3) inv _ assms(4), of "map (uninit_line w) [0..<LINE_SIZE]" 0 n]
    assms(2) start_view [OF fresh assms(3)]
  show ?thesis by (fastforce simp: sd_main_def runs_as_def history_def)
qed

text \<open>The kernel of the demonstrations: the disk \<open>sda\<close> shows the same statistics at every reading.\<close>

definition demo_stats :: string where
  "demo_stats = words [''1'', ''2'', ''3'', ''4'', ''5'', ''6'', ''7'', ''8'', ''0'', ''10'', ''11''] @ [newline]"

lemma sighting_kernel_line:
  assumes "CHR ''s'' \<notin> set p" and "CHR ''a'' \<le> c" and "c \<le> CHR ''z''" and "\<forall>f \<in> set ws. word_ok f"
    and "9 \<le> length ws" and "length p + 6 + length (words ws) < 160"
  shows "sighting d (p @ '' sd'' @ c # '' '' @ words ws @ [newline]) =
    (if of_char c - 97 = d then Some (words ws @ [newline], take 1 (ws ! 8) = ''0'') else None)"
proof -
  let ?stats = "words ws @ [newline]"
  let ?s = "p @ '' sd'' @ c # '' '' @ ?stats"
  have 1: "strstr ?s '' sd'' = Some (length p)" by (rule strstr_device [OF assms(1)])
  have 2: "drop (length p + 3) ?s = c # CHR '' '' # ?stats" by simp
  obtain r where 3: "after_blanks 8 (tl ?stats) = Some r" "take 1 r = take 1 (ws ! 8)"
    using after_blanks_stats [OF assms(4,5)] by blast
  have 4: "\<not> c < CHR ''a'' \<and> \<not> CHR ''z'' < c" "length ?s < DISKSTATS_SIZE"
    using assms(2,3,6) by (simp_all add: not_less DISKSTATS_SIZE_def)
  show ?thesis
    unfolding sighting_def 1 option.case 2 list.case 3 using 3 4 by simp
qed

definition demo_lines :: "string list" where
  "demo_lines = [''8 0 sda 1 2 3 4 5 6 7 8 0 10 11'']"

lemma demo_shows: "kernel_shows demo_kernel (\<lambda>_. demo_lines)"
proof -
  have "line_plain ''8 0 sda 1 2 3 4 5 6 7 8 0 10 11''" by (simp add: line_plain_def LINE_SIZE_def)
  then show ?thesis using demo_kernel_ok by (simp add: kernel_shows_def kernel_ok_def demo_kernel_def demo_lines_def)
qed

lemma demo_sightings: "sightings 0 demo_lines = [(demo_stats, True)]"
  using sighting_kernel_line [of "''8 0''" "CHR ''a''"
    "[''1'', ''2'', ''3'', ''4'', ''5'', ''6'', ''7'', ''8'', ''0'', ''10'', ''11'']" 0]
  by (simp add: demo_stats_def demo_lines_def word_ok_def)

lemma demo_default:
  "\<exists>st. sd_start demo_kernel [''sd-idle''] = Inr st \<and> idletime st = 900 \<and> checktime st = 30 \<and>
    managing st = - 1"
  by (simp add: sd_start_def demo_kernel_def check_linux_version_def parse_options_def
      scan_options.simps [of _ _ "Suc 0"] sd_init_def sd_constants numeral_2_eq_2)

text \<open>C11: the daemon implements one automaton per managed disk: after any number of rounds, what it
  knows of a disk and how often it stopped it are what the automaton of the disk computes from the
  sights of this disk alone, in order, whatever else the readings hold.\<close>

theorem disk_automaton:
  assumes "kernel_shows w rd" and "sd_start w argv = Inr st" and "d < 26" and "bit (managing st) d"
  shows "\<exists>b st'. sd_main w argv n = Some (Inr (b, st')) \<and>
    watch_all (idletime st) (checktime st) \<lparr>spins = True, idle_secs = 0, last_stats = []\<rparr>
      (concat (map (\<lambda>i. sightings d (rd i)) [0..<n])) = (view d st', stops d st')"
  using sd_main_runs_as [OF assms, of n] by (auto simp: start_view_def history_def)

theorem disk_automaton_witness:
  "\<exists>b st'. sd_main demo_kernel [''sd-idle''] 3 = Some (Inr (b, st')) \<and>
    view 0 st' = \<lparr>spins = True, idle_secs = 60, last_stats = demo_stats\<rparr> \<and> stops 0 st' = 0"
proof -
  obtain st where st: "sd_start demo_kernel [''sd-idle''] = Inr st" "idletime st = 900"
    "checktime st = 30" "managing st = - 1" using demo_default by blast
  have "demo_stats \<noteq> []" by (simp add: demo_stats_def)
  with disk_automaton [OF demo_shows st(1), of 0 3] st(2-4) show ?thesis
    by (auto simp: demo_sightings numeral_3_eq_3 watch_def s32_id in_s32_def)
qed

section \<open>Disks at rest and busy disks\<close>

lemma watch_rest:
  assumes "0 < C" and "0 \<le> idle_secs v" and "spins v \<longleftrightarrow> idle_secs v < T" and "last_stats v = stats"
    and "idle_secs v + int k * C < 2 ^ 31"
  shows "\<exists>v'. watch_all T C v (replicate k (stats, True)) =
      (v', if idle_secs v < T \<and> T \<le> idle_secs v + int k * C then 1 else 0) \<and>
    (spins v' \<longleftrightarrow> idle_secs v + int k * C < T)"
  using assms(2-)
proof (induction k arbitrary: v)
  case (Suc k)
  define p where "p = int k * C"
  have p: "int (Suc k) * C = C + p" "0 \<le> p" using assms(1) by (simp_all add: p_def algebra_simps)
  then have t: "s32 (idle_secs v + C) = idle_secs v + C"
    using Suc.prems(1,4) assms(1) by (intro s32_id) (simp add: in_s32_def)
  let ?v = "v\<lparr>idle_secs := idle_secs v + C, spins := spins v \<and> \<not> T \<le> idle_secs v + C\<rparr>"
  have w: "watch T C v (stats, True) = (?v, if spins v \<and> T \<le> idle_secs v + C then 1 else 0)"
    using Suc.prems(3) by (cases "T \<le> idle_secs v + C") (simp_all add: watch_def t Let_def)
  have "spins ?v \<longleftrightarrow> idle_secs ?v < T" using Suc.prems(2) assms(1) by auto
  from Suc.IH [OF _ this] Suc.prems p assms(1) obtain v' where
    "watch_all T C ?v (replicate k (stats, True)) =
      (v', if idle_secs v + C < T \<and> T \<le> idle_secs v + C + p then 1 else 0)"
    "spins v' \<longleftrightarrow> idle_secs v + C + p < T" by (auto simp: p_def)
  with w p Suc.prems(2) assms(1) show ?case by (auto simp: add.assoc)
qed simp

lemma watch_all_last:
  "last_stats (fst (watch_all T C v xs)) = last_stats v \<or>
    (\<exists>x \<in> set xs. last_stats (fst (watch_all T C v xs)) = fst x)"
proof (induction xs arbitrary: v)
  case (Cons x xs)
  obtain v1 n where w: "watch T C v x = (v1, n)" by fastforce
  then have "last_stats v1 = last_stats v \<or> last_stats v1 = fst x"
    by (auto simp: watch_def Let_def split: prod.splits if_splits)
  moreover have "fst (watch_all T C v (x # xs)) = fst (watch_all T C v1 xs)"
    by (simp add: w split: prod.split)
  ultimately show ?case using Cons.IH [of v1] by (metis list.set_intros)
qed simp

lemma after_blanks_Nil: "after_blanks 8 [] = None"
  by (simp add: eval_nat_numeral)

lemma sightings_nonempty: "(stats, q) \<in> set (sightings d ls) \<Longrightarrow> stats \<noteq> []"
proof -
  have "stats \<noteq> []" if "sighting d s = Some (stats, q)" for s
    using that by (auto simp: sighting_def after_blanks_Nil split: option.splits list.splits if_splits)
  then show "(stats, q) \<in> set (sightings d ls) \<Longrightarrow> stats \<noteq> []"
    by (induction ls) (auto split: option.splits)
qed

text \<open>C5: after a sign of activity (a request in progress, or statistics not seen before) a disk that
  then shows the same statistics at every reading is stopped as soon as the checks make up the
  configured idle time, not earlier, and exactly once, however long it stays at rest (within the
  2^31 seconds its idle time can count).\<close>

theorem quiet_disk_stops_once:
  assumes "kernel_shows w rd" and "sd_start w argv = Inr st" and "d < 26" and "bit (managing st) d"
    and "sightings d (rd m) = [(stats, q)]"
    and "\<not> q \<or> (\<forall>i < m. \<forall>x \<in> set (sightings d (rd i)). fst x \<noteq> stats)"
    and "\<forall>i. m < i \<and> i \<le> m + k \<longrightarrow> sightings d (rd i) = [(stats, True)]"
    and "int k * checktime st < 2 ^ 31"
  shows "\<exists>b1 st1 b2 st2. sd_main w argv (Suc m) = Some (Inr (b1, st1)) \<and>
    sd_main w argv (Suc m + k) = Some (Inr (b2, st2)) \<and>
    (bit (spinning st2) d \<longleftrightarrow> int k * checktime st < idletime st) \<and>
    stops d st2 = stops d st1 + (if idletime st \<le> int k * checktime st then 1 else 0)"
proof -
  let ?T = "idletime st" and ?C = "checktime st" and ?h = "history d rd m"
  have T: "0 < ?T" and C: "0 < ?C"
    using sd_start_inv [of w argv] assms(2) by (simp_all add: sd_inv_def sd_config_ok_def sd_constants)
  obtain v n where h: "watch_all ?T ?C start_view ?h = (v, n)" by fastforce
  have "stats \<noteq> []" using sightings_nonempty [of stats q d "rd m"] assms(5) by simp
  moreover have "fst x \<noteq> stats" if "q" "x \<in> set ?h" for x
    using assms(6) that by (auto simp: history_def)
  ultimately have "\<not> (q \<and> last_stats v = stats)"
    using watch_all_last [of ?T ?C start_view ?h] h unfolding start_view_def
    by (metis disk_view.select_convs(3) fst_conv)
  then have w: "watch ?T ?C v (stats, q) = (\<lparr>spins = True, idle_secs = 0, last_stats = stats\<rparr>, 0)"
    by (auto simp: watch_def)
  have 1: "history d rd (Suc m) = ?h @ [(stats, q)]" using assms(5) by (simp add: history_def)
  have "concat (map (\<lambda>i. sightings d (rd i)) [Suc m..<Suc m + k]) = concat (map (\<lambda>_. [(stats, True)]) [Suc m..<Suc m + k])"
    using assms(7) by (intro arg_cong [where f = concat] map_cong) auto
  then have 2: "history d rd (Suc m + k) = ?h @ [(stats, q)] @ replicate k (stats, True)"
    using history_add [of d rd "Suc m" k] 1 by (simp add: map_replicate_const)
  obtain v' where v': "watch_all ?T ?C \<lparr>spins = True, idle_secs = 0, last_stats = stats\<rparr> (replicate k (stats, True)) =
      (v', if ?T \<le> int k * ?C then 1 else 0)" "spins v' \<longleftrightarrow> int k * ?C < ?T"
    using watch_rest [OF C, of "\<lparr>spins = True, idle_secs = 0, last_stats = stats\<rparr>" ?T stats k] T assms(8) by auto
  obtain b1 st1 where r1: "sd_main w argv (Suc m) = Some (Inr (b1, st1))" "n = stops d st1"
    using sd_main_runs_as [OF assms(1-4), of "Suc m"] h w by (auto simp: 1 watch_all_append)
  obtain b2 st2 where r2: "sd_main w argv (Suc m + k) = Some (Inr (b2, st2))" "v' = view d st2"
      "n + (if ?T \<le> int k * ?C then 1 else 0) = stops d st2"
    using sd_main_runs_as [OF assms(1-4), of "Suc m + k"] h w v'(1) unfolding 2
    by (auto simp: watch_all_append)
  show ?thesis using r1 r2 v'(2) by (intro exI) (auto simp: view_def)
qed

theorem quiet_disk_stops_once_witness:
  "\<exists>b1 st1 b2 st2. sd_main demo_kernel [''sd-idle''] 1 = Some (Inr (b1, st1)) \<and>
    sd_main demo_kernel [''sd-idle''] 41 = Some (Inr (b2, st2)) \<and>
    \<not> bit (spinning st2) 0 \<and> stops 0 st2 = stops 0 st1 + 1"
proof -
  obtain st where st: "sd_start demo_kernel [''sd-idle''] = Inr st" "idletime st = 900"
    "checktime st = 30" "managing st = - 1" using demo_default by blast
  from quiet_disk_stops_once [OF demo_shows st(1), where d = 0 and m = 0 and stats = demo_stats and q = True and k = 40] st(2-4) show ?thesis
    by (simp add: demo_sightings)
qed

lemma watch_busy:
  "spins v \<Longrightarrow> successively (\<lambda>x y. \<not> (snd y \<and> fst y = fst x)) ((last_stats v, q) # xs) \<Longrightarrow>
    \<exists>v'. watch_all T C v xs = (v', 0) \<and> spins v'"
proof (induction xs arbitrary: v q)
  case (Cons x xs)
  let ?v = "\<lparr>spins = True, idle_secs = 0, last_stats = fst x\<rparr>"
  have "watch T C v x = (?v, 0)" using Cons.prems(2) by (cases x) (auto simp: watch_def)
  moreover have "\<exists>v'. watch_all T C ?v xs = (v', 0) \<and> spins v'"
    using Cons.IH [of ?v "snd x"] Cons.prems(2) by simp
  ultimately show ?case by auto
qed simp

text \<open>C33: a disk that is never seen at rest, that is, each of its sights shows a request in progress or
  statistics other than the sight before, is never stopped, in any number of rounds.\<close>

theorem busy_disk_never_stopped:
  assumes "kernel_shows w rd" and "sd_start w argv = Inr st" and "d < 26" and "bit (managing st) d"
    and "successively (\<lambda>x y. \<not> (snd y \<and> fst y = fst x)) (concat (map (\<lambda>i. sightings d (rd i)) [0..<n]))"
  shows "\<exists>b st'. sd_main w argv n = Some (Inr (b, st')) \<and> stops d st' = 0 \<and> bit (spinning st') d"
proof -
  let ?h = "history d rd n"
  have h: "successively (\<lambda>x y. \<not> (snd y \<and> fst y = fst x)) ?h" using assms(5) by (simp add: history_def)
  have "fst x \<noteq> []" if "x \<in> set ?h" for x
  proof -
    from that obtain i where "x \<in> set (sightings d (rd i))" by (auto simp: history_def)
    then show ?thesis using sightings_nonempty [of "fst x" "snd x" d "rd i"] by simp
  qed
  with h have "successively (\<lambda>x y. \<not> (snd y \<and> fst y = fst x)) ((last_stats start_view, False) # ?h)"
    by (cases ?h) (auto simp: start_view_def)
  moreover have "spins start_view" by (simp add: start_view_def)
  ultimately obtain v' where v: "watch_all (idletime st) (checktime st) start_view ?h = (v', 0)" "spins v'"
    using watch_busy [where v = start_view and xs = ?h] by blast
  obtain b st' where r: "sd_main w argv n = Some (Inr (b, st'))"
    "watch_all (idletime st) (checktime st) start_view ?h = (view d st', stops d st')"
    using sd_main_runs_as [OF assms(1-4), of n] by blast
  with v have "stops d st' = 0" "spins (view d st')" by simp_all
  with r(1) show ?thesis by (auto simp: view_def)
qed

theorem busy_disk_never_stopped_witness:
  "\<exists>b st'. sd_main demo_kernel [''sd-idle''] 1 = Some (Inr (b, st')) \<and> stops 0 st' = 0 \<and> bit (spinning st') 0"
proof -
  obtain st where "sd_start demo_kernel [''sd-idle''] = Inr st" "managing st = - 1"
    using demo_default by blast
  with busy_disk_never_stopped [OF demo_shows, of "[''sd-idle'']" st 0 1] show ?thesis
    by (simp add: demo_sightings)
qed

end
