(* ===== verification/HlsRegex.thy ===== *)
theory HlsRegex
  imports CNum
begin

text \<open>
  POSIX extended regular expressions as \<open>regcomp\<close> and \<open>regexec\<close> treat them: the leftmost match, among
  those the longest, and each part of a sequence as long as the whole allows, from left to right.
  The patterns of \<open>hlspxd\<close> repeat bracket expressions only, so repetition is over a class of
  characters (given by its predicate). Then the wrapper classes of \<open>platform.h\<close>
  (\<open>sub_match\<close>, \<open>cmatch\<close>, \<open>regex_search\<close>), and the laws the scanners of the program are proved with.
  Failures of \<open>malloc\<close> inside the matcher are not modelled.
\<close>

section \<open>Expressions and what they match\<close>

datatype rx =
    Lit string | Any "char \<Rightarrow> bool" | Many "char \<Rightarrow> bool"
  | Cat rx rx | Alt rx rx | Opt rx | Grp nat rx

fun rx_matches :: "rx \<Rightarrow> string \<Rightarrow> bool" where
  "rx_matches (Lit l) s \<longleftrightarrow> s = l"
| "rx_matches (Any P) s \<longleftrightarrow> list_all P s"
| "rx_matches (Many P) s \<longleftrightarrow> s \<noteq> [] \<and> list_all P s"
| "rx_matches (Cat a b) s \<longleftrightarrow>
     list_ex (\<lambda>i. rx_matches a (take i s) \<and> rx_matches b (drop i s)) [0..<Suc (length s)]"
| "rx_matches (Alt a b) s \<longleftrightarrow> rx_matches a s \<or> rx_matches b s"
| "rx_matches (Opt a) s \<longleftrightarrow> s = [] \<or> rx_matches a s"
| "rx_matches (Grp n a) s \<longleftrightarrow> rx_matches a s"

text \<open>The largest number up to \<open>n\<close> with a property.\<close>

definition longest :: "(nat \<Rightarrow> bool) \<Rightarrow> nat \<Rightarrow> nat option" where
  "longest P n = find P (rev [0..<Suc n])"

text \<open>What the groups of an expression stand for in a string it matches.\<close>

fun rx_groups :: "rx \<Rightarrow> string \<Rightarrow> (nat \<times> string) list" where
  "rx_groups (Lit l) s = []"
| "rx_groups (Any P) s = []"
| "rx_groups (Many P) s = []"
| "rx_groups (Cat a b) s =
     (case longest (\<lambda>i. rx_matches a (take i s) \<and> rx_matches b (drop i s)) (length s) of
        None \<Rightarrow> []
      | Some i \<Rightarrow> rx_groups a (take i s) @ rx_groups b (drop i s))"
| "rx_groups (Alt a b) s = (if rx_matches a s then rx_groups a s else rx_groups b s)"
| "rx_groups (Opt a) s = (if rx_matches a s then rx_groups a s else [])"
| "rx_groups (Grp n a) s = (n, s) # rx_groups a s"

text \<open>The number of groups (\<open>re_nsub\<close>); they are numbered from 1.\<close>

fun re_nsub :: "rx \<Rightarrow> nat" where
  "re_nsub (Cat a b) = re_nsub a + re_nsub b"
| "re_nsub (Alt a b) = re_nsub a + re_nsub b"
| "re_nsub (Opt a) = re_nsub a"
| "re_nsub (Grp n a) = Suc (re_nsub a)"
| "re_nsub _ = 0"

text \<open>The length of the longest match at the start of a string, and the first place that has one.\<close>

definition match_len :: "rx \<Rightarrow> string \<Rightarrow> nat option" where
  "match_len r s = longest (\<lambda>n. rx_matches r (take n s)) (length s)"

fun rx_find :: "rx \<Rightarrow> string \<Rightarrow> (nat \<times> string) option" where
  "rx_find r [] = map_option (\<lambda>n. (0, [])) (match_len r [])"
| "rx_find r (c # s) =
     (case match_len r (c # s) of
        Some n \<Rightarrow> Some (0, take n (c # s))
      | None \<Rightarrow> map_option (\<lambda>(i, m). (Suc i, m)) (rx_find r s))"

text \<open>\<open>regexec\<close> on a C string: where the match starts, its text, and the groups that took part.\<close>

definition regexec :: "rx \<Rightarrow> string \<Rightarrow> (nat \<times> string \<times> (nat \<times> string) list) option" where
  "regexec r s = map_option (\<lambda>(i, m). (i, m, rx_groups r m)) (rx_find r s)"

section \<open>sub_match, cmatch and regex_search\<close>

record sub_match =
  sm_text :: string
  matched :: bool

definition str :: "sub_match \<Rightarrow> string" where
  "str m = (if matched m then sm_text m else [])"

type_synonym cmatch = "sub_match list"

text \<open>The vector that \<open>_Search\<close> fills: the whole match first, then every group.\<close>

definition regex_search :: "rx \<Rightarrow> string \<Rightarrow> cmatch option" where
  "regex_search r s =
     (case regexec r s of
        None \<Rightarrow> None
      | Some (i, m, gs) \<Rightarrow>
          Some (\<lparr>sm_text = m, matched = True\<rparr> #
            map (\<lambda>n. case map_of gs n of
                       None \<Rightarrow> \<lparr>sm_text = [], matched = False\<rparr>
                     | Some t \<Rightarrow> \<lparr>sm_text = t, matched = True\<rparr>) [1..<Suc (re_nsub r)]))"

section \<open>Laws of matching\<close>

lemma longest_0: "longest P 0 = (if P 0 then Some 0 else None)"
  by (simp add: longest_def)

lemma longest_Suc: "longest P (Suc n) = (if P (Suc n) then Some (Suc n) else longest P n)"
  by (simp add: longest_def)

lemma longest_Some:
  "longest P n = Some i \<longleftrightarrow> i \<le> n \<and> P i \<and> (\<forall>j. i < j \<and> j \<le> n \<longrightarrow> \<not> P j)"
proof (induction n)
  case (Suc n)
  show ?case
  proof (cases "P (Suc n)")
    case True
    then have "longest P (Suc n) = Some i \<longleftrightarrow> i = Suc n" by (auto simp: longest_Suc)
    also have "\<dots> \<longleftrightarrow> i \<le> Suc n \<and> P i \<and> (\<forall>j. i < j \<and> j \<le> Suc n \<longrightarrow> \<not> P j)"
    proof
      assume "i \<le> Suc n \<and> P i \<and> (\<forall>j. i < j \<and> j \<le> Suc n \<longrightarrow> \<not> P j)"
      with True show "i = Suc n" by (metis le_neq_implies_less le_refl)
    qed (use True in auto)
    finally show ?thesis .
  next
    case False
    with Suc show ?thesis by (auto simp: longest_Suc le_Suc_eq)
  qed
qed (auto simp: longest_0)

lemma longest_None: "longest P n = None \<longleftrightarrow> (\<forall>j \<le> n. \<not> P j)"
  by (induction n) (auto simp: longest_0 longest_Suc le_Suc_eq)

lemma matches_Cat:
  "rx_matches (Cat a b) s \<longleftrightarrow> (\<exists>p q. s = p @ q \<and> rx_matches a p \<and> rx_matches b q)"
proof
  assume "rx_matches (Cat a b) s"
  then obtain i where "rx_matches a (take i s)" "rx_matches b (drop i s)"
    unfolding rx_matches.simps list_ex_iff by blast
  then show "\<exists>p q. s = p @ q \<and> rx_matches a p \<and> rx_matches b q" by (metis append_take_drop_id)
next
  assume "\<exists>p q. s = p @ q \<and> rx_matches a p \<and> rx_matches b q"
  then obtain p q where "s = p @ q" "rx_matches a p" "rx_matches b q" by blast
  then show "rx_matches (Cat a b) s" by (auto simp: list_ex_iff intro!: bexI [of _ "length p"])
qed

declare rx_matches.simps(4) [simp del]

lemma matches_CatI: "rx_matches a p \<Longrightarrow> rx_matches b q \<Longrightarrow> rx_matches (Cat a b) (p @ q)"
  by (auto simp: matches_Cat)

text \<open>The first part of a sequence is the longest one that can be.\<close>

lemma groups_Cat:
  assumes "rx_matches a p" and "rx_matches b q"
    and "\<And>p' q'. p' @ q' = p @ q \<Longrightarrow> rx_matches a p' \<Longrightarrow> rx_matches b q' \<Longrightarrow> length p' \<le> length p"
  shows "rx_groups (Cat a b) (p @ q) = rx_groups a p @ rx_groups b q"
proof -
  let ?s = "p @ q"
  have "longest (\<lambda>i. rx_matches a (take i ?s) \<and> rx_matches b (drop i ?s)) (length ?s) = Some (length p)"
    unfolding longest_Some
  proof (intro conjI allI impI notI)
    fix j assume j: "length p < j \<and> j \<le> length ?s" "rx_matches a (take j ?s) \<and> rx_matches b (drop j ?s)"
    have "length (take j ?s) \<le> length p" 
      using assms(3) [of "take j ?s" "drop j ?s"] j(2) append_take_drop_id [of j ?s] by blast
    moreover have "length (take j ?s) = j" using j(1) unfolding length_take by (rule min.absorb2 [OF conjunct2])
    ultimately show False using j(1) by simp
  qed (use assms in simp_all)
  then show ?thesis by simp
qed

text \<open>In particular when no match of the first part goes on with what follows.\<close>

definition halts :: "rx \<Rightarrow> string \<Rightarrow> string \<Rightarrow> bool" where
  "halts a p q \<longleftrightarrow> (\<forall>u v. q = u @ v \<longrightarrow> u \<noteq> [] \<longrightarrow> \<not> rx_matches a (p @ u))"

lemma groups_Cat_halts:
  assumes "rx_matches a p" and "rx_matches b q" and "halts a p q"
  shows "rx_groups (Cat a b) (p @ q) = rx_groups a p @ rx_groups b q"
proof (rule groups_Cat [OF assms(1,2)])
  fix p' q' assume p: "p' @ q' = p @ q" "rx_matches a p'"
  show "length p' \<le> length p"
  proof (rule ccontr)
    assume "\<not> length p' \<le> length p"
    with p(1) obtain u where "p' = p @ u" "q = u @ q'" "u \<noteq> []"
      by (auto simp: append_eq_append_conv2)
    with assms(3) p(2) show False by (auto simp: halts_def)
  qed
qed

definition starts_with :: "(char \<Rightarrow> bool) \<Rightarrow> string \<Rightarrow> bool" where
  "starts_with P s = (case s of [] \<Rightarrow> False | c # _ \<Rightarrow> P c)"

lemma starts_with_simps [simp]: "\<not> starts_with P []" "starts_with P (c # s) \<longleftrightarrow> P c"
  by (simp_all add: starts_with_def)

lemma halts_Nil [simp]: "halts a p []"
  by (simp add: halts_def)

lemma halts_Lit [simp]: "halts (Lit l) l q"
  by (auto simp: halts_def)

lemma halts_class: "\<not> starts_with P q \<Longrightarrow> halts (Any P) p q" "\<not> starts_with P q \<Longrightarrow> halts (Many P) p q"
  by (auto simp: halts_def starts_with_def Cons_eq_append_conv split: list.splits)

lemma halts_Grp [simp]: "halts (Grp n a) p q \<longleftrightarrow> halts a p q"
  by (simp add: halts_def)

lemma halts_Opt: "halts a p q \<Longrightarrow> halts (Opt a) p q"
  by (auto simp: halts_def)

lemma halts_Alt: "halts a p q \<Longrightarrow> halts b p q \<Longrightarrow> halts (Alt a b) p q"
  by (auto simp: halts_def)

lemma halts_set:
  assumes "\<And>s. rx_matches a s \<Longrightarrow> \<forall>c \<in> set s. P c" and "\<not> starts_with P q"
  shows "halts a p q"
  unfolding halts_def
proof (intro allI impI notI)
  fix u v assume "q = u @ v" "u \<noteq> []" "rx_matches a (p @ u)"
  then have "starts_with P q" using assms(1) [of "p @ u"] by (cases u) auto
  with assms(2) show False ..
qed

lemma halts_length: "(\<And>s. rx_matches a s \<Longrightarrow> length s \<le> length p) \<Longrightarrow> halts a p q"
  by (fastforce simp: halts_def)

text \<open>A match together with its groups, built up along the expression.\<close>

definition yields :: "rx \<Rightarrow> string \<Rightarrow> (nat \<times> string) list \<Rightarrow> bool" where
  "yields r s gs \<longleftrightarrow> rx_matches r s \<and> rx_groups r s = gs"

lemma yields_Cat: "yields a p g \<Longrightarrow> halts a p q \<Longrightarrow> yields b q g' \<Longrightarrow> yields (Cat a b) (p @ q) (g @ g')"
  unfolding yields_def using groups_Cat_halts matches_CatI by blast

lemma yields_Grp: "yields a s g \<Longrightarrow> yields (Grp n a) s ((n, s) # g)"
  by (simp add: yields_def)

lemma yields_Opt: "yields a s g \<Longrightarrow> yields (Opt a) s g"
  by (simp add: yields_def)

lemma yields_class: "list_all P s \<Longrightarrow> yields (Any P) s []" "s \<noteq> [] \<Longrightarrow> list_all P s \<Longrightarrow> yields (Many P) s []"
  by (simp_all add: yields_def)

lemma yields_Lit: "yields (Lit l) l []"
  by (simp add: yields_def)

lemma yields_Opt_none: "\<not> rx_matches a [] \<Longrightarrow> yields (Opt a) [] []"
  by (simp add: yields_def)

lemma yields_Alt: "yields a s g \<Longrightarrow> yields (Alt a b) s g" "\<not> rx_matches a s \<Longrightarrow> yields b s g \<Longrightarrow> yields (Alt a b) s g"
  by (simp_all add: yields_def)

section \<open>Laws of searching\<close>

lemma match_len_None: "match_len r s = None \<longleftrightarrow> (\<forall>m q. s = m @ q \<longrightarrow> \<not> rx_matches r m)"
  unfolding match_len_def longest_None by (metis append_eq_conv_conj append_take_drop_id le_add1 length_append)

lemma match_len_eq:
  assumes "rx_matches r m" and "halts r m t"
  shows "match_len r (m @ t) = Some (length m)"
  unfolding match_len_def longest_Some
proof (intro conjI allI impI notI)
  fix j assume j: "length m < j \<and> j \<le> length (m @ t)" "rx_matches r (take j (m @ t))"
  let ?u = "take (j - length m) t"
  have "take j (m @ t) = m @ ?u" "t = ?u @ drop (j - length m) t" "?u \<noteq> []" using j(1) by auto
  with assms(2) j(2) show False by (metis halts_def)
qed (use assms in simp_all)

lemma rx_find_None: "rx_find r s = None \<longleftrightarrow> (\<forall>p m q. s = p @ m @ q \<longrightarrow> \<not> rx_matches r m)"
proof (induction s)
  case (Cons c s)
  have split: "c # s = p @ x \<longleftrightarrow> (p = [] \<and> x = c # s) \<or> (\<exists>p'. p = c # p' \<and> s = p' @ x)" for p x
    by (auto simp: Cons_eq_append_conv)
  have "(\<forall>p m q. c # s = p @ m @ q \<longrightarrow> \<not> rx_matches r m) \<longleftrightarrow>
    (\<forall>m q. c # s = m @ q \<longrightarrow> \<not> rx_matches r m) \<and> (\<forall>p m q. s = p @ m @ q \<longrightarrow> \<not> rx_matches r m)"
    unfolding split [where x = "_ @ _"] by metis
  also have "\<dots> \<longleftrightarrow> match_len r (c # s) = None \<and> rx_find r s = None"
    unfolding match_len_None Cons ..
  finally show ?case by (auto split: option.splits)
qed (auto simp: match_len_None)

lemma regexec_None: "regexec r s = None \<longleftrightarrow> (\<forall>p m q. s = p @ m @ q \<longrightarrow> \<not> rx_matches r m)"
  by (simp add: regexec_def rx_find_None)

lemma rx_find_SomeD:
  "rx_find r s = Some (i, m) \<Longrightarrow> \<exists>p q. s = p @ m @ q \<and> length p = i \<and> rx_matches r m"
proof (induction s arbitrary: i)
  case Nil
  then show ?case by (auto simp: match_len_def longest_Some)
next
  case (Cons c s)
  show ?case
  proof (cases "match_len r (c # s)")
    case None
    with Cons.prems obtain k where "rx_find r s = Some (k, m)" "i = Suc k" by auto
    with Cons.IH obtain p q where "s = p @ m @ q" "length p = k" "rx_matches r m" by blast
    with \<open>i = Suc k\<close> show ?thesis by (intro exI [of _ "c # p"] exI [of _ q]) auto
  next
    case (Some n)
    with Cons.prems have "i = 0" "m = take n (c # s)" by auto
    with Some show ?thesis
      by (intro exI [of _ "[]"] exI [of _ "drop n (c # s)"]) (simp add: match_len_def longest_Some)
  qed
qed

lemma regexec_at_start:
  assumes "rx_matches r m" and "halts r m t"
  shows "regexec r (m @ t) = Some (0, m, rx_groups r m)"
proof -
  have "rx_find r (m @ t) = Some (0, m)"
  proof (cases "m @ t")
    case (Cons c s)
    then have "rx_find r (m @ t) = Some (0, take (length m) (m @ t))"
      using match_len_eq [OF assms] by simp
    then show ?thesis by simp
  qed (use match_len_eq [OF assms] in simp)
  then show ?thesis by (simp add: regexec_def)
qed

lemma regexec_yields: "yields r m gs \<Longrightarrow> halts r m t \<Longrightarrow> regexec r (m @ t) = Some (0, m, gs)"
  using regexec_at_start by (simp add: yields_def)

text \<open>Text in which no match can start is skipped.\<close>

lemma rx_find_skip:
  "(\<And>u v. p = u @ v \<Longrightarrow> v \<noteq> [] \<Longrightarrow> match_len r (v @ s) = None) \<Longrightarrow>
    rx_find r (p @ s) = map_option (\<lambda>(i, m). (length p + i, m)) (rx_find r s)"
proof (induction p)
  case (Cons c p)
  have "match_len r (c # p @ s) = None" using Cons.prems [of "[]"] by simp
  moreover have "rx_find r (p @ s) = map_option (\<lambda>(i, m). (length p + i, m)) (rx_find r s)"
    using Cons.prems by (intro Cons.IH) (metis append_Cons)
  ultimately show ?case by (simp add: option.map_comp comp_def case_prod_unfold)
qed (simp add: option.map_ident case_prod_unfold)

text \<open>A group as the scanners of the program read it.\<close>

definition group_at :: "cmatch \<Rightarrow> nat \<Rightarrow> string option" where
  "group_at v n = (if matched (v ! n) then Some (sm_text (v ! n)) else None)"

lemma group_atD:
  "group_at v n = None \<Longrightarrow> \<not> matched (v ! n)" "group_at v n = Some x \<Longrightarrow> matched (v ! n) \<and> str (v ! n) = x"
  by (auto simp: group_at_def str_def split: if_splits)

lemma regex_search_groups:
  assumes "regexec r s = Some (i, m, gs)"
  obtains v where "regex_search r s = Some v" "length v = Suc (re_nsub r)"
    "matched (v ! 0)" "sm_text (v ! 0) = m"
    "\<And>n. 1 \<le> n \<Longrightarrow> n \<le> re_nsub r \<Longrightarrow> group_at v n = map_of gs n"
proof -
  let ?g = "\<lambda>n. case map_of gs n of None \<Rightarrow> \<lparr>sm_text = [], matched = False\<rparr>
    | Some t \<Rightarrow> \<lparr>sm_text = t, matched = True\<rparr>"
  let ?v = "\<lparr>sm_text = m, matched = True\<rparr> # map ?g [1..<Suc (re_nsub r)]"
  have nth: "?v ! n = ?g n" if "1 \<le> n" "n \<le> re_nsub r" for n
    using that by (cases n) (simp_all add: nth_Cons' del: upt_Suc)
  have "regex_search r s = Some ?v"
    by (simp add: regex_search_def assms del: upt_Suc)
  then show thesis
    by (rule that) (use nth in \<open>simp_all add: group_at_def split: option.splits del: upt_Suc\<close>)
qed

end
