(* ===== verification/HlsUri.thy ===== *)
theory HlsUri
  imports HlsRegex
begin

text \<open>
  Class \<open>Uri\<close> of \<open>hlspxd\<close> (\<open>utils.h\<close>, \<open>utils.cpp\<close>): parsing with \<open>uriRx\<close>, percent encoding and
  decoding, printing, resolution against a base. A \<open>throw\<close> is an \<open>Inl\<close>. The feed compiles with
  \<open>-fsigned-char\<close>, so comparisons of a \<open>char\<close> are on its signed value (\<open>schar\<close>).
\<close>

section \<open>Exceptions\<close>

text \<open>\<open>throw Exception (...)\<close> with its formatted message, and \<open>throw\<close> of an \<open>int\<close>.\<close>

datatype hls_exn = Exn string | IntExn nat

section \<open>The class\<close>

record uri =
  host :: string
  port :: string
  path :: string

definition no_uri :: uri where
  "no_uri = \<lparr>host = [], port = [], path = []\<rparr>"

definition schar :: "char \<Rightarrow> int" where
  "schar c = (let n = of_char c :: int in if n < 128 then n else n - 256)"

definition isdigit :: "char \<Rightarrow> bool" where
  "isdigit c \<longleftrightarrow> CHR ''0'' \<le> c \<and> c \<le> CHR ''9''"

text \<open>\<open>[^\/:]\<close>: in a bracket expression the backslash stands for itself.\<close>

definition host_char :: "char \<Rightarrow> bool" where
  "host_char c \<longleftrightarrow> c \<noteq> CHR 0x5C \<and> c \<noteq> CHR ''/'' \<and> c \<noteq> CHR '':''"

definition uriRx :: rx where
  "uriRx =
     Cat (Opt (Grp 1 (Cat (Lit ''http://'') (Cat (Grp 2 (Many host_char))
       (Opt (Grp 3 (Cat (Lit '':'') (Grp 4 (Many isdigit)))))))))
     (Cat (Opt (Lit ''/'')) (Grp 5 (Many (\<lambda>_. True))))"

section \<open>decode\<close>

text \<open>The value of a hexadecimal digit as \<open>decode\<close> computes it.\<close>

definition hex_val :: "char \<Rightarrow> int option" where
  "hex_val c =
     (let n = schar c in
      if 48 \<le> n \<and> n \<le> 57 then Some (n - 48)
      else if 65 \<le> n \<and> n \<le> 70 then Some (n - 65 + 10)
      else if 97 \<le> n \<and> n \<le> 102 then Some (n - 97 + 10)
      else None)"

text \<open>
  The loop of \<open>decode\<close> with its iterator at the last argument: what it appends. \<open>whole\<close> is the string
  being decoded, for the message. The sum of the digits is stored in a \<open>char\<close>.
\<close>

fun decode_loop_uri :: "string \<Rightarrow> bool \<Rightarrow> bool \<Rightarrow> string \<Rightarrow> hls_exn + string" where
  "decode_loop_uri whole plus_as_space in_query [] = Inr []"
| "decode_loop_uri whole plus_as_space in_query (c # s) =
     (let in_query = (in_query \<or> c = CHR ''?'') in
      if in_query \<and> plus_as_space \<and> c = CHR ''+'' then
        map_sum id (Cons (CHR '' '')) (decode_loop_uri whole plus_as_space in_query s)
      else if c = CHR ''%'' then
        (case s of
           [] \<Rightarrow> Inl (Exn (''URI encoding: no hex digit following percent sign '' @ [CHR 0x27]
             @ cstr whole 0 @ [CHR 0x27]))
         | [hi] \<Rightarrow> Inl (Exn (''URI encoding: two hex digits must follow percent sign '' @ [CHR 0x27]
             @ cstr whole 0 @ [CHR 0x27]))
         | hi # lo # s' \<Rightarrow>
             (case hex_val hi of
                None \<Rightarrow> Inl (IntExn 2)
              | Some h \<Rightarrow>
                  (case hex_val lo of
                     None \<Rightarrow> Inl (IntExn 2)
                   | Some l \<Rightarrow>
                       map_sum id (Cons (char_of (h * 16 + l)))
                         (decode_loop_uri whole plus_as_space in_query s'))))
      else map_sum id (Cons c) (decode_loop_uri whole plus_as_space in_query s))"

definition uri_decode :: "string \<Rightarrow> bool \<Rightarrow> hls_exn + string" where
  "uri_decode s plus_as_space = decode_loop_uri s plus_as_space False s"

section \<open>encode\<close>

text \<open>\<open>formatHex\<close>: \<open>%02hx\<close> of an \<open>unsigned char\<close>.\<close>

definition formatHex :: "char \<Rightarrow> string" where
  "formatHex c = (let n = of_char c in [digit_char (n div 16), digit_char (n mod 16)])"

definition ILLEGAL :: string where
  "ILLEGAL = ''%<>{}|'' @ [CHR 0x5C, CHR 0x22, CHR ''^'', CHR 0x60]"

definition RESERVED_PATH :: string where
  "RESERVED_PATH = ''?#''"

definition encode_char :: "string \<Rightarrow> char \<Rightarrow> string" where
  "encode_char reserved c =
     (let n = schar c in
      if (97 \<le> n \<and> n \<le> 122) \<or> (65 \<le> n \<and> n \<le> 90) \<or> (48 \<le> n \<and> n \<le> 57) \<or>
         c = CHR ''-'' \<or> c = CHR ''_'' \<or> c = CHR ''.'' \<or> c = CHR ''~'' then [c]
      else if n \<le> 0x20 \<or> n \<ge> 0x7F \<or> c \<in> set ILLEGAL \<or> c \<in> set reserved then CHR ''%'' # formatHex c
      else [c])"

definition uri_encode :: "string \<Rightarrow> string \<Rightarrow> string" where
  "uri_encode s reserved = concat (map (encode_char reserved) s)"

section \<open>parse, printing, resolution\<close>

text \<open>\<open>parse\<close> on an object that was cleared before.\<close>

definition uri_parse :: "string \<Rightarrow> hls_exn + uri" where
  "uri_parse s =
     (case regex_search uriRx (cstr s 0) of
        None \<Rightarrow> Inl (Exn ''Wrong URI'')
      | Some res \<Rightarrow>
          (case (if matched (res ! 2) then uri_decode (str (res ! 2)) False else Inr []) of
             Inl e \<Rightarrow> Inl e
           | Inr h \<Rightarrow>
               (let p = (if matched (res ! 4) then cstr (str (res ! 4)) 0 else []);
                    p = (if p = ''80'' then [] else p)
                in case uri_decode (str (res ! 5)) False of
                     Inl e \<Rightarrow> Inl e
                   | Inr f \<Rightarrow> Inr \<lparr>host = h, port = p, path = f\<rparr>)))"

definition isRelative :: "uri \<Rightarrow> bool" where
  "isRelative u \<longleftrightarrow> host u = []"

definition uri_empty :: "uri \<Rightarrow> bool" where
  "uri_empty u \<longleftrightarrow> host u = [] \<and> path u = []"

definition uri_toString :: "uri \<Rightarrow> string" where
  "uri_toString u =
     (if isRelative u then path u
      else ''http://'' @ host u @ (if port u \<noteq> [] then CHR '':'' # port u else []) @ CHR ''/'' # path u)"

definition getHost :: "uri \<Rightarrow> string" where
  "getHost u = uri_encode (host u) RESERVED_PATH"

definition getPort :: "uri \<Rightarrow> string" where
  "getPort u = (if port u = [] then ''80'' else port u)"

definition getPath :: "uri \<Rightarrow> string" where
  "getPath u = uri_encode (path u) []"

text \<open>\<open>substr (0, rfind ('/') + 1)\<close>: up to the last slash, nothing without one.\<close>

definition up_to_slash :: "string \<Rightarrow> string" where
  "up_to_slash s = rev (dropWhile (\<lambda>c. c \<noteq> CHR ''/'') (rev s))"

text \<open>The constructor \<open>Uri (base, str)\<close>.\<close>

definition uri_resolve :: "uri \<Rightarrow> string \<Rightarrow> uri" where
  "uri_resolve base s = \<lparr>host = host base, port = port base, path = up_to_slash (path base) @ s\<rparr>"

section \<open>Encoding is inverted by decoding\<close>

lemma schar_cases: "schar c = of_char c \<and> (of_char c :: int) < 128 \<or> schar c = of_char c - 256 \<and> 128 \<le> (of_char c :: int)"
  by (auto simp: schar_def Let_def)

lemma of_char_bound: "(of_char c :: nat) < 256" "(of_char c :: int) < 256" "0 \<le> (of_char c :: int)"
proof -
  show n: "(of_char c :: nat) < 256" using of_char_mod_256 [of c, where 'a = nat] by (metis mod_less_divisor zero_less_numeral)
  have "int (of_char c) = of_char c" by (rule of_nat_of_char)
  with n show "(of_char c :: int) < 256" "0 \<le> (of_char c :: int)" by linarith+
qed

lemma of_char_int_nat: "(of_char (char_of (n :: nat)) :: int) = int (n mod 256)"
  by (metis of_char_of of_nat_of_char)

lemma hex_val_digit: "d < 16 \<Longrightarrow> hex_val (digit_char d) = Some (int d)"
proof -
  assume "d < 16"
  then have "d \<in> set [0..<16]" by simp
  then show ?thesis
    by (simp add: upt_conv_Cons)
      (elim disjE; simp add: hex_val_def digit_char_def schar_def Let_def of_char_int_nat)
qed

lemma decode_hex:
  "decode_loop_uri whole False q (CHR ''%'' # formatHex c @ s) = map_sum id (Cons c) (decode_loop_uri whole False q s)"
proof -
  let ?n = "of_char c :: nat"
  have n: "?n < 256" by (rule of_char_bound)
  have "int (?n div 16) * 16 + int (?n mod 16) = int ?n"
    by (metis div_mult_mod_eq of_nat_add of_nat_mult of_nat_numeral)
  then have "char_of (int (?n div 16) * 16 + int (?n mod 16)) = c" by simp
  moreover have "hex_val (digit_char (?n div 16)) = Some (int (?n div 16))"
    "hex_val (digit_char (?n mod 16)) = Some (int (?n mod 16))"
    using n hex_val_digit [of "?n div 16"] hex_val_digit [of "?n mod 16"] by (simp_all add: less_mult_imp_div_less)
  ultimately show ?thesis by (simp add: formatHex_def Let_def)
qed

lemma decode_encode_char:
  "decode_loop_uri whole False q (encode_char r c @ s) =
    map_sum id (Cons c) (decode_loop_uri whole False (q \<or> encode_char r c = [c] \<and> c = CHR ''?'') s)"
proof (cases "encode_char r c = [c]")
  case True
  have "schar (CHR ''%'') = 37" by (simp add: schar_def)
  then have "encode_char r (CHR ''%'') \<noteq> [CHR ''%'']" by (simp add: encode_char_def ILLEGAL_def formatHex_def Let_def)
  with True have "c \<noteq> CHR ''%''" by metis
  with True show ?thesis by simp
next
  case False
  then have "encode_char r c = CHR ''%'' # formatHex c"
    by (auto simp: encode_char_def Let_def split: if_splits)
  then have "decode_loop_uri whole False q (encode_char r c @ s) = map_sum id (Cons c) (decode_loop_uri whole False q s)"
    by (simp add: decode_hex del: decode_loop_uri.simps)
  with False show ?thesis by simp
qed

lemma decode_encode_loop: "decode_loop_uri whole False q (uri_encode s r) = Inr s"
  by (induction s arbitrary: q) (simp_all add: uri_encode_def decode_encode_char)

lemma decode_uri_plain: "CHR ''%'' \<notin> set s \<Longrightarrow> decode_loop_uri whole False q s = Inr s"
  by (induction s arbitrary: q) auto

lemma uri_decode_plain: "CHR ''%'' \<notin> set s \<Longrightarrow> uri_decode s False = Inr s"
  by (simp add: uri_decode_def decode_uri_plain)

text \<open>C17: percent encoding loses nothing: for every string and every set of reserved characters the
  decoder gives back the string that was encoded.\<close>

theorem decode_encode: "uri_decode (uri_encode s reserved) False = Inr s"
  by (simp add: uri_decode_def decode_encode_loop)

section \<open>Parsing\<close>

lemma host_pattern:
  "rx_matches (Cat (Lit ''http://'') (Cat (Grp a (Many host_char))
       (Opt (Grp b (Cat (Lit '':'') (Grp d (Many isdigit))))))) s \<longleftrightarrow>
    (\<exists>h p. s = ''http://'' @ h @ p \<and> h \<noteq> [] \<and> list_all host_char h \<and>
      (p = [] \<or> (\<exists>d. p = CHR '':'' # d \<and> d \<noteq> [] \<and> list_all isdigit d)))"
proof -
  have port: "rx_matches (Opt (Grp b (Cat (Lit '':'') (Grp d (Many isdigit))))) p \<longleftrightarrow>
    p = [] \<or> (\<exists>d. p = CHR '':'' # d \<and> d \<noteq> [] \<and> list_all isdigit d)" for p
    by (simp add: matches_Cat)
  show ?thesis
    unfolding matches_Cat [of "Lit _"] matches_Cat [of "Grp a _"] port by (simp add: ex_simps) metis
qed

lemma isdigit_plain: "isdigit c \<Longrightarrow> c \<noteq> CHR ''/'' \<and> c \<noteq> CHR '':'' \<and> c \<noteq> NUL \<and> c \<noteq> newline"
  by (auto simp: isdigit_def)

lemma host_chars_no_slash: "list_all host_char h \<Longrightarrow> CHR ''/'' \<notin> set h"
  by (auto simp: list_all_iff host_char_def)

lemma digits_no_slash: "list_all isdigit d \<Longrightarrow> CHR ''/'' \<notin> set d \<and> NUL \<notin> set d"
  using isdigit_plain unfolding list_all_iff by blast

lemma host_pattern_no_slash:
  assumes "rx_matches (Cat (Lit ''http://'') (Cat (Grp a (Many host_char))
       (Opt (Grp b (Cat (Lit '':'') (Grp d (Many isdigit))))))) s"
  shows "\<exists>w. s = ''http://'' @ w \<and> CHR ''/'' \<notin> set w"
proof -
  obtain h p where s: "s = ''http://'' @ h @ p" "list_all host_char h"
    "p = [] \<or> (\<exists>d. p = CHR '':'' # d \<and> d \<noteq> [] \<and> list_all isdigit d)"
    using assms unfolding host_pattern by blast
  have "CHR ''/'' \<notin> set (h @ p)"
    using s(3) host_chars_no_slash [OF s(2)] by (auto dest: digits_no_slash)
  with s(1) show ?thesis by blast
qed

text \<open>The text of the port as it stands behind the host.\<close>

definition port_text :: "string \<Rightarrow> string" where
  "port_text p = (if p = [] then [] else CHR '':'' # p)"

lemma halts_host:
  assumes "CHR ''/'' \<notin> set h" "CHR ''/'' \<notin> set p"
  shows "halts (Opt (Grp k (Cat (Lit ''http://'') (Cat (Grp a (Many host_char))
       (Opt (Grp b (Cat (Lit '':'') (Grp d (Many isdigit)))))))))
     (''http://'' @ h @ p) (CHR ''/'' # r)"
  unfolding halts_def
proof (intro allI impI notI)
  fix u v assume r: "CHR ''/'' # r = u @ v" "u \<noteq> []"
    and m: "rx_matches (Opt (Grp k (Cat (Lit ''http://'') (Cat (Grp a (Many host_char))
       (Opt (Grp b (Cat (Lit '':'') (Grp d (Many isdigit))))))))) ((''http://'' @ h @ p) @ u)"
  from r obtain u' where u: "u = CHR ''/'' # u'" by (auto simp: Cons_eq_append_conv)
  from m obtain w where "(''http://'' @ h @ p) @ u = ''http://'' @ w" "CHR ''/'' \<notin> set w"
    using host_pattern_no_slash [where s = "(''http://'' @ h @ p) @ u"] by auto
  then show False by (auto simp: u)
qed

lemma groups_host:
  assumes "h \<noteq> []" "list_all host_char h" "list_all isdigit p"
  shows "rx_groups (Cat (Lit ''http://'') (Cat (Grp a (Many host_char))
       (Opt (Grp b (Cat (Lit '':'') (Grp d (Many isdigit))))))) (''http://'' @ h @ port_text p) =
    (a, h) # (if p = [] then [] else [(b, CHR '':'' # p), (d, p)])"
proof -
  have "\<not> starts_with host_char (port_text p)" by (simp add: port_text_def host_char_def)
  then have 1: "rx_groups (Cat (Grp a (Many host_char)) (Opt (Grp b (Cat (Lit '':'') (Grp d (Many isdigit))))))
      (h @ port_text p) =
    [(a, h)] @ rx_groups (Opt (Grp b (Cat (Lit '':'') (Grp d (Many isdigit))))) (port_text p)"
    using assms by (subst groups_Cat_halts) (auto simp: port_text_def halts_class matches_Cat)
  have 2: "rx_groups (Cat (Lit '':'') (Grp d (Many isdigit))) ('':'' @ p) = [(d, p)]" if "p \<noteq> []"
    using assms that by (subst groups_Cat_halts) simp_all
  have 3: "rx_matches (Cat (Lit '':'') (Grp d (Many isdigit))) (port_text p) \<longleftrightarrow> p \<noteq> []"
    using assms by (auto simp: port_text_def matches_Cat)
  have "rx_matches (Cat (Grp a (Many host_char)) (Opt (Grp b (Cat (Lit '':'') (Grp d (Many isdigit))))))
      (h @ port_text p)"
    using assms 3 by (intro matches_CatI) (auto simp: port_text_def)
  then show ?thesis using 1 2 3
    by (subst groups_Cat_halts) (auto simp: port_text_def simp del: rx_groups.simps(4))
qed

lemma groups_uriRx:
  assumes "h \<noteq> []" "list_all host_char h" "list_all isdigit p" "f \<noteq> []"
  shows "rx_groups uriRx (''http://'' @ h @ port_text p @ CHR ''/'' # f) =
    (1, ''http://'' @ h @ port_text p) # (2, h) #
      (if p = [] then [] else [(3, CHR '':'' # p), (4, p)]) @ [(5, f)]"
proof -
  let ?u = "''http://'' @ h @ port_text p"
  let ?a = "Cat (Lit ''http://'') (Cat (Grp 2 (Many host_char)) (Opt (Grp 3 (Cat (Lit '':'') (Grp 4 (Many isdigit))))))"
  let ?b = "Cat (Opt (Lit ''/'')) (Grp 5 (Many (\<lambda>_. True)))"
  have u: "rx_matches ?a ?u" unfolding host_pattern using assms by (auto simp: port_text_def)
  have h: "CHR ''/'' \<notin> set h" "CHR ''/'' \<notin> set (port_text p)"
    using host_chars_no_slash [OF assms(2)] digits_no_slash [OF assms(3)] by (simp_all add: port_text_def)
  have m: "rx_matches ?b (''/'' @ f)" using assms(4) by (intro matches_CatI) (auto simp: list_all_iff)
  have "rx_groups ?b (''/'' @ f) = [(5, f)]"
    using assms(4) by (subst groups_Cat_halts) (auto simp: list_all_iff halts_def)
  moreover have "rx_groups (Cat (Opt (Grp 1 ?a)) ?b) (?u @ ''/'' @ f) =
      rx_groups (Opt (Grp 1 ?a)) ?u @ rx_groups ?b (''/'' @ f)"
    using u m halts_host [OF h, where r = f] by (intro groups_Cat_halts) simp_all
  ultimately show ?thesis
    using u groups_host [OF assms(1-3)] by (simp add: uriRx_def del: rx_groups.simps(4))
qed

lemma matches_uriRx: "s \<noteq> [] \<Longrightarrow> rx_matches uriRx s"
proof -
  assume "s \<noteq> []"
  then have "rx_matches uriRx ([] @ [] @ s)"
    unfolding uriRx_def by (intro matches_CatI) (simp_all add: list_all_iff)
  then show ?thesis by simp
qed

lemma re_nsub_uriRx [simp]: "re_nsub uriRx = 5"
  by (simp add: uriRx_def)

text \<open>What \<open>parse\<close> makes of a string is decided by the groups of the pattern on the whole of it.\<close>

lemma uri_parse_groups:
  assumes "s \<noteq> []" "nul_free s"
  obtains v where "regex_search uriRx (cstr s 0) = Some v"
    "\<And>n. 1 \<le> n \<Longrightarrow> n \<le> 5 \<Longrightarrow> group_at v n = map_of (rx_groups uriRx s) n"
proof -
  have "regexec uriRx s = Some (0, s, rx_groups uriRx s)"
    using regexec_at_start [of uriRx s "[]"] matches_uriRx [OF assms(1)] by simp
  with that regex_search_groups show thesis using assms(2) by (metis cstr_nul_free re_nsub_uriRx)
qed

text \<open>The objects whose text has the form of an address: a host, digits for a port, and a path.\<close>

definition uri_printable :: "uri \<Rightarrow> bool" where
  "uri_printable u \<longleftrightarrow> host u \<noteq> [] \<and> list_all (\<lambda>c. host_char c \<and> c \<noteq> NUL) (host u) \<and>
     list_all isdigit (port u) \<and> path u \<noteq> [] \<and> NUL \<notin> set (path u)"

text \<open>C37: parsing what \<open>toString\<close> prints of an absolute address with a path: host and path are decoded
  once more, and a port 80 is dropped. So the same object comes back when neither host nor path has a
  percent sign and the port is not 80.\<close>

theorem parse_toString:
  assumes "uri_printable u"
  shows "uri_parse (uri_toString u) =
      (case uri_decode (host u) False of
         Inl e \<Rightarrow> Inl e
       | Inr h \<Rightarrow> (case uri_decode (path u) False of
             Inl e \<Rightarrow> Inl e
           | Inr f \<Rightarrow> Inr \<lparr>host = h, port = (if port u = ''80'' then [] else port u), path = f\<rparr>)) \<and>
    (if CHR ''%'' \<notin> set (host u @ path u) \<and> port u \<noteq> ''80'' then uri_parse (uri_toString u) = Inr u else True)"
proof -
  have h: "host u \<noteq> []" "list_all host_char (host u)" "NUL \<notin> set (host u)"
    and p: "list_all isdigit (port u)" and f: "path u \<noteq> []" "NUL \<notin> set (path u)"
    using assms by (auto simp: uri_printable_def list_all_iff)
  let ?s = "''http://'' @ host u @ port_text (port u) @ CHR ''/'' # path u"
  have s: "uri_toString u = ?s" using h(1) by (simp add: uri_toString_def isRelative_def port_text_def)
  have np: "NUL \<notin> set (port u)" using digits_no_slash [OF p(1)] by blast
  have "nul_free ?s" using h(3) f(2) np by (auto simp: nul_free_def port_text_def)
  moreover have "?s \<noteq> []" by simp
  ultimately obtain v where v: "regex_search uriRx (cstr ?s 0) = Some v"
    "\<And>n. 1 \<le> n \<Longrightarrow> n \<le> 5 \<Longrightarrow> group_at v n = map_of (rx_groups uriRx ?s) n"
    using uri_parse_groups by blast
  note g = groups_uriRx [OF h(1,2) p f(1)]
  have "group_at v 2 = Some (host u)" "group_at v 5 = Some (path u)"
    "group_at v 4 = (if port u = [] then None else Some (port u))"
    using v(2) [of 2] v(2) [of 4] v(2) [of 5] unfolding g by simp_all
  then have 2: "matched (v ! 2)" "str (v ! 2) = host u" and 5: "str (v ! 5) = path u"
    and 4: "matched (v ! 4) \<longleftrightarrow> port u \<noteq> []" "port u \<noteq> [] \<Longrightarrow> str (v ! 4) = port u"
    by (auto dest: group_atD split: if_splits)
  have "nul_free (port u)" using np by (simp add: nul_free_def)
  then have port: "(if matched (v ! 4) then cstr (str (v ! 4)) 0 else []) = port u" using 4 by auto
  have parsed: "uri_parse (uri_toString u) =
      (case uri_decode (host u) False of
         Inl e \<Rightarrow> Inl e
       | Inr h \<Rightarrow> (case uri_decode (path u) False of
             Inl e \<Rightarrow> Inl e
           | Inr f \<Rightarrow> Inr \<lparr>host = h, port = (if port u = ''80'' then [] else port u), path = f\<rparr>))"
    unfolding s uri_parse_def v(1) option.case 2(2) 5 port Let_def if_P [OF 2(1)] by (rule refl)
  moreover have "if CHR ''%'' \<notin> set (host u @ path u) \<and> port u \<noteq> ''80'' then uri_parse (uri_toString u) = Inr u else True"
    unfolding parsed by (simp add: uri_decode_plain)
  ultimately show ?thesis by (rule conjI)
qed

theorem parse_toString_witness:
  "uri_parse (uri_toString \<lparr>host = ''h.tv'', port = ''8080'', path = ''live/a.m3u8''\<rparr>) =
    Inr \<lparr>host = ''h.tv'', port = ''8080'', path = ''live/a.m3u8''\<rparr>"
  using parse_toString [of "\<lparr>host = ''h.tv'', port = ''8080'', path = ''live/a.m3u8''\<rparr>"]
  by (simp add: uri_printable_def host_char_def isdigit_def less_eq_char_def uri_decode_plain)

text \<open>An address without a path is not parsed as one: \<open>(.+)\<close> needs a character, and as the longest
  host goes first, it is the last character of the host that becomes the path.\<close>

theorem parse_bare_host:
  assumes "h \<noteq> []" and "list_all (\<lambda>c. host_char c \<and> c \<noteq> CHR ''%'' \<and> c \<noteq> NUL) (h @ [c])"
  shows "uri_parse (''http://'' @ h @ [c]) = Inr \<lparr>host = h, port = [], path = [c]\<rparr>"
proof -
  let ?s = "''http://'' @ h @ [c]" and ?u = "''http://'' @ h"
  let ?a = "Cat (Lit ''http://'') (Cat (Grp 2 (Many host_char)) (Opt (Grp 3 (Cat (Lit '':'') (Grp 4 (Many isdigit))))))"
  let ?b = "Cat (Opt (Lit ''/'')) (Grp 5 (Many (\<lambda>_. True)))"
  have h: "list_all host_char h" "CHR ''%'' \<notin> set h" "NUL \<notin> set h" "c \<noteq> CHR ''/''" "c \<noteq> CHR ''%''" "c \<noteq> NUL"
    using assms(2) by (auto simp: list_all_iff host_char_def)
  have a: "rx_matches ?a ?u" unfolding host_pattern using assms(1) h(1) by auto
  have b: "rx_matches ?b ([] @ [c])" by (intro matches_CatI) auto
  have "rx_groups (Cat (Opt (Grp 1 ?a)) ?b) (?u @ [c]) = rx_groups (Opt (Grp 1 ?a)) ?u @ rx_groups ?b [c]"
  proof (rule groups_Cat)
    fix p q assume e: "p @ q = ?u @ [c]" "rx_matches ?b q"
    then have "q \<noteq> []" by (auto simp: matches_Cat)
    then have "0 < length q" by simp
    moreover have "length p + length q = length ?u + 1" using arg_cong [OF e(1), of length] by simp
    ultimately show "length p \<le> length ?u" by linarith
  qed (use a b in simp_all)
  moreover have "rx_groups ?b ([] @ [c]) = [(5, [c])]"
    using h(4) by (subst groups_Cat_halts) (auto simp: halts_def Cons_eq_append_conv)
  moreover have "rx_groups ?a ?u = [(2, h)]"
    using groups_host [OF assms(1) h(1), of "[]"] by (simp add: port_text_def)
  ultimately have g: "rx_groups uriRx ?s = [(1, ?u), (2, h), (5, [c])]"
    using a by (simp add: uriRx_def del: rx_groups.simps(4))
  have "nul_free ?s" using h by (auto simp: nul_free_def)
  then obtain v where v: "regex_search uriRx (cstr ?s 0) = Some v"
    "\<And>n. 1 \<le> n \<Longrightarrow> n \<le> 5 \<Longrightarrow> group_at v n = map_of (rx_groups uriRx ?s) n"
    using uri_parse_groups [of ?s] by auto
  have "group_at v 2 = Some h" "group_at v 4 = None" "group_at v 5 = Some [c]"
    using v(2) [of 2] v(2) [of 4] v(2) [of 5] unfolding g by simp_all
  then have "matched (v ! 2) \<and> str (v ! 2) = h" "\<not> matched (v ! 4)" "str (v ! 5) = [c]"
    by (auto dest: group_atD)
  with v(1) h show ?thesis unfolding uri_parse_def by (auto simp: uri_decode_plain Let_def)
qed

theorem parse_bare_host_witness:
  "uri_parse ''http://h.tv'' = Inr \<lparr>host = ''h.t'', port = [], path = ''v''\<rparr>"
  using parse_bare_host [of "''h.t''" "CHR ''v''"] by (simp add: host_char_def)

end
