(* ===== verification/HlsStream.thy ===== *)
theory HlsStream
  imports HlsUri "HOL-Library.Signed_Division"
begin

text \<open>
  The ground \<open>hlspxd\<close> stands on: its world and its record of actions, the log (\<open>LogWriter\<close>), and the
  streams over sockets: the classes \<open>socketbuf\<close> and \<open>socketstream\<close> with the parts of
  \<open>std::streambuf\<close>, \<open>std::istream\<close> and \<open>std::ostream\<close> (as libstdc++ has them) that call them. An
  exception of \<open>overflow\<close>, \<open>underflow\<close> or \<open>sync\<close> does not leave the stream: it sets \<open>badbit\<close>.
  A signal that interrupts an operation is not modelled.
\<close>

section \<open>World, events, state\<close>

text \<open>What a wait for input and the \<open>recv\<close> behind it can bring: bytes (none: the end, or an error of
  \<open>recv\<close>), a timeout of \<open>select\<close>, its failure. After the last answer the connection is at its end.\<close>

datatype recv_answer = Data string | TimesOut | SelectFails

record tm =
  tm_mday :: int
  tm_mon :: int
  tm_year :: int
  tm_hour :: int
  tm_min :: int
  tm_sec :: int

text \<open>
  The world, asked in sequence by the number of the call: \<open>select\<close> for writing and \<open>send\<close> (given the
  number of bytes); \<open>getaddrinfo\<close> (its result, and for every address the result of \<open>socket\<close> and
  whether \<open>connect\<close> succeeds); what arrives on the connection made at a call to an address, as the server
  answers the request for it (that and nothing else is sent on the connection, lemma \<open>exchange_sends\<close>);
  what arrives from a player on the connection accepted at a call; the monotonic clock
  (seconds, nanoseconds); local time and thread id for the log; the listening socket, \<open>accept\<close>
  (socket, and whether \<open>errno\<close> is \<open>EINTR\<close>), \<open>fork\<close>, \<open>sigaction\<close>; the width of \<open>long\<close>.
\<close>

record hls_world =
  select_write :: "nat \<Rightarrow> int"
  send_rc :: "nat \<Rightarrow> nat \<Rightarrow> int"
  getaddrinfo :: "nat \<Rightarrow> string \<Rightarrow> string \<Rightarrow> int \<times> (int \<times> bool) list"
  answers :: "nat \<Rightarrow> uri \<Rightarrow> recv_answer list"
  arrivals :: "nat \<Rightarrow> recv_answer list"
  monotonic :: "nat \<Rightarrow> int \<times> int"
  local_time :: "nat \<Rightarrow> tm"
  thread_id :: int
  socket_rc :: int
  bind_rc :: int
  listen_rc :: int
  accept_rc :: "nat \<Rightarrow> int \<times> bool"
  fork_rc :: "nat \<Rightarrow> int"
  sigaction_rc :: "nat \<Rightarrow> int"
  hls_long_bits :: nat

datatype hls_event =
    LogLine string string | Stdout string | Daemonize
  | Sent int string | Connected int string string | CloseFd int | Usleep int
  | Bound int int | Listening int | Accepted int | Forked int

record hls_state =
  log_on :: bool
  log_file :: string
  hls_calls :: nat
  hls_events :: "hls_event list"

definition happen :: "hls_event \<Rightarrow> hls_state \<Rightarrow> hls_state" where
  "happen e h = h\<lparr>hls_events := hls_events h @ [e]\<rparr>"

definition tick :: "hls_state \<Rightarrow> hls_state" where
  "tick h = h\<lparr>hls_calls := Suc (hls_calls h)\<rparr>"

lemma happen_simps [simp]:
  "log_on (happen e h) = log_on h" "log_file (happen e h) = log_file h"
  "hls_calls (happen e h) = hls_calls h" "hls_events (happen e h) = hls_events h @ [e]"
  "log_on (tick h) = log_on h" "log_file (tick h) = log_file h"
  "hls_calls (tick h) = Suc (hls_calls h)" "hls_events (tick h) = hls_events h"
  by (simp_all add: happen_def tick_def)

section \<open>LogWriter\<close>

text \<open>\<open>%02d\<close>.\<close>

definition show_02d :: "int \<Rightarrow> string" where
  "show_02d n = (if 0 \<le> n \<and> n < 10 then CHR ''0'' # show_int n else show_int n)"

definition WriteBuf :: "hls_world \<Rightarrow> string \<Rightarrow> hls_state \<Rightarrow> hls_state" where
  "WriteBuf w message h =
     (let t = local_time w (hls_calls h)
      in happen (LogLine (log_file h)
           (show_02d (tm_mday t) @ ''-'' @ show_02d (tm_mon t + 1) @ ''-'' @ show_02d (tm_year t smod 100) @ ''T'' @
            show_02d (tm_hour t) @ '':'' @ show_02d (tm_min t) @ '':'' @ show_02d (tm_sec t) @
            '' ('' @ show_int (thread_id w) @ '') - '' @ message @ [newline])) (tick h))"

text \<open>\<open>WriteLog (format, ...)\<close> with the message the format gives.\<close>

definition WriteLog :: "hls_world \<Rightarrow> string \<Rightarrow> hls_state \<Rightarrow> hls_state" where
  "WriteLog w message h = (if log_on h then WriteBuf w message h else h)"

definition errMessages :: "string list" where
  "errMessages = [''No memory'', ''Can'' @ [CHR 0x27] @ ''t fork'', ''URI encoding: not a hex digit'']"

definition WriteLogError :: "hls_world \<Rightarrow> nat \<Rightarrow> hls_state \<Rightarrow> hls_state" where
  "WriteLogError w n h = (if log_on h then WriteBuf w (errMessages ! n) h else h)"

section \<open>socketbuf\<close>

definition INVALID_SOCKET :: int where "INVALID_SOCKET = - 1"
definition BUF_SIZE :: nat where "BUF_SIZE = 752"

text \<open>
  A stream with its buffer: the bytes between \<open>pbase\<close> and \<open>pptr\<close>, those between \<open>gptr\<close> and \<open>egptr\<close>,
  the answers still to come on the socket, and the state bits. \<open>epptr\<close> is \<open>BUF_SIZE - 1\<close>.
\<close>

record sstream =
  sock :: int
  obuf :: string
  ibuf :: string
  inbox :: "recv_answer list"
  eofbit :: bool
  failbit :: bool
  badbit :: bool

definition new_stream :: sstream where
  "new_stream = \<lparr>sock = INVALID_SOCKET, obuf = [], ibuf = [], inbox = [], eofbit = False, failbit = False,
     badbit = False\<rparr>"

text \<open>How an operation of the buffer ends: well, with \<open>eof ()\<close>, with an exception.\<close>

datatype flow = Fine | AtEof | Thrown

definition output_buffer :: "hls_world \<Rightarrow> sstream \<Rightarrow> hls_state \<Rightarrow> flow \<times> sstream \<times> hls_state" where
  "output_buffer w s h =
     (if sock s = INVALID_SOCKET then (AtEof, s, h)
      else
        let num = length (obuf s); sel = select_write w (hls_calls h); h = tick h
        in if sel > 0 then
             let rc = send_rc w (hls_calls h) num;
                 h = (if rc < 0 then tick h else happen (Sent (sock s) (take (nat rc) (obuf s))) (tick h))
             in if rc \<noteq> int num then (AtEof, s, h) else (Fine, s\<lparr>obuf := []\<rparr>, h)
           else (Thrown, s, h))"

definition overflow :: "hls_world \<Rightarrow> char \<Rightarrow> sstream \<Rightarrow> hls_state \<Rightarrow> flow \<times> sstream \<times> hls_state" where
  "overflow w c s h = output_buffer w (s\<lparr>obuf := obuf s @ [c]\<rparr>) h"

definition underflow :: "sstream \<Rightarrow> flow \<times> sstream" where
  "underflow s =
     (if ibuf s \<noteq> [] then (Fine, s)
      else if sock s = INVALID_SOCKET then (AtEof, s)
      else case inbox s of
             [] \<Rightarrow> (AtEof, s)
           | Data d # r \<Rightarrow>
               if d = [] then (AtEof, s\<lparr>inbox := r\<rparr>)
               else (Fine, s\<lparr>ibuf := take BUF_SIZE d,
                       inbox := (if length d > BUF_SIZE then Data (drop BUF_SIZE d) # r else r)\<rparr>)
           | TimesOut # r \<Rightarrow> (Thrown, s\<lparr>inbox := r\<rparr>)
           | SelectFails # r \<Rightarrow> (Thrown, s\<lparr>inbox := r\<rparr>))"

definition buf_close :: "sstream \<Rightarrow> hls_state \<Rightarrow> sstream \<times> hls_state" where
  "buf_close s h =
     (if sock s \<noteq> INVALID_SOCKET then (s\<lparr>sock := INVALID_SOCKET\<rparr>, happen (CloseFd (sock s)) h) else (s, h))"

text \<open>The loop over the addresses: the last socket tried, and whether it is connected.\<close>

fun try_addresses :: "(int \<times> bool) list \<Rightarrow> int \<Rightarrow> hls_state \<Rightarrow> int \<times> bool \<times> hls_state" where
  "try_addresses [] fd h = (fd, False, h)"
| "try_addresses ((s, ok) # rp) fd h =
     (if s < 0 then try_addresses rp s h
      else if ok then (s, True, h)
      else try_addresses rp s (happen (CloseFd s) h))"

definition buf_open :: "hls_world \<Rightarrow> uri \<Rightarrow> sstream \<Rightarrow> hls_state \<Rightarrow> (hls_exn + unit) \<times> sstream \<times> hls_state" where
  "buf_open w u s h =
     (let (s, h) = buf_close s h; n = hls_calls h; (rc, addrs) = getaddrinfo w n (getHost u) (getPort u); h = tick h
      in if rc \<noteq> 0 then (Inl (Exn (''getaddrinfo error: '' @ show_int rc)), s, h)
         else
           let (fd, ok, h) = try_addresses addrs (sock s) h
           in if \<not> ok then (Inl (Exn ''Could not connect''), s\<lparr>sock := fd\<rparr>, h)
              else (Inr (), s\<lparr>sock := fd, obuf := [], ibuf := [], inbox := answers w n u\<rparr>,
                    happen (Connected fd (getHost u) (getPort u)) h))"

section \<open>std::streambuf\<close>

definition sputc :: "hls_world \<Rightarrow> char \<Rightarrow> sstream \<Rightarrow> hls_state \<Rightarrow> flow \<times> sstream \<times> hls_state" where
  "sputc w c s h =
     (if length (obuf s) < BUF_SIZE - 1 then (Fine, s\<lparr>obuf := obuf s @ [c]\<rparr>, h) else overflow w c s h)"

fun sputn :: "hls_world \<Rightarrow> string \<Rightarrow> sstream \<Rightarrow> hls_state \<Rightarrow> flow \<times> sstream \<times> hls_state" where
  "sputn w [] s h = (Fine, s, h)"
| "sputn w (c # cs) s h =
     (case sputc w c s h of
        (Fine, s, h) \<Rightarrow> sputn w cs s h
      | (f, s, h) \<Rightarrow> (f, s, h))"

text \<open>The next character, taken out.\<close>

definition sbumpc :: "sstream \<Rightarrow> (char option \<times> flow) \<times> sstream" where
  "sbumpc s =
     (case underflow s of
        (Fine, s) \<Rightarrow> ((Some (hd (ibuf s)), Fine), s\<lparr>ibuf := tl (ibuf s)\<rparr>)
      | (f, s) \<Rightarrow> ((None, f), s))"

fun sgetn :: "nat \<Rightarrow> sstream \<Rightarrow> string \<times> flow \<times> sstream" where
  "sgetn 0 s = ([], Fine, s)"
| "sgetn (Suc n) s =
     (case sbumpc s of
        ((Some c, _), s) \<Rightarrow> (let (x, f, s) = sgetn n s in (c # x, f, s))
      | ((None, f), s) \<Rightarrow> ([], f, s))"

section \<open>std::ostream and std::istream\<close>

definition flags_good :: "sstream \<Rightarrow> bool" where
  "flags_good s \<longleftrightarrow> \<not> eofbit s \<and> \<not> failbit s \<and> \<not> badbit s"

text \<open>\<open>socketstream::good ()\<close>.\<close>

definition stream_good :: "sstream \<Rightarrow> bool" where
  "stream_good s \<longleftrightarrow> flags_good s \<and> sock s \<noteq> INVALID_SOCKET"

definition stream_write :: "hls_world \<Rightarrow> string \<Rightarrow> sstream \<Rightarrow> hls_state \<Rightarrow> sstream \<times> hls_state" where
  "stream_write w cs s h =
     (if flags_good s then
        (case sputn w cs s h of
           (Fine, s, h) \<Rightarrow> (s, h)
         | (_, s, h) \<Rightarrow> (s\<lparr>badbit := True\<rparr>, h))
      else (s\<lparr>failbit := True\<rparr>, h))"

definition stream_flush :: "hls_world \<Rightarrow> sstream \<Rightarrow> hls_state \<Rightarrow> sstream \<times> hls_state" where
  "stream_flush w s h =
     (if flags_good s then
        (case output_buffer w s h of
           (Fine, s, h) \<Rightarrow> (s, h)
         | (_, s, h) \<Rightarrow> (s\<lparr>badbit := True\<rparr>, h))
      else (s\<lparr>failbit := True\<rparr>, h))"

text \<open>\<open>read (buf, n)\<close>: the \<open>gcount ()\<close> bytes it counts. An exception leaves the count at 0.\<close>

definition stream_read :: "nat \<Rightarrow> sstream \<Rightarrow> string \<times> sstream" where
  "stream_read n s =
     (if flags_good s then
        (case sgetn n s of
           (x, Fine, s) \<Rightarrow> (x, s)
         | (x, AtEof, s) \<Rightarrow> (x, s\<lparr>eofbit := True, failbit := True\<rparr>)
         | (x, Thrown, s) \<Rightarrow> ([], s\<lparr>badbit := True\<rparr>))
      else ([], s\<lparr>failbit := True\<rparr>))"

text \<open>What is still to come on a stream, at most.\<close>

fun answer_size :: "recv_answer \<Rightarrow> nat" where
  "answer_size (Data d) = length d"
| "answer_size _ = 0"

definition inflow :: "sstream \<Rightarrow> nat" where
  "inflow s = length (ibuf s) + sum_list (map answer_size (inbox s))"

lemma underflow_Fine:
  assumes "underflow s = (Fine, s')"
  shows "ibuf s' \<noteq> [] \<and> inflow s' = inflow s"
proof (cases "ibuf s")
  case Nil
  with assms show ?thesis
    by (auto simp: underflow_def inflow_def BUF_SIZE_def split: if_splits list.splits recv_answer.splits)
qed (use assms in \<open>simp add: underflow_def\<close>)

lemma sbumpc_inflow: "sbumpc s = ((Some c, f), s') \<Longrightarrow> inflow s = Suc (inflow s')"
proof -
  assume s: "sbumpc s = ((Some c, f), s')"
  then obtain t where t: "underflow s = (Fine, t)" "s' = t\<lparr>ibuf := tl (ibuf t)\<rparr>"
    by (auto simp: sbumpc_def split: prod.splits flow.splits)
  from underflow_Fine [OF t(1)] show ?thesis by (auto simp: inflow_def t(2) neq_Nil_conv)
qed

lemma sbumpc_None_inflow: "sbumpc s = ((None, f), s') \<Longrightarrow> inflow s' \<le> inflow s"
  by (auto simp: sbumpc_def underflow_def inflow_def split: if_splits list.splits recv_answer.splits prod.splits
      flow.splits)

lemma sgetn_inflow: "sgetn n s = (x, f, s') \<Longrightarrow> inflow s' + length x \<le> inflow s"
proof (induction n arbitrary: s x f s')
  case (Suc n)
  obtain c f1 t where t: "sbumpc s = ((c, f1), t)" by (metis prod.exhaust)
  show ?case
  proof (cases c)
    case None
    with t Suc.prems show ?thesis using sbumpc_None_inflow [of s f1 t] by auto
  next
    case (Some a)
    with t Suc.prems obtain y where "sgetn n t = (y, f, s')" "x = a # y" by (auto split: prod.splits)
    with Suc.IH [OF this(1)] sbumpc_inflow [of s a f1 t] t Some show ?thesis by simp
  qed
qed simp

lemma stream_read_inflow: "stream_read n s = (x, s') \<Longrightarrow> inflow s' + length x \<le> inflow s"
  by (auto simp: stream_read_def inflow_def split: if_splits prod.splits flow.splits
      dest!: sgetn_inflow [unfolded inflow_def])

function get_until_newline :: "sstream \<Rightarrow> string \<times> flow \<times> sstream" where
  "get_until_newline s =
     (case sbumpc s of
        ((Some c, _), s) \<Rightarrow>
          if c = newline then ([], Fine, s)
          else (let (x, f, s) = get_until_newline s in (c # x, f, s))
      | ((None, f), s) \<Rightarrow> ([], f, s))"
  by pat_completeness auto
termination
  by (relation "measure inflow") (auto dest: sbumpc_inflow [OF sym])

declare get_until_newline.simps [simp del]

text \<open>\<open>std::getline (s, line)\<close>.\<close>

definition getline :: "sstream \<Rightarrow> string \<Rightarrow> string \<times> sstream" where
  "getline s line =
     (if flags_good s then
        (case get_until_newline s of
           (x, Fine, s) \<Rightarrow> (x, s)
         | (x, AtEof, s) \<Rightarrow> (x, s\<lparr>eofbit := True, failbit := (x = [])\<rparr>)
         | (x, Thrown, s) \<Rightarrow> (x, s\<lparr>badbit := True, failbit := (x = [])\<rparr>))
      else (line, s\<lparr>failbit := True\<rparr>))"

section \<open>socketstream\<close>

definition stream_close :: "sstream \<Rightarrow> hls_state \<Rightarrow> sstream \<times> hls_state" where
  "stream_close s h =
     (let (s, h) = buf_close s h in (s\<lparr>eofbit := False, failbit := False, badbit := False\<rparr>, h))"

text \<open>\<open>open (SOCKET)\<close>, with what will arrive on the socket.\<close>

definition stream_open :: "int \<Rightarrow> recv_answer list \<Rightarrow> sstream \<Rightarrow> hls_state \<Rightarrow> sstream \<times> hls_state" where
  "stream_open fd arriving s h =
     (let (s, h) = stream_close s h in (s\<lparr>sock := fd, obuf := [], ibuf := [], inbox := arriving\<rparr>, h))"

definition stream_connect ::
  "hls_world \<Rightarrow> uri \<Rightarrow> sstream \<Rightarrow> hls_state \<Rightarrow> (hls_exn + unit) \<times> sstream \<times> hls_state" where
  "stream_connect w u s h = (let (s, h) = stream_close s h in buf_open w u s h)"

text \<open>\<open>copyToString\<close>: reads of 8192 bytes while the stream is good.\<close>

function copy_loop :: "sstream \<Rightarrow> string \<times> sstream" where
  "copy_loop s =
     (let (x, s') = stream_read 8192 s
      in if x = [] then ([], s')
         else if flags_good s' then (let (y, s'') = copy_loop s' in (x @ y, s''))
         else (x, s'))"
  by pat_completeness auto
termination
proof (relation "measure inflow")
  fix s p x s' assume "p = stream_read 8192 s" "(x, s') = p" "x \<noteq> []"
  then show "(s', s) \<in> measure inflow" using stream_read_inflow [of 8192 s x s'] by (cases x) auto
qed simp

declare copy_loop.simps [simp del]

definition copyToString :: "sstream \<Rightarrow> nat \<times> string \<times> sstream" where
  "copyToString s = (let (x, s) = copy_loop s in (length x, x, s))"

end
