(* ===== verification/HlsFlow.thy ===== *)
theory HlsFlow
  imports HlsStream
begin

text \<open>
  The streams over sockets as sequences of bytes: reading depends on the bytes that arrive and not on
  the pieces they arrive in; writing is first in, first out, inside the buffer.
\<close>

section \<open>Reading\<close>

text \<open>The bytes that arrive up to the first end, timeout or failure, and what is left then.\<close>

fun arriving :: "recv_answer list \<Rightarrow> string" where
  "arriving (Data d # r) = (if d = [] then [] else d @ arriving r)"
| "arriving _ = []"

fun left_over :: "recv_answer list \<Rightarrow> recv_answer list" where
  "left_over (Data d # r) = (if d = [] then Data d # r else left_over r)"
| "left_over r = r"

definition avail :: "sstream \<Rightarrow> string" where
  "avail s = ibuf s @ (if sock s = INVALID_SOCKET then [] else arriving (inbox s))"

text \<open>How reading ends when the bytes are used up.\<close>

definition end_flow :: "sstream \<Rightarrow> flow" where
  "end_flow s =
     (if sock s = INVALID_SOCKET then AtEof
      else case left_over (inbox s) of TimesOut # _ \<Rightarrow> Thrown | SelectFails # _ \<Rightarrow> Thrown | _ \<Rightarrow> AtEof)"

lemma end_flow_ibuf [simp]: "end_flow (s\<lparr>ibuf := x\<rparr>) = end_flow s"
  by (simp add: end_flow_def)

text \<open>Reading changes the input side only.\<close>

definition same_out :: "sstream \<Rightarrow> sstream \<Rightarrow> bool" where
  "same_out s s' \<longleftrightarrow> s'\<lparr>ibuf := [], inbox := []\<rparr> = s\<lparr>ibuf := [], inbox := []\<rparr>"

lemma same_out_refl [simp]: "same_out s s"
  by (simp add: same_out_def)

lemma same_out_trans: "same_out s t \<Longrightarrow> same_out t u \<Longrightarrow> same_out s u"
  by (simp add: same_out_def)

lemma same_outD:
  "same_out s s' \<Longrightarrow> sock s' = sock s \<and> obuf s' = obuf s \<and> eofbit s' = eofbit s \<and> failbit s' = failbit s \<and>
    badbit s' = badbit s"
  by (cases s; cases s') (simp add: same_out_def)

lemma same_out_upd [simp]: "same_out s (s\<lparr>ibuf := x\<rparr>)" "same_out s (s\<lparr>inbox := y\<rparr>)"
  "same_out s (s\<lparr>ibuf := x, inbox := y\<rparr>)" "same_out s (s\<lparr>inbox := y, ibuf := x\<rparr>)"
  by (simp_all add: same_out_def)

lemma underflow_avail:
  obtains (more) s' where "avail s \<noteq> []" "underflow s = (Fine, s')" "ibuf s' \<noteq> []" "avail s' = avail s"
      "end_flow s' = end_flow s" "same_out s s'"
    | (none) s' where "avail s = []" "underflow s = (end_flow s, s')" "end_flow s \<noteq> Fine" "same_out s s'"
proof (cases "ibuf s = [] \<and> sock s \<noteq> INVALID_SOCKET")
  case False
  show thesis
  proof (cases "ibuf s = []")
    case True
    with False show thesis by (intro none [of s]) (simp_all add: avail_def underflow_def end_flow_def)
  next
    case False
    then show thesis by (intro more [of s]) (simp_all add: avail_def underflow_def)
  qed
next
  case True
  show thesis
  proof (cases "\<exists>d r. inbox s = Data d # r \<and> d \<noteq> []")
    case True
    then obtain d r where d: "inbox s = Data d # r" "d \<noteq> []" by blast
    let ?s = "s\<lparr>ibuf := take BUF_SIZE d, inbox := (if length d > BUF_SIZE then Data (drop BUF_SIZE d) # r else r)\<rparr>"
    have u: "underflow s = (Fine, ?s)"
      using d \<open>ibuf s = [] \<and> sock s \<noteq> INVALID_SOCKET\<close> by (simp add: underflow_def)
    have 1: "ibuf ?s \<noteq> []" using d(2) by (simp add: BUF_SIZE_def)
    have 2: "avail ?s = avail s" "end_flow ?s = end_flow s"
      using d \<open>ibuf s = [] \<and> sock s \<noteq> INVALID_SOCKET\<close> by (auto simp: avail_def end_flow_def)
    have "avail s \<noteq> []" using d \<open>ibuf s = [] \<and> sock s \<noteq> INVALID_SOCKET\<close> by (simp add: avail_def)
    with u 1 2 show thesis by (intro more [of ?s]) simp_all
  next
    case False
    then have "inbox s = [] \<or> (\<exists>r. inbox s = Data [] # r \<or> inbox s = TimesOut # r \<or> inbox s = SelectFails # r)"
      by (metis neq_Nil_conv recv_answer.exhaust)
    with \<open>ibuf s = [] \<and> sock s \<noteq> INVALID_SOCKET\<close> show thesis
      by (intro none [of "snd (underflow s)"])
        (auto simp: avail_def underflow_def end_flow_def split: list.split recv_answer.split)
  qed
qed

lemma sbumpc_avail:
  obtains (got) c t s' where "avail s = c # t" "sbumpc s = ((Some c, Fine), s')" "avail s' = t"
      "end_flow s' = end_flow s" "same_out s s'"
    | (none) s' where "avail s = []" "sbumpc s = ((None, end_flow s), s')" "end_flow s \<noteq> Fine" "same_out s s'"
proof (cases rule: underflow_avail [of s])
  case (more s')
  then obtain c t where c: "ibuf s' = c # t" by (cases "ibuf s'") auto
  let ?s = "s'\<lparr>ibuf := t\<rparr>"
  have "avail s' = c # avail ?s" using c by (simp add: avail_def)
  then have "avail s = c # avail ?s" using more(4) by simp
  moreover have "sbumpc s = ((Some c, Fine), ?s)" using more(2) c by (simp add: sbumpc_def)
  moreover have "end_flow ?s = end_flow s" using more(5) by simp
  moreover have "same_out s ?s" using more(6) by (simp add: same_out_def)
  ultimately show thesis using got by blast
next
  case (none s')
  then have "sbumpc s = ((None, end_flow s), s')" by (simp add: sbumpc_def split: flow.split)
  with none that(2) show thesis by blast
qed

lemma sgetn_avail:
  "\<exists>s'. sgetn n s = (take n (avail s), (if n \<le> length (avail s) then Fine else end_flow s), s') \<and>
    same_out s s' \<and> (n \<le> length (avail s) \<longrightarrow> avail s' = drop n (avail s) \<and> end_flow s' = end_flow s)"
proof (induction n arbitrary: s)
  case (Suc n)
  show ?case
  proof (cases rule: sbumpc_avail [of s])
    case (got c t s')
    with Suc.IH [of s'] same_out_trans [OF got(5)] show ?thesis by auto
  next
    case (none s')
    then show ?thesis by auto
  qed
qed simp

lemma get_until_newline_line:
  "newline \<notin> set l \<Longrightarrow> avail s = l @ newline # r \<Longrightarrow>
    \<exists>s'. get_until_newline s = (l, Fine, s') \<and> avail s' = r \<and> end_flow s' = end_flow s \<and> same_out s s'"
proof (induction l arbitrary: s)
  case Nil
  then show ?case
    by (cases rule: sbumpc_avail [of s]) (auto simp: get_until_newline.simps [of s])
next
  case (Cons c l)
  show ?case
  proof (cases rule: sbumpc_avail [of s])
    case (got c' t s1)
    with Cons.prems have c': "c' = c" "t = l @ newline # r" by simp_all
    with got Cons.prems obtain s' where
      "get_until_newline s1 = (l, Fine, s')" "avail s' = r" "end_flow s' = end_flow s1" "same_out s1 s'"
      using Cons.IH [of s1] by auto
    with got c' Cons.prems(1) same_out_trans [OF got(5)] show ?thesis
      by (auto simp: get_until_newline.simps [of s])
  qed (use Cons.prems in simp)
qed

lemma get_until_newline_end:
  "newline \<notin> set (avail s) \<Longrightarrow> \<exists>s'. get_until_newline s = (avail s, end_flow s, s') \<and> same_out s s'"
proof (induction "avail s" arbitrary: s)
  case Nil
  then show ?case
    by (cases rule: sbumpc_avail [of s]) (auto simp: get_until_newline.simps [of s])
next
  case (Cons a x)
  show ?case
  proof (cases rule: sbumpc_avail [of s])
    case (got c' t s1)
    with Cons obtain s' where "get_until_newline s1 = (x, end_flow s, s')" "same_out s1 s'"
      by (metis list.inject list.set_intros(2))
    with got Cons(2,3) same_out_trans [OF got(5)] show ?thesis
      by (auto simp: get_until_newline.simps [of s])
  qed (use Cons in simp)
qed

text \<open>Reading a line that has arrived: the line, and the bytes behind it stay to come.\<close>

lemma getline_line:
  assumes "flags_good s" and "avail s = l @ newline # r" and "newline \<notin> set l"
  shows "\<exists>s'. getline s old = (l, s') \<and> avail s' = r \<and> end_flow s' = end_flow s \<and> same_out s s' \<and> flags_good s'"
  using get_until_newline_line [OF assms(3,2)] assms(1)
  by (auto simp: getline_def flags_good_def dest: same_outD)

text \<open>\<open>copyToString\<close> takes all that arrives before the end.\<close>

lemma copy_loop_all:
  "flags_good s \<Longrightarrow> end_flow s = AtEof \<Longrightarrow> \<exists>s'. copy_loop s = (avail s, s')"
proof (induction "length (avail s)" arbitrary: s rule: less_induct)
  case less
  obtain s1 where s1: "sgetn 8192 s = (take 8192 (avail s), (if 8192 \<le> length (avail s) then Fine else AtEof), s1)"
    "same_out s s1" "8192 \<le> length (avail s) \<Longrightarrow> avail s1 = drop 8192 (avail s) \<and> end_flow s1 = AtEof"
    using sgetn_avail [of 8192 s] less.prems(2) by auto
  show ?case
  proof (cases "8192 \<le> length (avail s)")
    case True
    have g: "flags_good s1" using less.prems(1) same_outD [OF s1(2)] by (simp add: flags_good_def)
    have "length (avail s1) < length (avail s)" using s1(3) [OF True] True by simp
    from less.hyps [OF this g] s1(3) [OF True] obtain s' where "copy_loop s1 = (avail s1, s')" by blast
    moreover have "stream_read 8192 s = (take 8192 (avail s), s1)"
      using True s1(1) less.prems(1) by (simp add: stream_read_def)
    ultimately show ?thesis using g True s1(3) [OF True]
      by (auto simp: copy_loop.simps [of s] Let_def)
  next
    case False
    then have r: "stream_read 8192 s = (avail s, s1\<lparr>eofbit := True, failbit := True\<rparr>)"
      using s1(1) less.prems(1) by (simp add: stream_read_def)
    show ?thesis
      unfolding copy_loop.simps [of s] r Let_def by (auto simp: flags_good_def)
  qed
qed

section \<open>Writing\<close>

definition sent_on :: "int \<Rightarrow> hls_state \<Rightarrow> string" where
  "sent_on fd h = concat (map (\<lambda>e. case e of Sent fd' d \<Rightarrow> if fd' = fd then d else [] | _ \<Rightarrow> []) (hls_events h))"

lemma sent_on_happen [simp]:
  "sent_on fd (happen e h) = sent_on fd h @ (case e of Sent fd' d \<Rightarrow> if fd' = fd then d else [] | _ \<Rightarrow> [])"
  "sent_on fd (tick h) = sent_on fd h"
  by (simp_all add: sent_on_def)

lemma sent_on_log [simp]: "sent_on fd (WriteLog w m h) = sent_on fd h" "sent_on fd (WriteLogError w n h) = sent_on fd h"
  by (simp_all add: WriteLog_def WriteLogError_def WriteBuf_def Let_def)

text \<open>\<open>W\<close> was written to the open stream: while it is good, all of it is sent or in the buffer; in any
  case a beginning of it is sent, and the buffer is inside its array.\<close>

definition fifo :: "int \<Rightarrow> string \<Rightarrow> sstream \<Rightarrow> hls_state \<Rightarrow> bool" where
  "fifo fd W s h \<longleftrightarrow> sock s = fd \<and> fd \<noteq> INVALID_SOCKET \<and> length (obuf s) \<le> BUF_SIZE \<and>
     prefix (sent_on fd h) W \<and> (flags_good s \<longrightarrow> sent_on fd h @ obuf s = W \<and> length (obuf s) < BUF_SIZE)"

text \<open>What every output operation promises; \<open>adds\<close> is what it writes.\<close>

locale out_op =
  fixes op :: "sstream \<Rightarrow> hls_state \<Rightarrow> sstream \<times> hls_state" and adds :: string
  assumes keeps_fifo: "fifo fd W s h \<Longrightarrow> op s h = (s', h') \<Longrightarrow> fifo fd (W @ adds) s' h'"
    and other_sockets: "sock s \<noteq> fd \<Longrightarrow> op s h = (s', h') \<Longrightarrow> sent_on fd h' = sent_on fd h \<and> sock s' = sock s"
begin

lemma all_written:
  assumes "fifo fd W s h" and "op s h = (s', h')" and "flags_good s'"
  shows "sent_on fd h' @ obuf s' = W @ adds"
  using keeps_fifo [OF assms(1,2)] assms(3) by (simp add: fifo_def)

end

lemma output_buffer_cases:
  assumes "output_buffer w s h = (f, s', h')"
  obtains (fine) "f = Fine" "s' = s\<lparr>obuf := []\<rparr>" "sock s \<noteq> INVALID_SOCKET"
      "\<And>fd. sent_on fd h' = sent_on fd h @ (if fd = sock s then obuf s else [])"
    | (part) n where "f \<noteq> Fine" "s' = s"
      "\<And>fd. sent_on fd h' = sent_on fd h @ (if fd = sock s then take n (obuf s) else [])"
proof (cases "sock s = INVALID_SOCKET")
  case True
  with assms part [of 0] show thesis by (simp add: output_buffer_def)
next
  case False
  let ?rc = "send_rc w (hls_calls (tick h)) (length (obuf s))"
  show thesis
  proof (cases "select_write w (hls_calls h) > 0")
    case sel: True
    show thesis
    proof (cases "?rc = int (length (obuf s))")
      case True
      with assms sel False show thesis
        by (intro fine) (auto simp: output_buffer_def Let_def)
    next
      case False
      with assms sel \<open>sock s \<noteq> INVALID_SOCKET\<close> show thesis
        by (intro part [of "if ?rc < 0 then 0 else nat ?rc"]) (auto simp: output_buffer_def Let_def split: if_splits)
    qed
  next
    case sel: False
    with assms False part [of 0] show thesis by (auto simp: output_buffer_def Let_def)
  qed
qed

text \<open>The buffer's own invariant while its operations succeed.\<close>

definition filling :: "int \<Rightarrow> string \<Rightarrow> sstream \<Rightarrow> hls_state \<Rightarrow> bool" where
  "filling fd W s h \<longleftrightarrow> sock s = fd \<and> fd \<noteq> INVALID_SOCKET \<and> length (obuf s) < BUF_SIZE \<and> sent_on fd h @ obuf s = W"

text \<open>Writing changes the output side only.\<close>

definition same_in :: "sstream \<Rightarrow> sstream \<Rightarrow> bool" where
  "same_in s s' \<longleftrightarrow> s'\<lparr>obuf := []\<rparr> = s\<lparr>obuf := []\<rparr>"

lemma same_in_refl [simp]: "same_in s s" "same_in s (s\<lparr>obuf := x\<rparr>)"
  by (simp_all add: same_in_def)

lemma same_in_trans: "same_in s t \<Longrightarrow> same_in t u \<Longrightarrow> same_in s u"
  by (simp add: same_in_def)

lemma same_inD:
  "same_in s s' \<Longrightarrow> sock s' = sock s \<and> ibuf s' = ibuf s \<and> inbox s' = inbox s \<and> eofbit s' = eofbit s \<and>
    failbit s' = failbit s \<and> badbit s' = badbit s"
  by (cases s; cases s') (simp add: same_in_def)

lemma sputc_filling:
  assumes "filling fd W s h" and "sputc w c s h = (f, s', h')"
  shows "if f = Fine then filling fd (W @ [c]) s' h' \<and> same_in s s'
    else s' = s\<lparr>obuf := obuf s @ [c]\<rparr> \<and> length (obuf s') \<le> BUF_SIZE \<and> prefix (sent_on fd h') (W @ [c])"
proof (cases "length (obuf s) < BUF_SIZE - 1")
  case True
  with assms show ?thesis by (auto simp: sputc_def filling_def)
next
  case False
  with assms(2) have o: "output_buffer w (s\<lparr>obuf := obuf s @ [c]\<rparr>) h = (f, s', h')"
    by (simp add: sputc_def overflow_def)
  show ?thesis
  proof (cases rule: output_buffer_cases [OF o])
    case 1
    with assms(1) show ?thesis by (auto simp: filling_def BUF_SIZE_def)
  next
    case (2 n)
    have "sent_on fd h' = sent_on fd h @ take n (obuf s @ [c])" using 2(3) assms(1) by (simp add: filling_def)
    moreover have "W @ [c] = sent_on fd h @ take n (obuf s @ [c]) @ drop n (obuf s @ [c])"
      using assms(1) by (simp add: filling_def del: take_append drop_append)
    ultimately have "prefix (sent_on fd h') (W @ [c])" by (metis append.assoc prefixI)
    with 2 assms(1) show ?thesis by (auto simp: filling_def BUF_SIZE_def)
  qed
qed

lemma sputn_filling:
  "filling fd W s h \<Longrightarrow> sputn w cs s h = (f, s', h') \<Longrightarrow>
    (if f = Fine then filling fd (W @ cs) s' h' else sock s' = fd \<and> length (obuf s') \<le> BUF_SIZE \<and>
      prefix (sent_on fd h') (W @ cs)) \<and> same_in s s'"
proof (induction cs arbitrary: W s h)
  case Nil
  then show ?case by simp
next
  case (Cons c cs)
  obtain f1 s1 h1 where 1: "sputc w c s h = (f1, s1, h1)" by (metis prod.exhaust)
  show ?case
  proof (cases "f1 = Fine")
    case True
    with 1 Cons.prems(2) have 2: "sputn w cs s1 h1 = (f, s', h')" by simp
    have "filling fd (W @ [c]) s1 h1" "same_in s s1"
      using sputc_filling [OF Cons.prems(1) 1] True by simp_all
    with Cons.IH [OF this(1) 2] same_in_trans [OF this(2)] show ?thesis by (simp only: append_Cons append_assoc append_Nil) blast
  next
    case False
    with 1 Cons.prems(2) have "f = f1" "s' = s1" "h' = h1" by (auto split: flow.splits)
    with sputc_filling [OF Cons.prems(1) 1] False Cons.prems(1) show ?thesis
      by (auto simp: filling_def intro: prefix_order.trans)
  qed
qed

lemma sputn_other:
  "sock s \<noteq> fd \<Longrightarrow> sputn w cs s h = (f, s', h') \<Longrightarrow> sent_on fd h' = sent_on fd h \<and> sock s' = sock s"
proof (induction cs arbitrary: s h)
  case (Cons c cs)
  obtain f1 s1 h1 where 1: "sputc w c s h = (f1, s1, h1)" by (metis prod.exhaust)
  then have "sent_on fd h1 = sent_on fd h \<and> sock s1 = sock s"
    using Cons.prems(1) by (auto simp: sputc_def overflow_def split: if_splits elim!: output_buffer_cases)
  with 1 Cons.prems Cons.IH [of s1 h1] show ?case by (cases f1) auto
qed simp

lemma fifo_filling: "fifo fd W s h \<Longrightarrow> flags_good s \<Longrightarrow> filling fd W s h"
  by (simp add: fifo_def filling_def)

interpretation write_op: out_op "stream_write w cs" cs for w cs
proof
  fix fd W s h s' h' assume f: "fifo fd W s h" and op: "stream_write w cs s h = (s', h')"
  show "fifo fd (W @ cs) s' h'"
  proof (cases "flags_good s")
    case False
    with f op show ?thesis by (auto simp: stream_write_def fifo_def flags_good_def)
  next
    case True
    obtain fl s1 h1 where 1: "sputn w cs s h = (fl, s1, h1)" by (metis prod.exhaust)
    note 2 = sputn_filling [OF fifo_filling [OF f True] 1]
    show ?thesis
    proof (cases "fl = Fine")
      case True
      with 1 2 op \<open>flags_good s\<close> show ?thesis by (auto simp: stream_write_def filling_def fifo_def intro: prefixI [OF sym])
    next
      case False
      with 1 op \<open>flags_good s\<close> have "s' = s1\<lparr>badbit := True\<rparr>" "h' = h1"
        by (auto simp: stream_write_def split: flow.splits)
      with 2 False f show ?thesis by (auto simp: fifo_def flags_good_def)
    qed
  qed
next
  fix s fd h s' h' assume "sock s \<noteq> fd" "stream_write w cs s h = (s', h')"
  then show "sent_on fd h' = sent_on fd h \<and> sock s' = sock s"
    by (auto simp: stream_write_def split: if_splits prod.splits flow.splits dest: sputn_other)
qed

interpretation flush_op: out_op "stream_flush w" "[]" for w
proof
  fix fd W s h s' h' assume f: "fifo fd W s h" and op: "stream_flush w s h = (s', h')"
  show "fifo fd (W @ []) s' h'"
  proof (cases "flags_good s")
    case False
    with f op show ?thesis by (auto simp: stream_flush_def fifo_def flags_good_def)
  next
    case True
    obtain fl s1 h1 where 1: "output_buffer w s h = (fl, s1, h1)" by (metis prod.exhaust)
    have W: "sent_on fd h @ obuf s = W" using f True by (simp add: fifo_def)
    show ?thesis
    proof (cases rule: output_buffer_cases [OF 1])
      case 1
      with \<open>output_buffer w s h = (fl, s1, h1)\<close> True op f W show ?thesis
        by (auto simp: stream_flush_def fifo_def BUF_SIZE_def)
    next
      case (2 n)
      have "prefix (sent_on fd h1) W"
        using 2(3) f unfolding W [symmetric] by (auto simp: fifo_def take_is_prefix)
      with 2 \<open>output_buffer w s h = (fl, s1, h1)\<close> True op f show ?thesis
        by (auto simp: stream_flush_def fifo_def flags_good_def split: flow.splits)
    qed
  qed
next
  fix s fd h s' h' assume "sock s \<noteq> fd" "stream_flush w s h = (s', h')"
  then show "sent_on fd h' = sent_on fd h \<and> sock s' = sock s"
    by (auto simp: stream_flush_def split: if_splits prod.splits flow.splits elim!: output_buffer_cases)
qed

end
