(* ===== verification/HlsHttp.thy ===== *)
theory HlsHttp
  imports HlsFlow
begin

text \<open>
  HTTP in \<open>hlspxd\<close> (\<open>utils.h\<close>, \<open>utils.cpp\<close>): \<open>HttpMessage\<close>, \<open>HttpRequest\<close>, \<open>HttpResponce\<close> (the
  source's spelling) read from a stream, and \<open>HttpClient\<close> with its redirections. Headers are a map
  from names to values.
\<close>

definition rtrim :: "string \<Rightarrow> string" where
  "rtrim s = rev (dropWhile isspace (rev s))"

definition atoi :: "nat \<Rightarrow> string \<Rightarrow> int" where
  "atoi lb s = s32 (fst (strtol lb 10 s))"

section \<open>HttpMessage\<close>

type_synonym header_map = "string \<Rightarrow> string option"

definition messRx :: rx where
  "messRx =
     Cat (Grp 1 (Many (\<lambda>c. c \<noteq> CHR '':''))) (Cat (Lit '':'') (Cat (Many isspace) (Grp 2 (Many (\<lambda>_. True)))))"

lemma get_until_newline_inflow:
  "get_until_newline s = (x, f, s') \<Longrightarrow> inflow s' + length x \<le> inflow s"
proof (induction s arbitrary: x f s' rule: get_until_newline.induct)
  case (1 s)
  obtain c fl t where t: "sbumpc s = ((c, fl), t)" by (metis prod.exhaust)
  show ?case
  proof (cases c)
    case None
    with t "1.prems" sbumpc_None_inflow [of s fl t] show ?thesis
      by (auto simp: get_until_newline.simps [of s])
  next
    case (Some a)
    show ?thesis
    proof (cases "a = newline")
      case True
      with t Some "1.prems" sbumpc_inflow [of s a fl t] show ?thesis
        by (auto simp: get_until_newline.simps [of s])
    next
      case False
      with t Some "1.prems" obtain y where "get_until_newline t = (y, f, s')" "x = a # y"
        by (auto simp: get_until_newline.simps [of s] split: prod.splits)
      with "1.IH" [OF t [symmetric] refl Some False] t Some sbumpc_inflow [of s a fl t] show ?thesis by simp
    qed
  qed
qed

lemma getline_inflow:
  "flags_good s \<Longrightarrow> getline s old = (x, s') \<Longrightarrow> inflow s' + length x \<le> inflow s"
  by (auto simp: getline_def inflow_def split: prod.splits flow.splits
      dest!: get_until_newline_inflow [unfolded inflow_def])

text \<open>The loop of \<open>init\<close>, with the line read last and the headers so far.\<close>

function message_init :: "sstream \<Rightarrow> string \<Rightarrow> header_map \<Rightarrow> (hls_exn + header_map) \<times> sstream" where
  "message_init s inStr m =
     (if \<not> flags_good s then (Inr m, s)
      else
        let (l, s') = getline s inStr
        in if rtrim l = [] then (Inr m, s')
           else case regex_search messRx (cstr (rtrim l) 0) of
                  None \<Rightarrow> (Inl (Exn ''bad header''), s')
                | Some res \<Rightarrow> message_init s' (rtrim l) (m(str (res ! 1) \<mapsto> str (res ! 2))))"
  by pat_completeness auto
termination
proof (relation "measure (\<lambda>(s, l, m). inflow s)")
  fix s l x s' p res and m :: header_map
  assume g: "\<not> \<not> flags_good s" "p = getline s l" "(x, s') = p" "rtrim x \<noteq> []"
  then have "x \<noteq> []" by (auto simp: rtrim_def)
  with getline_inflow [of s l x s'] g
  show "((s', rtrim x, m(str (res ! 1) \<mapsto> str (res ! 2))), s, l, m) \<in> measure (\<lambda>(s, l, m). inflow s)"
    by (cases x) auto
qed simp

declare message_init.simps [simp del]

section \<open>HttpRequest\<close>

definition reqRx :: rx where
  "reqRx =
     Cat (Grp 1 (Alt (Lit ''GET'') (Lit ''get''))) (Cat (Many isspace)
     (Cat (Grp 2 (Many (\<lambda>c. \<not> isspace c))) (Cat (Many isspace) (Grp 3 (Many (\<lambda>_. True))))))"

text \<open>The constructor: the path of the request line; the headers are read and not used later.\<close>

definition http_request :: "sstream \<Rightarrow> (hls_exn + string) \<times> sstream" where
  "http_request s =
     (let (inStr, s) = getline s []; inStr = rtrim inStr
      in if inStr = [] then (Inl (Exn ''empty stream''), s)
         else case regex_search reqRx (cstr inStr 0) of
                None \<Rightarrow> (Inl (Exn ''bad request''), s)
              | Some res \<Rightarrow>
                  (case message_init s [] Map.empty of
                     (Inl e, s) \<Rightarrow> (Inl e, s)
                   | (Inr m, s) \<Rightarrow> (Inr (str (res ! 2)), s)))"

section \<open>HttpResponce\<close>

record http_response =
  status :: int
  reason :: string
  headers :: header_map

definition HTTP_OK :: int where "HTTP_OK = 200"
definition HTTP_MOVED_PERMANENTLY :: int where "HTTP_MOVED_PERMANENTLY = 301"
definition HTTP_FOUND :: int where "HTTP_FOUND = 302"
definition HTTP_TEMPORARY_REDIRECT :: int where "HTTP_TEMPORARY_REDIRECT = 307"

definition respRx :: rx where
  "respRx =
     Cat (Grp 1 (Alt (Lit ''http'') (Lit ''HTTP''))) (Cat (Lit ''/'')
     (Cat (Many (\<lambda>c. isdigit c \<or> c = CHR ''.'')) (Cat (Many isspace)
     (Cat (Grp 2 (Many isdigit)) (Cat (Many isspace) (Grp 3 (Many (\<lambda>_. True))))))))"

definition empty_response :: http_response where
  "empty_response = \<lparr>status = HTTP_OK, reason = ''OK'', headers = Map.empty\<rparr>"

definition http_response :: "nat \<Rightarrow> sstream \<Rightarrow> (hls_exn + http_response) \<times> sstream" where
  "http_response lb s =
     (let (inStr, s) = getline s []
      in if \<not> stream_good s then (Inl (Exn ''HttpResponce Initial stream closed''), s)
         else
           let inStr = rtrim inStr
           in if inStr = [] then (Inl (Exn ''HttpResponce empty stream''), s)
              else case regex_search respRx (cstr inStr 0) of
                     None \<Rightarrow> (Inl (Exn ''HttpResponce bad responce''), s)
                   | Some res \<Rightarrow>
                       (case message_init s [] Map.empty of
                          (Inl e, s) \<Rightarrow> (Inl e, s)
                        | (Inr m, s) \<Rightarrow>
                            (Inr \<lparr>status = atoi lb (str (res ! 2)), reason = str (res ! 3), headers = m\<rparr>, s)))"

definition getHeaderRecord :: "http_response \<Rightarrow> string \<Rightarrow> string option" where
  [simp]: "getHeaderRecord r key = headers r key"

text \<open>\<open>(size_t) atol (...)\<close>, 0 without the header.\<close>

definition getContentLength :: "nat \<Rightarrow> http_response \<Rightarrow> nat" where
  "getContentLength lb r =
     (case getHeaderRecord r ''Content-Length'' of
        None \<Rightarrow> 0
      | Some v \<Rightarrow> nat (fst (strtol lb 10 (cstr v 0)) mod 2 ^ lb))"

section \<open>HttpClient\<close>

record http_client =
  clientUri :: uri
  client_stream :: sstream

definition new_client :: http_client where
  "new_client = \<lparr>clientUri = no_uri, client_stream = new_stream\<rparr>"

text \<open>The pieces of the request, one for every \<open><<\<close>.\<close>

definition request_parts :: "uri \<Rightarrow> string list" where
  "request_parts u =
     [''GET /'', getPath u, '' HTTP/1.1'' @ [newline] @ ''Host: '', getHost u,
      [newline] @ ''User-agent: hlspxd'' @ [newline] @ ''Accept: */*'' @ [newline] @ ''Connection: close''
        @ [newline, newline]]"

fun write_all :: "hls_world \<Rightarrow> string list \<Rightarrow> sstream \<Rightarrow> hls_state \<Rightarrow> sstream \<times> hls_state" where
  "write_all w [] s h = (s, h)"
| "write_all w (x # xs) s h = (let (s, h) = stream_write w x s h in write_all w xs s h)"

text \<open>One attempt: connect, send the request, read the answer.\<close>

definition http_exchange ::
  "hls_world \<Rightarrow> uri \<Rightarrow> sstream \<Rightarrow> hls_state \<Rightarrow> (hls_exn + http_response) \<times> sstream \<times> hls_state" where
  "http_exchange w u s h =
     (case stream_connect w u s h of
        (Inl e, s, h) \<Rightarrow> (Inl e, s, h)
      | (Inr _, s, h) \<Rightarrow>
          let (s, h) = write_all w (request_parts u) s h;
              (s, h) = stream_flush w s h;
              (r, s) = http_response (hls_long_bits w) s
          in (r, s, h))"

definition is_redirect :: "http_response \<Rightarrow> bool" where
  "is_redirect r \<longleftrightarrow> status r = HTTP_FOUND \<or> status r = HTTP_MOVED_PERMANENTLY \<or> status r = HTTP_TEMPORARY_REDIRECT"

text \<open>Where a redirection leads, and the log entry it makes.\<close>

definition redirect_target :: "http_response \<Rightarrow> hls_exn + uri \<times> string" where
  "redirect_target r =
     (case getHeaderRecord r ''Location'' of
        None \<Rightarrow> Inl (Exn ''Redirect - no location'')
      | Some loc \<Rightarrow>
          (case uri_parse loc of
             Inl e \<Rightarrow> Inl e
           | Inr u \<Rightarrow>
               if isRelative u then Inl (Exn ''Relative redirection not implemented 1'')
               else Inr (u, ''Redirect ->'' @ [CHR 0x27] @ cstr loc 0 @ [CHR 0x27])))"

text \<open>The loop over the attempts. The URI is the caller's object: a redirection changes it.\<close>

fun attempts ::
  "nat \<Rightarrow> hls_world \<Rightarrow> http_response \<Rightarrow> uri \<Rightarrow> http_client \<Rightarrow> hls_state \<Rightarrow>
    (hls_exn + http_response) \<times> uri \<times> http_client \<times> hls_state" where
  "attempts 0 w resp u c h = (Inr resp, u, c, h)"
| "attempts (Suc n) w resp u c h =
     (let (r, s, h) = http_exchange w u (client_stream c) h; c = \<lparr>clientUri = u, client_stream = s\<rparr>
      in case r of
           Inl e \<Rightarrow> (Inl e, u, c, h)
         | Inr resp \<Rightarrow>
             if is_redirect resp then
               (case redirect_target resp of
                  Inl e \<Rightarrow> (Inl e, u, c, h)
                | Inr (u', msg) \<Rightarrow> attempts n w resp u' (c\<lparr>clientUri := u'\<rparr>) (WriteLog w msg h))
             else (Inr resp, u, c, h))"

definition getResponce ::
  "hls_world \<Rightarrow> uri \<Rightarrow> http_client \<Rightarrow> hls_state \<Rightarrow>
    (hls_exn + http_response) \<times> uri \<times> http_client \<times> hls_state" where
  "getResponce w u c h = attempts 5 w empty_response u c h"

end
