(* ===== verification/HlsPlaylist.thy ===== *)
theory HlsPlaylist
  imports HlsHttp
begin

text \<open>
  The viewer's playlists (\<open>videoviewer.h\<close>, \<open>videoviewer.cpp\<close>): the pattern \<open>PlRx\<close>, the records it cuts
  a playlist into (\<open>ReadM3U8\<close>), and the constructor of \<open>VideoViewer\<close>, which reads the request of the
  player.
\<close>

section \<open>Records of a playlist\<close>

record play_record =
  Tag :: string
  Attributes :: "string list"
  TsUri :: uri

text \<open>\<open>[A-Z3\-]\<close>: the backslash stands for itself.\<close>

definition tag_char :: "char \<Rightarrow> bool" where
  "tag_char c \<longleftrightarrow> (CHR ''A'' \<le> c \<and> c \<le> CHR ''Z'') \<or> c = CHR ''3'' \<or> c = CHR 0x5C \<or> c = CHR ''-''"

definition attr_char :: "char \<Rightarrow> bool" where
  "attr_char c \<longleftrightarrow> c \<noteq> newline \<and> c \<noteq> CHR '',''"

definition path_char :: "char \<Rightarrow> bool" where
  "path_char c \<longleftrightarrow> c \<noteq> newline \<and> c \<noteq> CHR ''#''"

definition eol_char :: "char \<Rightarrow> bool" where
  "eol_char c \<longleftrightarrow> c = newline \<or> c = CHR 0x0D"

text \<open>\<open>(,([^\n,]*))?\<close>, five times; then the line with the URI.\<close>

definition more_attr :: "nat \<Rightarrow> rx" where
  "more_attr n = Opt (Grp n (Cat (Lit '','') (Grp (Suc n) (Any attr_char))))"

definition attrs_rx :: rx where
  "attrs_rx =
     Cat (Lit '':'') (Cat (Grp 3 (Many attr_char))
       (Cat (more_attr 4) (Cat (more_attr 6) (Cat (more_attr 8) (Cat (more_attr 10) (more_attr 12))))))"

definition host_rx :: rx where
  "host_rx =
     Cat (Lit ''http://'') (Cat (Grp 17 (Many host_char)) (Opt (Grp 18 (Cat (Lit '':'') (Grp 19 (Many isdigit))))))"

definition uri_rx :: rx where
  "uri_rx = Cat (Opt (Grp 16 host_rx)) (Cat (Opt (Lit ''/'')) (Grp 20 (Many path_char)))"

definition PlRx :: rx where
  "PlRx =
     Cat (Grp 1 (Cat (Lit ''#EXT'') (Many tag_char)))
     (Cat (Opt (Grp 2 attrs_rx))
     (Cat (Opt (Grp 14 (Cat (Lit [newline]) (Grp 15 uri_rx)))) (Many eol_char)))"

text \<open>The loop over the odd groups from \<open>i\<close> on.\<close>

function collect_attributes :: "cmatch \<Rightarrow> nat \<Rightarrow> string list" where
  "collect_attributes v i =
     (if i < length v \<and> matched (v ! i) then str (v ! i) # collect_attributes v (i + 2) else [])"
  by pat_completeness auto
termination
  by (relation "measure (\<lambda>(v, i). length v - i)") auto

declare collect_attributes.simps [simp del]

definition record_uri :: "uri \<Rightarrow> cmatch \<Rightarrow> uri" where
  "record_uri base v =
     (if matched (v ! 15) then
        if matched (v ! 17) then
          \<lparr>host = str (v ! 17), port = (if matched (v ! 19) then str (v ! 19) else []), path = str (v ! 20)\<rparr>
        else uri_resolve base (str (v ! 20))
      else no_uri)"

definition record_of :: "uri \<Rightarrow> cmatch \<Rightarrow> play_record" where
  "record_of base v =
     \<lparr>Tag = str (v ! 1), Attributes = collect_attributes v 3, TsUri = record_uri base v\<rparr>"

lemma PlRx_nonempty: "rx_matches PlRx s \<Longrightarrow> s \<noteq> []"
  by (auto simp: PlRx_def matches_Cat)

lemma PlRx_search: "regex_search PlRx s = Some v \<Longrightarrow> length v = 21 \<and> sm_text (v ! 0) \<noteq> []"
proof -
  assume v: "regex_search PlRx s = Some v"
  then obtain i m gs where e: "regexec PlRx s = Some (i, m, gs)"
    by (auto simp: regex_search_def split: option.splits)
  then have "rx_find PlRx s = Some (i, m)" by (auto simp: regexec_def)
  from rx_find_SomeD [OF this] have "m \<noteq> []" using PlRx_nonempty by blast
  moreover have "re_nsub PlRx = 20"
    by (simp add: PlRx_def attrs_rx_def more_attr_def uri_rx_def host_rx_def)
  ultimately show ?thesis using v e by (auto simp: regex_search_def)
qed

text \<open>
  The loop of \<open>ReadM3U8\<close>, at the rest of the text. The position moves on by the length of the match,
  wherever the match was found.
\<close>

function playlist_records :: "uri \<Rightarrow> string \<Rightarrow> play_record list" where
  "playlist_records base t =
     (if t = [] then []
      else case regex_search PlRx (cstr t 0) of
             None \<Rightarrow> []
           | Some v \<Rightarrow> record_of base v # playlist_records base (drop (length (sm_text (v ! 0))) t))"
  by pat_completeness auto
termination
proof (relation "measure (\<lambda>(base, t). length t)")
  fix base :: uri and t v assume "t \<noteq> []" "regex_search PlRx (cstr t 0) = Some v"
  with PlRx_search [of "cstr t 0" v]
  show "((base, drop (length (sm_text (v ! 0))) t), base, t) \<in> measure (\<lambda>(base, t). length t)"
    by (cases t) (auto simp: neq_Nil_conv)
qed simp

declare playlist_records.simps [simp del]

section \<open>The viewer\<close>

datatype video_quality = Video_high | Video_medium | Video_low

text \<open>A segment: its address and its length in seconds, a \<open>double\<close> (of any representation).\<close>

record 'd ts_uri =
  seg_uri :: uri
  Duration :: 'd

record 'd viewer =
  VideoStream :: sstream
  SessionQuality :: video_quality
  VideoUri :: uri
  M3U8Client :: http_client
  PlayList :: "play_record list"
  MaxHistLen :: nat
  TsList :: "'d ts_uri list"
  tsClient :: http_client

definition ReadM3U8 :: "hls_world \<Rightarrow> 'd viewer \<Rightarrow> hls_state \<Rightarrow> (hls_exn + unit) \<times> 'd viewer \<times> hls_state" where
  "ReadM3U8 w v h =
     (let (r, u, c, h) = getResponce w (VideoUri v) (M3U8Client v) h;
          v = v\<lparr>VideoUri := u, M3U8Client := c, PlayList := []\<rparr>
      in case r of
           Inl e \<Rightarrow> (Inl e, v, h)
         | Inr resp \<Rightarrow>
             if status resp \<noteq> HTTP_OK then
               (Inl (Exn (''Read playlist returned '' @ [CHR 0x27] @ show_int (status resp) @ [CHR 0x27])), v, h)
             else
               let (n, plStr, s) = copyToString (client_stream c); pl = playlist_records u plStr;
                   v = v\<lparr>M3U8Client := c\<lparr>client_stream := s\<rparr>, PlayList := pl\<rparr>
               in if length pl < 2 then (Inl (Exn ''HLS_TOO_SHORT_PLAYLIST''), v, h)
                  else if Tag (pl ! 0) \<noteq> ''#EXTM3U'' then (Inl (Exn ''HLS_NO_EXTM3U''), v, h)
                  else (Inr (), v, h))"

section \<open>The constructor\<close>

definition cmd_char :: "char \<Rightarrow> bool" where
  "cmd_char c \<longleftrightarrow> c = CHR ''-'' \<or> c = CHR ''_'' \<or> (CHR ''a'' \<le> c \<and> c \<le> CHR ''z'') \<or>
     (CHR ''A'' \<le> c \<and> c \<le> CHR ''Z'') \<or> isdigit c \<or> c = CHR ''.''"

definition more_cmd :: "nat \<Rightarrow> rx" where
  "more_cmd n =
     Opt (Grp n (Cat (Lit '','') (Cat (Grp (n + 1) (Many cmd_char)) (Cat (Lit ''='') (Grp (n + 2) (Many cmd_char))))))"

definition usrcmdex :: rx where
  "usrcmdex =
     Cat (Lit ''|'') (Cat (Grp 1 (Many cmd_char)) (Cat (Lit ''='') (Cat (Grp 2 (Many cmd_char))
       (Cat (more_cmd 3) (Cat (more_cmd 6) (Cat (more_cmd 9) (Cat (more_cmd 12) (more_cmd 15))))))))"

text \<open>The loop over the commands, at the group \<open>i\<close>.\<close>

function user_commands ::
  "hls_world \<Rightarrow> cmatch \<Rightarrow> nat \<Rightarrow> video_quality \<Rightarrow> hls_state \<Rightarrow> video_quality \<times> hls_state" where
  "user_commands w v i q h =
     (if i < length v \<and> matched (v ! i) then
        let command = str (v ! i)
        in if command = ''quality'' then
             if \<not> matched (v ! (i + 1)) then (q, h)
             else
               let value = str (v ! (i + 1))
               in if value = ''high'' then user_commands w v (i + 3) Video_high h
                  else if value = ''medium'' then user_commands w v (i + 3) Video_medium h
                  else if value = ''low'' then user_commands w v (i + 3) Video_low h
                  else user_commands w v (i + 3) q
                    (WriteLog w (''Wrong quality argument '' @ [CHR 0x27] @ value @ [CHR 0x27]) h)
           else user_commands w v (i + 3) q (WriteLog w (''Wrong command '' @ [CHR 0x27] @ command @ [CHR 0x27]) h)
      else (q, h))"
  by pat_completeness auto
termination
  by (relation "measure (\<lambda>(w, v, i, q, h). length v - i)") auto

declare user_commands.simps [simp del]

text \<open>The request as the player sent it, split at its last \<open>|\<close>: address and quality.\<close>

definition user_request ::
  "hls_world \<Rightarrow> string \<Rightarrow> video_quality \<Rightarrow> hls_state \<Rightarrow> string \<times> video_quality \<times> hls_state" where
  "user_request w reqStr q h =
     (if CHR ''|'' \<in> set reqStr then
        let pos = length reqStr - Suc (length (takeWhile (\<lambda>c. c \<noteq> CHR ''|'') (rev reqStr)));
            (q, h) = (case regex_search usrcmdex (cstr reqStr pos) of
                        None \<Rightarrow> (q, h)
                      | Some v \<Rightarrow> user_commands w v 1 q h)
        in (take pos reqStr, q, h)
      else (reqStr, q, h))"

text \<open>
  The constructor, on a client socket and what arrives on it. When it throws, the members built so
  far are destroyed, which closes the socket.
\<close>

definition VideoViewer ::
  "hls_world \<Rightarrow> video_quality \<Rightarrow> int \<Rightarrow> recv_answer list \<Rightarrow> hls_state \<Rightarrow> (hls_exn + 'd viewer) \<times> hls_state" where
  "VideoViewer w default_quality fd arriving_there h =
     (let (s, h) = stream_open fd arriving_there new_stream h; (req, s) = http_request s
      in case req of
           Inl e \<Rightarrow> (Inl e, snd (stream_close s h))
         | Inr p \<Rightarrow>
             (case uri_decode p False of
                Inl e \<Rightarrow> (Inl e, snd (stream_close s h))
              | Inr reqStr \<Rightarrow>
                  let (reqUri, q, h) = user_request w reqStr default_quality h
                  in case uri_parse (''http:/'' @ reqUri) of
                       Inl e \<Rightarrow> (Inl e, snd (stream_close s h))
                     | Inr u \<Rightarrow>
                         (Inr \<lparr>VideoStream = s, SessionQuality = q, VideoUri = u, M3U8Client = new_client,
                               PlayList = [], MaxHistLen = 0, TsList = [], tsClient = new_client\<rparr>,
                          WriteLog w (''Request video '' @ [CHR 0x27] @ cstr (uri_toString u) 0 @ [CHR 0x27]) h)))"

end
