(* ===== verification/HlsViewer.thy ===== *)
theory HlsViewer
  imports HlsPlaylist
begin

text \<open>
  \<open>VideoViewer::Run\<close> (\<open>videoviewer.cpp\<close>): the choice of a stream, and the loop that reads the playlist,
  finds its new segments, fetches them and forwards them to the player. One pass of the endless loop
  is a definition of its own; the whole run is for any number of passes.
\<close>

section \<open>The library underneath\<close>

text \<open>
  Numbers of type \<open>double\<close> are of any type \<open>'d\<close> with the operations the code uses: \<open>atof\<close> (also for
  literals), conversion from and to integers, arithmetic, comparison, \<open>%0.2f\<close>. \<open>std_sort\<close> is
  \<open>std::sort\<close>, whose order of equal elements is open.
\<close>

record stream_inf =
  Bandwidth :: int
  inf_uri :: uri

record 'd stdlib =
  d_of :: "string \<Rightarrow> 'd"
  d_int :: "int \<Rightarrow> 'd"
  d_long :: "'d \<Rightarrow> int"
  d_add :: "'d \<Rightarrow> 'd \<Rightarrow> 'd"
  d_sub :: "'d \<Rightarrow> 'd \<Rightarrow> 'd"
  d_mul :: "'d \<Rightarrow> 'd \<Rightarrow> 'd"
  d_div :: "'d \<Rightarrow> 'd \<Rightarrow> 'd"
  d_less :: "'d \<Rightarrow> 'd \<Rightarrow> bool"
  d_eq :: "'d \<Rightarrow> 'd \<Rightarrow> bool"
  d_show2 :: "'d \<Rightarrow> string"
  std_sort :: "stream_inf list \<Rightarrow> stream_inf list"

text \<open>\<open>Stopwatch\<close>: the watch is its start time; \<open>elapsed\<close> is in milliseconds.\<close>

definition stopwatch_start :: "hls_world \<Rightarrow> hls_state \<Rightarrow> (int \<times> int) \<times> hls_state" where
  [simp]: "stopwatch_start w h = (monotonic w (hls_calls h), tick h)"

definition elapsed :: "hls_world \<Rightarrow> int \<times> int \<Rightarrow> hls_state \<Rightarrow> int \<times> hls_state" where
  "elapsed w start h =
     (if fst start = 0 then (0, h)
      else let (sec, nsec) = monotonic w (hls_calls h)
           in ((sec - fst start) * 1000 + (nsec - snd start) sdiv 1000000, tick h))"

text \<open>\<open>Sleep (mls)\<close>, a macro over \<open>usleep\<close>, whose argument has 32 bits.\<close>

definition Sleep :: "int \<Rightarrow> hls_state \<Rightarrow> hls_state" where
  "Sleep mls h = happen (Usleep (mls * 1000 mod 2 ^ 32)) h"

section \<open>Choice of a stream\<close>

text \<open>The loop over the attributes of one record, from the bandwidth so far.\<close>

fun bandwidth :: "nat \<Rightarrow> string list \<Rightarrow> int \<Rightarrow> hls_exn + int" where
  "bandwidth lb [] b = Inr b"
| "bandwidth lb (a # as) b =
     (if take 10 a = ''BANDWIDTH='' then
        let n = atoi lb (cstr a 10)
        in if n = 0 then Inl (Exn ''#EXT-X-STREAM-INF:BANDWIDTH=?'') else bandwidth lb as n
      else bandwidth lb as b)"

fun stream_infos :: "nat \<Rightarrow> play_record list \<Rightarrow> hls_exn + stream_inf list" where
  "stream_infos lb [] = Inr []"
| "stream_infos lb (r # rs) =
     (if Tag r = ''#EXT-X-STREAM-INF'' then
        if uri_empty (TsUri r) then Inl (Exn ''#EXT-X-STREAM-INF - empty URI'')
        else case bandwidth lb (Attributes r) 0 of
               Inl e \<Rightarrow> Inl e
             | Inr b \<Rightarrow>
                 if b = 0 then Inl (Exn ''#EXT-X-STREAM-INF: no BANDWIDTH'')
                 else (case stream_infos lb rs of
                         Inl e \<Rightarrow> Inl e
                       | Inr ss \<Rightarrow> Inr (\<lparr>Bandwidth = b, inf_uri = TsUri r\<rparr> # ss))
      else stream_infos lb rs)"

definition selected_stream :: "video_quality \<Rightarrow> stream_inf list \<Rightarrow> stream_inf" where
  "selected_stream q streamVec =
     (case q of
        Video_high \<Rightarrow> streamVec ! (length streamVec - 1)
      | Video_medium \<Rightarrow> streamVec ! (length streamVec div 2)
      | Video_low \<Rightarrow> streamVec ! 0)"

section \<open>New segments of a playlist\<close>

text \<open>The variables of the loop over the records. (The variable \<open>it\<close> inside it is another one.)\<close>

record 'd scan =
  uniqts :: nat
  addedTs :: nat
  lps :: 'd
  mediaSeq :: int
  lastTs :: "'d ts_uri"
  ts_list :: "'d ts_uri list"
  endList :: bool

definition seg_eq :: "'d ts_uri \<Rightarrow> 'd ts_uri \<Rightarrow> bool" where
  "seg_eq s t \<longleftrightarrow> seg_uri s = seg_uri t"

definition scan_segment :: "'d stdlib \<Rightarrow> 'd ts_uri \<Rightarrow> 'd scan \<Rightarrow> 'd scan" where
  "scan_segment L nts c =
     (if seg_eq nts (lastTs c) then c
      else
        let c = c\<lparr>lastTs := nts, uniqts := uniqts c + 1\<rparr>
        in if list_all (\<lambda>s. \<not> seg_eq s nts) (ts_list c) then
             c\<lparr>ts_list := ts_list c @ [nts], addedTs := addedTs c + 1\<rparr>
           else c\<lparr>lps := d_add L (lps c) (Duration nts)\<rparr>)"

definition scan_record ::
  "'d stdlib \<Rightarrow> hls_world \<Rightarrow> play_record \<Rightarrow> 'd scan \<Rightarrow> hls_state \<Rightarrow> (hls_exn + 'd scan) \<times> hls_state" where
  "scan_record L w r c h =
     (if Tag r = ''#EXT-X-MEDIA-SEQUENCE'' then
        if Attributes r = [] then (Inl (Exn ''#EXT-X-MEDIA-SEQUENCE - no attributes''), h)
        else (Inr (c\<lparr>mediaSeq := atoi (hls_long_bits w) (cstr (Attributes r ! 0) 0)\<rparr>), h)
      else if Tag r = ''#EXTINF'' then
        if Attributes r = [] then (Inl (Exn ''#EXTINF - no attributes''), h)
        else if uri_empty (TsUri r) then (Inl (Exn ''#EXTINF - TsUri empty''), h)
        else
          let dur = d_of L (cstr (Attributes r ! 0) 0)
          in if d_eq L dur (d_int L 0) then (Inl (Exn ''HSL_BAD_EXTINF_LENGTH''), h)
             else (Inr (scan_segment L \<lparr>seg_uri = TsUri r, Duration = dur\<rparr> c), h)
      else if Tag r = ''#EXT-X-ENDLIST'' then (Inr (c\<lparr>endList := True\<rparr>), WriteLog w ''Last media sequance'' h)
      else (Inr c, h))"

fun scan_records ::
  "'d stdlib \<Rightarrow> hls_world \<Rightarrow> play_record list \<Rightarrow> 'd scan \<Rightarrow> hls_state \<Rightarrow> (hls_exn + 'd scan) \<times> hls_state" where
  "scan_records L w [] c h = (Inr c, h)"
| "scan_records L w (r # rs) c h =
     (case scan_record L w r c h of
        (Inl e, h) \<Rightarrow> (Inl e, h)
      | (Inr c, h) \<Rightarrow> scan_records L w rs c h)"

definition scan_start :: "'d stdlib \<Rightarrow> 'd ts_uri list \<Rightarrow> bool \<Rightarrow> 'd scan" where
  "scan_start L ts e =
     \<lparr>uniqts = 0, addedTs = 0, lps = d_int L 0, mediaSeq = 0,
      lastTs = \<lparr>seg_uri = no_uri, Duration = d_int L 0\<rparr>, ts_list = ts, endList = e\<rparr>"

text \<open>The history: the bound follows the size of the playlist, the oldest entries go.\<close>

definition history_bound :: "nat \<Rightarrow> nat \<Rightarrow> nat" where
  "history_bound uniq maxlen = (if uniq \<ge> maxlen then uniq * 2 else maxlen)"

definition trim_history :: "nat \<Rightarrow> 'a list \<Rightarrow> 'a list" where
  "trim_history maxlen ts = (if length ts > maxlen then drop (length ts - maxlen) ts else ts)"

section \<open>Forwarding\<close>

definition TS_BUF_LEN :: nat where "TS_BUF_LEN = 4 * 188"

lemma stream_read_fewer:
  "stream_read n s = (x, s') \<Longrightarrow> length x < n \<Longrightarrow> \<not> flags_good s'"
proof -
  have full: "sgetn n s = (x, f, s') \<Longrightarrow> f = Fine \<Longrightarrow> length x = n" for f s s' and x :: string
    by (induction n arbitrary: s x) (auto simp: sbumpc_def split: prod.splits option.splits flow.splits)
  show "stream_read n s = (x, s') \<Longrightarrow> length x < n \<Longrightarrow> \<not> flags_good s'"
    by (auto simp: stream_read_def flags_good_def split: if_splits prod.splits flow.splits dest: full)
qed

text \<open>After a read of the inner loop: the bytes to the player, and a pause when it is early. The first
  component is \<open>tsTime\<close>.\<close>

definition write_block ::
  "'d stdlib \<Rightarrow> hls_world \<Rightarrow> int \<times> int \<Rightarrow> bool \<Rightarrow> 'd \<Rightarrow> 'd \<Rightarrow> string \<Rightarrow> sstream \<Rightarrow> hls_state \<Rightarrow>
    'd \<times> sstream \<times> hls_state" where
  "write_block L w start e byteDelay tsTime x vs h =
     (let (vs, h) = stream_write w x vs h;
          tsTime = d_add L tsTime (d_mul L (d_int L (int (length x))) byteDelay);
          (el, h) = elapsed w start h;
          curdel = d_sub L tsTime (d_div L (d_int L el) (d_int L 1000));
          h = (if d_less L (d_of L ''0.01'') curdel \<and> \<not> e then Sleep (d_long L (d_mul L curdel (d_int L 1000))) h
               else h)
      in (tsTime, vs, h))"

text \<open>The inner loop: a bufferful from the server.\<close>

function forward ::
  "'d stdlib \<Rightarrow> hls_world \<Rightarrow> int \<times> int \<Rightarrow> bool \<Rightarrow> 'd \<Rightarrow> 'd \<Rightarrow> sstream \<Rightarrow> sstream \<Rightarrow> hls_state \<Rightarrow>
    sstream \<times> sstream \<times> hls_state" where
  "forward L w start e byteDelay tsTime ts vs h =
     (if stream_good ts \<and> stream_good vs then
        let (x, ts') = stream_read TS_BUF_LEN ts;
            (tsTime, vs, h) = write_block L w start e byteDelay tsTime x vs h
        in forward L w start e byteDelay tsTime ts' vs h
      else (ts, vs, h))"
  by pat_completeness auto
termination
proof (relation "measure (\<lambda>(L, w, start, e, byteDelay, tsTime, ts, vs, h). 2 * inflow ts + (if flags_good ts then 1 else 0))")
  fix L :: "'d stdlib" and w start e byteDelay tsTime ts vs h
    and p x ts' q tsTime' r vs' h'
  assume g: "stream_good ts \<and> stream_good vs" and p: "p = stream_read TS_BUF_LEN ts" "(x, ts') = p"
  have le: "inflow ts' + length x \<le> inflow ts" using stream_read_inflow [of TS_BUF_LEN ts x ts'] p by simp
  have "2 * inflow ts' + (if flags_good ts' then 1 else 0) < 2 * inflow ts + 1"
  proof (cases "length x < TS_BUF_LEN")
    case True
    with stream_read_fewer [of TS_BUF_LEN ts x ts'] p le show ?thesis by simp
  next
    case False
    then have "0 < length x" by (cases x) (simp_all add: TS_BUF_LEN_def)
    with le show ?thesis by (simp del: length_greater_0_conv)
  qed
  with g show "((L, w, start, e, byteDelay, tsTime', ts', vs', h'), L, w, start, e, byteDelay, tsTime, ts, vs, h)
      \<in> measure (\<lambda>(L, w, start, e, byteDelay, tsTime, ts, vs, h). 2 * inflow ts + (if flags_good ts then 1 else 0))"
    by (simp add: stream_good_def)
qed simp

declare forward.simps [simp del]

text \<open>
  The request for the segment \<open>i\<close> and the checks of the response: the delay of a byte. A redirection
  changes the entry of the history \<open>getResponce\<close> is called with.
\<close>

definition open_segment ::
  "'d stdlib \<Rightarrow> hls_world \<Rightarrow> nat \<Rightarrow> 'd viewer \<Rightarrow> hls_state \<Rightarrow> (hls_exn + 'd) \<times> 'd viewer \<times> hls_state" where
  "open_segment L w i v h =
     (let (r, u, c, h) = getResponce w (seg_uri (TsList v ! i)) (tsClient v) h;
          ts = (TsList v ! i)\<lparr>seg_uri := u\<rparr>;
          v = v\<lparr>TsList := (TsList v)[i := ts], tsClient := c\<rparr>
      in case r of
           Inl x \<Rightarrow> (Inl x, v, h)
         | Inr tsResp \<Rightarrow>
             let contLen = getContentLength (hls_long_bits w) tsResp
             in if status tsResp \<noteq> HTTP_OK then
                  (Inl (Exn (''Read TS file returned '' @ [CHR 0x27] @ show_int (status tsResp) @ [CHR 0x27])), v, h)
                else if contLen = 0 then (Inl (Exn ''.ts file has no  Content Length''), v, h)
                else (Inr (d_div L (Duration ts) (d_int L (int contLen))), v, h))"

lemma open_segment_length [simp]:
  assumes "open_segment L w i v h = (r, v', h')"
  shows "length (TsList v') = length (TsList v)"
  using assms by (auto simp: open_segment_def Let_def split: prod.splits sum.splits if_splits)

text \<open>The loop over the segments from the index \<open>i\<close> on.\<close>

function play_segments ::
  "'d stdlib \<Rightarrow> hls_world \<Rightarrow> int \<times> int \<Rightarrow> bool \<Rightarrow> nat \<Rightarrow> 'd \<Rightarrow> 'd viewer \<Rightarrow> hls_state \<Rightarrow>
    (hls_exn + 'd) \<times> 'd viewer \<times> hls_state" where
  "play_segments L w start e i m3uTime v h =
     (if i < length (TsList v) \<and> stream_good (VideoStream v) then
        let (r, v, h) = open_segment L w i v h
        in case r of
             Inl x \<Rightarrow> (Inl x, v, h)
           | Inr byteDelay \<Rightarrow>
               let (s, vs, h) = forward L w start e byteDelay m3uTime (client_stream (tsClient v)) (VideoStream v) h;
                   v = v\<lparr>VideoStream := vs, tsClient := (tsClient v)\<lparr>client_stream := s\<rparr>\<rparr>
               in play_segments L w start e (Suc i) (d_add L m3uTime (Duration (TsList v ! i))) v h
      else (Inr m3uTime, v, h))"
  by pat_completeness auto
termination
  by (relation "measure (\<lambda>(L, w, start, e, i, m3uTime, v, h). length (TsList v) - i)")
    (auto dest: open_segment_length [OF sym])

declare play_segments.simps [simp del]

section \<open>The main loop\<close>

text \<open>What the loop keeps from pass to pass, beside the viewer.\<close>

record 'd loop_state =
  m3uTime :: 'd
  prevMediaSeq :: int
  emptCnt :: nat
  endSeen :: bool

text \<open>The messages about one playlist.\<close>

definition report_playlist :: "'d stdlib \<Rightarrow> hls_world \<Rightarrow> int \<Rightarrow> 'd scan \<Rightarrow> hls_state \<Rightarrow> hls_state" where
  "report_playlist L w prev c h =
     (let h = (if prev \<noteq> 0 \<and> s32 (prev + int (addedTs c)) \<noteq> mediaSeq c then
                 WriteLog w (''Lost '' @ show_int (s32 (mediaSeq c - prev - int (addedTs c))) @ '' !!'') h
               else h)
      in WriteLog w (''added '' @ show_int (int (addedTs c)) @ '' ('' @ show_int (int (uniqts c)) @ '') forward '' @
           d_show2 L (lps c) @ '' mediaSeq '' @ show_int (mediaSeq c)) h)"

text \<open>After a playlist without a new segment: whether to go on.\<close>

definition empty_round ::
  "'d stdlib \<Rightarrow> hls_world \<Rightarrow> 'd scan \<Rightarrow> 'd loop_state \<Rightarrow> 'd viewer \<Rightarrow> hls_state \<Rightarrow>
    (hls_exn + bool) \<times> 'd loop_state \<times> 'd viewer \<times> hls_state" where
  "empty_round L w c k v h =
     (let n = emptCnt k; k = k\<lparr>emptCnt := n + 1\<rparr>; d = Duration (lastTs c)
      in if n > 4 then (Inr False, k, v, WriteLog w ''Empty sequances!'' h)
         else if d_eq L d (d_int L 0) then (Inl (Exn ''lastTs.Duration == 0''), k, v, h)
         else
           let h = WriteLog w (''Sleep->'' @ d_show2 L d) h;
               h = Sleep (d_long L (d_mul L d (d_int L 1000))) h;
               k = k\<lparr>m3uTime := d_add L (m3uTime k) d\<rparr>;
               (r, v, h) = ReadM3U8 w v h
           in (case r of Inl e \<Rightarrow> Inl e | Inr _ \<Rightarrow> Inr True, k, v, h))"

text \<open>After a playlist with new segments: the history is cut and the reading position set; after the
  loop over the segments: whether to go on.\<close>

definition cut_history :: "'d scan \<Rightarrow> 'd loop_state \<Rightarrow> 'd viewer \<Rightarrow> 'd loop_state \<times> 'd viewer \<times> nat" where
  "cut_history c k v =
     (let n = history_bound (uniqts c) (MaxHistLen v); v = v\<lparr>MaxHistLen := n, TsList := trim_history n (TsList v)\<rparr>
      in (k\<lparr>emptCnt := 0\<rparr>, v, length (TsList v) - addedTs c))"

definition segments_end ::
  "hls_world \<Rightarrow> 'd loop_state \<Rightarrow> 'd viewer \<Rightarrow> hls_state \<Rightarrow> (hls_exn + bool) \<times> 'd viewer \<times> hls_state" where
  "segments_end w k v h =
     (if \<not> stream_good (VideoStream v) then (Inr False, v, WriteLog w ''Output stream closed'' h)
      else if endSeen k then (Inr False, v, WriteLog w ''End VOD'' h)
      else
        let (r, v, h) = ReadM3U8 w v h
        in (case r of Inl e \<Rightarrow> Inl e | Inr _ \<Rightarrow> Inr True, v, h))"

definition segments_round ::
  "'d stdlib \<Rightarrow> hls_world \<Rightarrow> int \<times> int \<Rightarrow> 'd scan \<Rightarrow> 'd loop_state \<Rightarrow> 'd viewer \<Rightarrow> hls_state \<Rightarrow>
    (hls_exn + bool) \<times> 'd loop_state \<times> 'd viewer \<times> hls_state" where
  "segments_round L w start c k v h =
     (let (k, v, i) = cut_history c k v; (r, v, h) = play_segments L w start (endSeen k) i (m3uTime k) v h
      in case r of
           Inl e \<Rightarrow> (Inl e, k, v, h)
         | Inr t \<Rightarrow> (let k = k\<lparr>m3uTime := t\<rparr>; (r, v, h) = segments_end w k v h in (r, k, v, h)))"

text \<open>The part of a pass before them: the records of the playlist are looked at.\<close>

definition read_records ::
  "'d stdlib \<Rightarrow> hls_world \<Rightarrow> 'd loop_state \<Rightarrow> 'd viewer \<Rightarrow> hls_state \<Rightarrow>
    (hls_exn + 'd scan) \<times> 'd loop_state \<times> 'd viewer \<times> hls_state" where
  "read_records L w k v h =
     (let (r, h) = scan_records L w (PlayList v) (scan_start L (TsList v) (endSeen k)) h
      in case r of
           Inl e \<Rightarrow> (Inl e, k, v, h)
         | Inr c \<Rightarrow>
             (Inr c, k\<lparr>prevMediaSeq := mediaSeq c, endSeen := endList c\<rparr>, v\<lparr>TsList := ts_list c\<rparr>,
              report_playlist L w (prevMediaSeq k) c h))"

text \<open>One pass: an exception, or whether there is another pass.\<close>

definition viewer_round ::
  "'d stdlib \<Rightarrow> hls_world \<Rightarrow> int \<times> int \<Rightarrow> 'd loop_state \<Rightarrow> 'd viewer \<Rightarrow> hls_state \<Rightarrow>
    (hls_exn + bool) \<times> 'd loop_state \<times> 'd viewer \<times> hls_state" where
  "viewer_round L w start k v h =
     (let (r, k, v, h) = read_records L w k v h
      in case r of
           Inl e \<Rightarrow> (Inl e, k, v, h)
         | Inr c \<Rightarrow> if addedTs c = 0 then empty_round L w c k v h else segments_round L w start c k v h)"

fun viewer_rounds ::
  "'d stdlib \<Rightarrow> hls_world \<Rightarrow> int \<times> int \<Rightarrow> nat \<Rightarrow> 'd loop_state \<Rightarrow> 'd viewer \<Rightarrow> hls_state \<Rightarrow>
    (hls_exn + bool) \<times> 'd loop_state \<times> 'd viewer \<times> hls_state" where
  "viewer_rounds L w start 0 k v h = (Inr True, k, v, h)"
| "viewer_rounds L w start (Suc n) k v h =
     (case viewer_round L w start k v h of
        (Inr True, k, v, h) \<Rightarrow> viewer_rounds L w start n k v h
      | (r, k, v, h) \<Rightarrow> (r, k, v, h))"

section \<open>Run\<close>

definition response_header :: string where
  "response_header = ''HTTP/1.1 200 OK'' @ [newline] @ ''Server: hlspxd'' @ [newline] @
     ''Content-Type: application/octet-stream'' @ [newline] @ ''Connection : close'' @ [newline, newline]"

text \<open>The choice of a stream, when the first playlist lists some.\<close>

definition choose_stream ::
  "'d stdlib \<Rightarrow> hls_world \<Rightarrow> 'd viewer \<Rightarrow> hls_state \<Rightarrow> (hls_exn + unit) \<times> 'd viewer \<times> hls_state" where
  "choose_stream L w v h =
     (case stream_infos (hls_long_bits w) (PlayList v) of
        Inl e \<Rightarrow> (Inl e, v, h)
      | Inr streamVec \<Rightarrow>
          if streamVec = [] then (Inr (), v, h)
          else
            let s = selected_stream (SessionQuality v) (std_sort L streamVec);
                h = WriteLog w (''Select STREAM-INF: URI '' @ [CHR 0x27] @ cstr (uri_toString (inf_uri s)) 0 @
                      [CHR 0x27] @ '' BANDWIDTH='' @ show_int (Bandwidth s)) h
            in ReadM3U8 w (v\<lparr>VideoUri := inf_uri s\<rparr>) h)"

definition loop_start :: "'d stdlib \<Rightarrow> 'd loop_state" where
  "loop_start L = \<lparr>m3uTime = d_int L (- 5), prevMediaSeq = 0, emptCnt = 0, endSeen = False\<rparr>"

text \<open>The first lines of the answer, and the flush (\<open>endl\<close>).\<close>

definition greet :: "hls_world \<Rightarrow> 'd viewer \<Rightarrow> hls_state \<Rightarrow> 'd viewer \<times> hls_state" where
  "greet w v h =
     (let (s, h) = stream_write w response_header (VideoStream v) h; (s, h) = stream_flush w s h
      in (v\<lparr>VideoStream := s\<rparr>, h))"

text \<open>\<open>Run\<close>, for at most \<open>n\<close> passes of its loop; \<open>Inr True\<close>: it is still running.\<close>

definition Run ::
  "'d stdlib \<Rightarrow> hls_world \<Rightarrow> nat \<Rightarrow> 'd viewer \<Rightarrow> hls_state \<Rightarrow> (hls_exn + bool) \<times> 'd viewer \<times> hls_state" where
  "Run L w n v h =
     (case ReadM3U8 w v h of
        (Inl e, v, h) \<Rightarrow> (Inl e, v, h)
      | (Inr _, v, h) \<Rightarrow>
          let (v, h) = greet w v h
          in case choose_stream L w v h of
               (Inl e, v, h) \<Rightarrow> (Inl e, v, h)
             | (Inr _, v, h) \<Rightarrow>
                 let (start, h) = stopwatch_start w h; (r, k, v, h) = viewer_rounds L w start n (loop_start L) v h
                 in (r, v, h))"

text \<open>\<open>Stop\<close>, which is also all the destructor does; then the members are destroyed.\<close>

definition Stop :: "'d viewer \<Rightarrow> hls_state \<Rightarrow> 'd viewer \<times> hls_state" where
  "Stop v h = (let (s, h) = stream_close (VideoStream v) h in (v\<lparr>VideoStream := s\<rparr>, h))"

text \<open>The members after it, in the reverse order of their declaration: each client closes its stream, the
  buffer of each stream tries to send what it holds (\<open>~socketbuf\<close>), on no socket.\<close>

definition destroy_stream :: "hls_world \<Rightarrow> sstream \<Rightarrow> hls_state \<Rightarrow> hls_state" where
  "destroy_stream w s h =
     (let (s, h) = stream_close s h; (_, s, h) = output_buffer w s h in snd (buf_close s h))"

definition delete_viewer :: "hls_world \<Rightarrow> 'd viewer \<Rightarrow> hls_state \<Rightarrow> hls_state" where
  "delete_viewer w v h =
     (let (v, h) = Stop v h;
          h = destroy_stream w (client_stream (tsClient v)) h;
          h = destroy_stream w (client_stream (M3U8Client v)) h
      in destroy_stream w (VideoStream v) h)"

end
