(* ===== verification/HlsServer.thy ===== *)
theory HlsServer
  imports HlsViewer Getopt
begin

text \<open>
  The process (\<open>hlspxd.cpp\<close>, \<open>platform.cpp\<close>, \<open>HttpServer\<close> in \<open>utils.cpp\<close>): the command line, the
  daemon, the server with a child for every connection, and how \<open>main\<close> ends. A \<open>fork\<close> that returns 0
  makes the model follow the child, here without signals; \<open>HlsChild\<close> lets \<open>SIGHUP\<close> come between its steps.
\<close>

section \<open>Command line\<close>

text \<open>Name, argument required, value.\<close>

definition long_opt :: "(string \<times> bool \<times> char) list" where
  "long_opt =
     [(''help'', False, CHR ''h''), (''port'', True, CHR ''p''), (''quality'', True, CHR ''q''),
      (''console'', False, CHR ''c''), (''writelog'', False, CHR ''w'')]"

text \<open>\<open>getopt_long\<close> takes the option with this name, or the only one the name is a beginning of.\<close>

definition long_lookup :: "string \<Rightarrow> (bool \<times> char) option" where
  "long_lookup name =
     (case filter (\<lambda>(n, _). n = name) long_opt of
        (_, r) # _ \<Rightarrow> Some r
      | [] \<Rightarrow> (case filter (\<lambda>(n, _). prefix name n) long_opt of [(_, r)] \<Rightarrow> Some r | _ \<Rightarrow> None))"

text \<open>\<open>name=argument\<close>.\<close>

definition split_eq :: "string \<Rightarrow> string \<times> string option" where
  "split_eq s =
     (let name = takeWhile (\<lambda>c. c \<noteq> CHR ''='') s
      in (name, if CHR ''='' \<in> set s then Some (drop (Suc (length name)) s) else None))"

text \<open>What the calls of \<open>getopt_long (argc, argv, "h", long_opt, NULL)\<close> return, with \<open>optarg\<close>.\<close>

fun getopt_long :: "string list \<Rightarrow> (char \<times> string) list" where
  "getopt_long [] = []"
| "getopt_long (a # as) =
     (if a = ''--'' then []
      else if prefix ''--'' a then
        (case long_lookup (fst (split_eq (drop 2 a))) of
           None \<Rightarrow> (CHR ''?'', []) # getopt_long as
         | Some (False, c) \<Rightarrow>
             (case snd (split_eq (drop 2 a)) of
                None \<Rightarrow> (c, []) # getopt_long as
              | Some _ \<Rightarrow> (CHR ''?'', []) # getopt_long as)
         | Some (True, c) \<Rightarrow>
             (case snd (split_eq (drop 2 a)) of
                Some v \<Rightarrow> (c, v) # getopt_long as
              | None \<Rightarrow> (case as of [] \<Rightarrow> [(CHR ''?'', [])] | b # bs \<Rightarrow> (c, b) # getopt_long bs)))
      else if prefix ''-'' a \<and> a \<noteq> ''-'' then
        map (\<lambda>c. (if c = CHR ''h'' then c else CHR ''?'', [])) (drop 1 a) @ getopt_long as
      else getopt_long as)"

text \<open>The variables \<open>main\<close> sets from the options.\<close>

record hls_config =
  AsDaemon :: bool
  LogEnabled :: bool
  PortNum :: int
  DefaultQuality :: video_quality
  qualityStr :: string

definition hls_init :: hls_config where
  "hls_init = \<lparr>AsDaemon = True, LogEnabled = False, PortNum = 4343, DefaultQuality = Video_high,
     qualityStr = ''high''\<rparr>"

definition set_quality :: "string \<Rightarrow> hls_config \<Rightarrow> hls_config" where
  "set_quality a g =
     (let g = g\<lparr>qualityStr := a\<rparr>
      in if a = ''high'' then g\<lparr>DefaultQuality := Video_high\<rparr>
         else if a = ''medium'' then g\<lparr>DefaultQuality := Video_medium\<rparr>
         else if a = ''low'' then g\<lparr>DefaultQuality := Video_low\<rparr>
         else g)"

text \<open>The loop over the options; \<open>None\<close>: the usage is printed and the program exits.\<close>

fun hls_options :: "nat \<Rightarrow> (char \<times> string) list \<Rightarrow> hls_config \<Rightarrow> hls_config option" where
  "hls_options lb [] g = Some g"
| "hls_options lb ((c, a) # os) g =
     (if c = CHR ''c'' then hls_options lb os (g\<lparr>AsDaemon := False\<rparr>)
      else if c = CHR ''w'' then hls_options lb os (g\<lparr>LogEnabled := True\<rparr>)
      else if c = CHR ''p'' then hls_options lb os (g\<lparr>PortNum := atoi lb a\<rparr>)
      else if c = CHR ''q'' then hls_options lb os (set_quality a g)
      else None)"

definition tab :: char where "tab = CHR 0x09"

definition hls_usage :: "string \<Rightarrow> string" where
  "hls_usage ProgName =
     ''Usage : '' @ ProgName @ '' <option(s)>'' @ [newline] @ ''The options are:'' @ [newline] @
     ''   --port=<PortNum>'' @ [tab, tab] @ ''Specify port to listen. Default=4343'' @ [newline] @
     ''   --quality=<high|medium|low>'' @ [tab] @ ''Specify quality of input video. Default=high'' @ [newline] @
     ''-h --help'' @ [tab, tab, tab] @ ''Display this output'' @ [newline]"

text \<open>\<open>InitVars\<close>: the name of the program and of the log.\<close>

definition InitVars :: "string \<Rightarrow> string \<times> string" where
  "InitVars arg0 = (let ProgName = basename arg0 in (ProgName, ''/opt/var/log/'' @ ProgName @ ''.log''))"

section \<open>Signals\<close>

text \<open>The calls for \<open>SIGTERM\<close>, \<open>SIGQUIT\<close> and \<open>SIGINT\<close> up to the first that fails, then \<open>SIGCHLD\<close>.\<close>

fun sigactions :: "hls_world \<Rightarrow> nat \<Rightarrow> hls_state \<Rightarrow> bool \<times> hls_state" where
  "sigactions w 0 h = (True, h)"
| "sigactions w (Suc n) h =
     (if sigaction_rc w (hls_calls h) < 0 then (False, tick h) else sigactions w n (tick h))"

definition HideSignals :: "hls_world \<Rightarrow> hls_state \<Rightarrow> int \<times> hls_state" where
  "HideSignals w h =
     (let (ok, h) = sigactions w 3 h
      in if \<not> ok then (- 1, WriteLog w ''sigaction-quit'' h) else (0, tick h))"

section \<open>HttpServer\<close>

text \<open>The two global pointers: the socket and the viewer.\<close>

record 'd server =
  ListenSocket :: int
  vview :: "'d viewer option"

text \<open>The handler of a child. (The pointer is set when the constructor has ended.)\<close>

definition handle_SIGHUP :: "'d server \<Rightarrow> hls_state \<Rightarrow> 'd server \<times> hls_state" where
  "handle_SIGHUP s h =
     (case vview s of
        None \<Rightarrow> (s, h)
      | Some v \<Rightarrow> (let (v, h) = Stop v h in (s\<lparr>vview := Some v\<rparr>, h)))"

text \<open>The child, up to the constructor of its viewer; then at most \<open>m\<close> passes of the viewer's loop.
  \<open>Inr True\<close>: it is still running.\<close>

definition child_setup :: "hls_world \<Rightarrow> int \<Rightarrow> 'd server \<Rightarrow> hls_state \<Rightarrow> (hls_exn + unit) \<times> 'd server \<times> hls_state" where
  "child_setup w ClientSocket s h =
     (let h = happen (CloseFd (ListenSocket s)) h; s = s\<lparr>ListenSocket := INVALID_SOCKET\<rparr>; (ok, h) = sigactions w 1 h
      in if \<not> ok then (Inl (Exn ''handle_SIGHUP''), s, h)
         else (Inr (), s, WriteLog w (''Accept '' @ show_int ClientSocket) h))"

definition serve_child ::
  "'d stdlib \<Rightarrow> hls_world \<Rightarrow> nat \<Rightarrow> video_quality \<Rightarrow> int \<Rightarrow> recv_answer list \<Rightarrow> 'd server \<Rightarrow> hls_state \<Rightarrow>
    (hls_exn + bool) \<times> 'd server \<times> hls_state" where
  "serve_child L w m q ClientSocket arriving_there s h =
     (case child_setup w ClientSocket s h of
        (Inl e, s, h) \<Rightarrow> (Inl e, s, h)
      | (Inr _, s, h) \<Rightarrow>
          (case VideoViewer w q ClientSocket arriving_there h of
             (Inl e, h) \<Rightarrow> (Inl e, s, h)
           | (Inr v, h) \<Rightarrow> (let (r, v, h) = Run L w m v h in (r, s\<lparr>vview := Some v\<rparr>, h))))"

text \<open>The loop over the connections, \<open>n\<close> times at most.\<close>

fun accept_loop ::
  "'d stdlib \<Rightarrow> hls_world \<Rightarrow> nat \<Rightarrow> video_quality \<Rightarrow> nat \<Rightarrow> 'd server \<Rightarrow> hls_state \<Rightarrow>
    (hls_exn + bool) \<times> 'd server \<times> hls_state" where
  "accept_loop L w m q 0 s h = (Inr True, s, h)"
| "accept_loop L w m q (Suc n) s h =
     (let a = hls_calls h; (ClientSocket, eintr) = accept_rc w a; h = tick h
      in if ClientSocket = INVALID_SOCKET then
           if eintr then
             (Inr False, s\<lparr>ListenSocket := INVALID_SOCKET\<rparr>, happen (CloseFd (ListenSocket s)) h)
           else (Inl (Exn ''accept failed''), s, h)
         else
           let h = happen (Accepted ClientSocket) h; fpid = fork_rc w (hls_calls h);
               h = happen (Forked fpid) (tick h)
           in if fpid = 0 then serve_child L w m q ClientSocket (arrivals w a) s h
              else
                let h = (if fpid < 0 then WriteLogError w 1 h else h)
                in accept_loop L w m q n s (happen (CloseFd ClientSocket) h))"

text \<open>\<open>HttpServer::Run\<close>; \<open>htons\<close> keeps 16 bits of the port.\<close>

definition HttpServer_Run ::
  "'d stdlib \<Rightarrow> hls_world \<Rightarrow> nat \<Rightarrow> nat \<Rightarrow> hls_config \<Rightarrow> 'd server \<Rightarrow> hls_state \<Rightarrow>
    (hls_exn + bool) \<times> 'd server \<times> hls_state" where
  "HttpServer_Run L w n m g s h =
     (let s = s\<lparr>ListenSocket := socket_rc w\<rparr>
      in if socket_rc w = - 1 then (Inl (Exn ''Socket Failed to load''), s, h)
         else if bind_rc w = - 1 then (Inl (Exn ''BINDING FAILED''), s, h)
         else
           let h = happen (Bound (socket_rc w) (PortNum g mod 2 ^ 16)) h
           in if listen_rc w = - 1 then (Inl (Exn ''listen FAILED''), s, h)
              else accept_loop L w m (DefaultQuality g) n s (happen (Listening (socket_rc w)) h))"

section \<open>main\<close>

text \<open>The handlers of \<open>main\<close>.\<close>

definition report_exn :: "hls_world \<Rightarrow> hls_exn \<Rightarrow> hls_state \<Rightarrow> hls_state" where
  "report_exn w e h =
     (case e of
        Exn msg \<Rightarrow> WriteLog w (''Error HttpServer '' @ msg) h
      | IntExn ierr \<Rightarrow> WriteLogError w ierr h)"

text \<open>
  \<open>main (argc, argv)\<close> with at most \<open>n\<close> connections and, in a child, \<open>m\<close> passes of the viewer's loop:
  its value, \<open>None\<close> while it is running, and what it did.
\<close>

definition hls_start :: "string \<Rightarrow> hls_state" where
  "hls_start LogFileName = \<lparr>log_on = False, log_file = LogFileName, hls_calls = 0, hls_events = []\<rparr>"

definition hls_finish :: "hls_world \<Rightarrow> (hls_exn + bool) \<times> 'd server \<times> hls_state \<Rightarrow> int option \<times> hls_state" where
  "hls_finish w = (\<lambda>(r, s, h).
     case r of
       Inl e \<Rightarrow> (Some (- 1), report_exn w e h)
     | Inr True \<Rightarrow> (None, h)
     | Inr False \<Rightarrow>
         let h = (case vview s of None \<Rightarrow> h | Some v \<Rightarrow> delete_viewer w v h);
             h = (if ListenSocket s \<noteq> INVALID_SOCKET then happen (CloseFd (ListenSocket s)) h else h)
         in (Some 0, h))"

definition hls_main ::
  "'d stdlib \<Rightarrow> hls_world \<Rightarrow> nat \<Rightarrow> nat \<Rightarrow> string \<Rightarrow> string list \<Rightarrow> int option \<times> hls_state" where
  "hls_main L w n m arg0 args =
     (let (ProgName, LogFileName) = InitVars arg0; h = hls_start LogFileName
      in case hls_options (hls_long_bits w) (getopt_long args) hls_init of
           None \<Rightarrow> (Some 1, happen (Stdout (hls_usage ProgName)) h)
         | Some g \<Rightarrow>
             let h = h\<lparr>log_on := LogEnabled g\<rparr>;
                 (rc, h) = (if AsDaemon g then HideSignals w (happen Daemonize h) else (0, h))
             in if rc \<noteq> 0 then (Some (- 1), h)
                else
                  let h = WriteLog w (''Start port='' @ show_int (PortNum g) @ '' quality='' @ qualityStr g) h
                  in hls_finish w
                       (HttpServer_Run L w n m g \<lparr>ListenSocket = INVALID_SOCKET, vview = None\<rparr> h))"

end
