(* ===== verification/HlsHistory.thy ===== *)
theory HlsHistory
  imports HlsViewer "HOL-Library.Multiset"
begin

text \<open>
  What the viewer makes of a playlist: which stream it chooses, which segments it takes as new, and
  that the iterator it steps back from the end of the history stays in the history.
\<close>

section \<open>New segments\<close>

definition segment_uris :: "play_record list \<Rightarrow> uri list" where
  "segment_uris pl = map TsUri (filter (\<lambda>r. Tag r = ''#EXTINF'') pl)"

text \<open>The addresses not known yet, each once, in the order of their first appearance.\<close>

definition unseen :: "uri list \<Rightarrow> uri list \<Rightarrow> uri list" where
  "unseen known us = rev (remdups (rev (filter (\<lambda>u. u \<notin> set known) us)))"

lemma remdups_snoc: "remdups (xs @ [u]) = remdups (filter (\<lambda>x. x \<noteq> u) xs) @ [u]"
  by (induction xs) auto

lemma unseen_Nil [simp]: "unseen known [] = []"
  by (simp add: unseen_def)

lemma unseen_Cons:
  "unseen known (u # us) = (if u \<in> set known then unseen known us else u # unseen (known @ [u]) us)"
  by (simp add: unseen_def remdups_snoc conj_commute rev_filter [symmetric] del: rev_filter)

lemma set_unseen: "set (unseen known us) = set us - set known"
  by (auto simp: unseen_def)

lemma distinct_unseen: "distinct (unseen known us)"
  by (simp add: unseen_def)

lemma scan_segment_spec:
  assumes "c' = scan_segment L nts c" "seg_uri (lastTs c) = no_uri \<or> seg_uri (lastTs c) \<in> seg_uri ` set (ts_list c)"
    and "seg_uri nts \<noteq> no_uri"
  shows "seg_uri (lastTs c') = seg_uri nts \<and> seg_uri nts \<in> seg_uri ` set (ts_list c') \<and>
    uniqts c' = uniqts c + (if seg_uri nts = seg_uri (lastTs c) then 0 else 1) \<and>
    (if seg_uri nts \<in> seg_uri ` set (ts_list c) then ts_list c' = ts_list c \<and> addedTs c' = addedTs c
     else ts_list c' = ts_list c @ [nts] \<and> addedTs c' = addedTs c + 1) \<and>
    mediaSeq c' = mediaSeq c \<and> endList c' = endList c"
proof -
  have "list_all (\<lambda>s. \<not> seg_eq s nts) xs \<longleftrightarrow> seg_uri nts \<notin> seg_uri ` set xs" for xs
    by (induction xs) (auto simp: seg_eq_def)
  with assms show ?thesis by (auto simp: scan_segment_def Let_def seg_eq_def)
qed

lemma scan_records_spec:
  assumes "scan_records L w pl c h = (Inr c', h')"
    and "seg_uri (lastTs c) = no_uri \<or> seg_uri (lastTs c) \<in> seg_uri ` set (ts_list c)"
  shows "(\<exists>new. ts_list c' = ts_list c @ new \<and> addedTs c' = addedTs c + length new \<and>
        map seg_uri new = unseen (map seg_uri (ts_list c)) (segment_uris pl)) \<and>
    uniqts c' + 1 = uniqts c + length (remdups_adj (seg_uri (lastTs c) # segment_uris pl)) \<and>
    addedTs c' + uniqts c \<le> addedTs c + uniqts c' \<and>
    endList c' = (endList c \<or> ''#EXT-X-ENDLIST'' \<in> Tag ` set pl) \<and> no_uri \<notin> set (segment_uris pl)"
  using assms
proof (induction pl arbitrary: c h)
  case (Cons r pl)
  obtain c1 h1 where 1: "scan_record L w r c h = (Inr c1, h1)" "scan_records L w pl c1 h1 = (Inr c', h')"
    using Cons.prems(1) by (auto split: prod.splits sum.splits)
  show ?case
  proof (cases "Tag r = ''#EXTINF''")
    case False
    then have "ts_list c1 = ts_list c \<and> lastTs c1 = lastTs c \<and> uniqts c1 = uniqts c \<and> addedTs c1 = addedTs c \<and>
        endList c1 = (endList c \<or> Tag r = ''#EXT-X-ENDLIST'')"
      using 1(1) by (auto simp: scan_record_def split: if_splits)
    with Cons.IH [OF 1(2)] Cons.prems(2) False show ?thesis by (auto simp: segment_uris_def)
  next
    case True
    then obtain d where u: "\<not> uri_empty (TsUri r)" "c1 = scan_segment L \<lparr>seg_uri = TsUri r, Duration = d\<rparr> c"
      using 1(1) by (auto simp: scan_record_def Let_def split: if_splits)
    let ?n = "\<lparr>seg_uri = TsUri r, Duration = d\<rparr>"
    have n: "seg_uri ?n \<noteq> no_uri" using u(1) by (auto simp: uri_empty_def no_uri_def)
    note s = scan_segment_spec [OF u(2) Cons.prems(2) n]
    have us: "segment_uris (r # pl) = TsUri r # segment_uris pl" using True by (simp add: segment_uris_def)
    note ih = Cons.IH [OF 1(2)]
    have "TsUri r \<noteq> seg_uri (lastTs c)" if "TsUri r \<notin> seg_uri ` set (ts_list c)"
      using that n Cons.prems(2) by auto
    with s ih True us n show ?thesis
      by (cases "TsUri r \<in> seg_uri ` set (ts_list c)") (auto simp: unseen_Cons)
  qed
qed (simp add: segment_uris_def)

text \<open>The loop over a whole playlist.\<close>

lemma scan_playlist:
  assumes "scan_records L w pl (scan_start L ts e) h = (Inr c, h')"
  obtains new where "ts_list c = ts @ new" "addedTs c = length new"
    "map seg_uri new = unseen (map seg_uri ts) (segment_uris pl)"
    "uniqts c = length (remdups_adj (segment_uris pl))" "addedTs c \<le> uniqts c"
    "endList c = (e \<or> ''#EXT-X-ENDLIST'' \<in> Tag ` set pl)"
proof -
  let ?c = "scan_start L ts e"
  have "seg_uri (lastTs ?c) = no_uri" by (simp add: scan_start_def)
  then have s: "(\<exists>new. ts_list c = ts @ new \<and> addedTs c = length new \<and>
        map seg_uri new = unseen (map seg_uri ts) (segment_uris pl)) \<and>
    uniqts c + 1 = length (remdups_adj (no_uri # segment_uris pl)) \<and> addedTs c \<le> uniqts c \<and>
    endList c = (e \<or> ''#EXT-X-ENDLIST'' \<in> Tag ` set pl) \<and> no_uri \<notin> set (segment_uris pl)"
    using scan_records_spec [OF assms] by (simp add: scan_start_def)
  then have "remdups_adj (no_uri # segment_uris pl) = no_uri # remdups_adj (segment_uris pl)"
    by (cases "segment_uris pl") auto
  with s that show thesis by auto
qed

text \<open>C10: the segments the viewer takes as new from a playlist are exactly those whose addresses are not
  in its history, each once and in the order of the playlist; what was in the history stays. The count
  of all segments is that of the playlist without immediate repetitions, and the end is noticed exactly
  when it is marked.\<close>

theorem new_segments:
  assumes "scan_records L w pl (scan_start L ts e) h = (Inr c, h')"
  shows "map seg_uri (ts_list c) = map seg_uri ts @ unseen (map seg_uri ts) (segment_uris pl) \<and>
    take (length ts) (ts_list c) = ts \<and> addedTs c = length (unseen (map seg_uri ts) (segment_uris pl)) \<and>
    uniqts c = length (remdups_adj (segment_uris pl)) \<and>
    endList c = (e \<or> ''#EXT-X-ENDLIST'' \<in> Tag ` set pl)"
proof -
  obtain new where "ts_list c = ts @ new" "addedTs c = length new"
    "map seg_uri new = unseen (map seg_uri ts) (segment_uris pl)"
    "uniqts c = length (remdups_adj (segment_uris pl))" "endList c = (e \<or> ''#EXT-X-ENDLIST'' \<in> Tag ` set pl)"
    using scan_playlist [OF assms] by metis
  moreover from this(3) have "length (unseen (map seg_uri ts) (segment_uris pl)) = length new" by (metis length_map)
  ultimately show ?thesis by simp
qed

text \<open>A library over integers, and a playlist with two segments, the first one known.\<close>

definition demo_lib :: "int stdlib" where
  "demo_lib = \<lparr>d_of = (\<lambda>s. fst (strtol 32 10 s)), d_int = (\<lambda>i. i), d_long = (\<lambda>i. i), d_add = (+), d_sub = (-),
     d_mul = (*), d_div = (div), d_less = (<), d_eq = (=), d_show2 = show_int, std_sort = sort_key Bandwidth\<rparr>"

definition demo_segment :: "string \<Rightarrow> uri" where
  "demo_segment p = \<lparr>host = ''h'', port = [], path = p\<rparr>"

definition demo_playlist :: "play_record list" where
  "demo_playlist =
     [\<lparr>Tag = ''#EXTM3U'', Attributes = [], TsUri = no_uri\<rparr>,
      \<lparr>Tag = ''#EXTINF'', Attributes = [''9''], TsUri = demo_segment ''a''\<rparr>,
      \<lparr>Tag = ''#EXTINF'', Attributes = [''8''], TsUri = demo_segment ''b''\<rparr>]"

definition demo_history :: "int ts_uri list" where
  "demo_history = [\<lparr>seg_uri = demo_segment ''a'', Duration = 9\<rparr>]"

lemma demo_durations: "fst (strtol 32 10 ''8'') = 8" "fst (strtol 32 10 ''9'') = 9"
  by code_simp+

lemma demo_scan:
  "\<exists>c. scan_records demo_lib w demo_playlist (scan_start demo_lib demo_history False) h = (Inr c, h)"
  by (simp add: demo_playlist_def scan_record_def Let_def demo_lib_def scan_segment_def demo_history_def scan_start_def
      seg_eq_def demo_segment_def no_uri_def uri_empty_def demo_durations)

lemma demo_uris: "segment_uris demo_playlist = [demo_segment ''a'', demo_segment ''b'']"
    "map seg_uri demo_history = [demo_segment ''a'']" "demo_segment ''a'' \<noteq> demo_segment ''b''"
  by (simp_all add: segment_uris_def demo_playlist_def demo_history_def demo_segment_def)

lemma demo_unseen: "unseen (map seg_uri demo_history) (segment_uris demo_playlist) = [demo_segment ''b'']"
    "length (remdups_adj (segment_uris demo_playlist)) = 2"
  unfolding demo_uris(1,2) using demo_uris(3) by (auto simp: unseen_Cons)

theorem new_segments_witness:
  "\<forall>w h. \<exists>c. scan_records demo_lib w demo_playlist (scan_start demo_lib demo_history False) h = (Inr c, h) \<and>
    map seg_uri (ts_list c) = [demo_segment ''a'', demo_segment ''b'']"
proof (intro allI)
  fix w h
  obtain c where c: "scan_records demo_lib w demo_playlist (scan_start demo_lib demo_history False) h = (Inr c, h)"
    using demo_scan by blast
  from new_segments [OF c] have "map seg_uri (ts_list c) = [demo_segment ''a'', demo_segment ''b'']"
    unfolding demo_unseen unfolding demo_uris(2) by simp
  with c show "\<exists>c. scan_records demo_lib w demo_playlist (scan_start demo_lib demo_history False) h = (Inr c, h) \<and>
    map seg_uri (ts_list c) = [demo_segment ''a'', demo_segment ''b'']" by (intro exI [of _ c] conjI)
qed

section \<open>The iterator\<close>

text \<open>C15: after the history was cut to its bound, going back from its end by the number of new segments
  stays inside the list and leads to the first new segment: exactly the new ones are played, in order,
  and the history is no longer than its bound, which is at least one.\<close>

theorem iterator_in_history:
  assumes "scan_records L w pl (scan_start L ts e) h = (Inr c, h')" and "addedTs c \<noteq> 0"
  shows "let n = history_bound (uniqts c) m; tl = trim_history n (ts_list c)
    in addedTs c \<le> length tl \<and> drop (length tl - addedTs c) tl = drop (length ts) (ts_list c) \<and>
       length tl \<le> n \<and> 0 < n \<and> n \<le> max m (2 * length (remdups_adj (segment_uris pl)))"
proof -
  obtain new where c: "ts_list c = ts @ new" "addedTs c = length new" "addedTs c \<le> uniqts c"
    "uniqts c = length (remdups_adj (segment_uris pl))"
    using scan_playlist [OF assms(1)] by metis
  then show ?thesis using assms(2)
    by (auto simp: history_bound_def trim_history_def Let_def max_def)
qed

theorem iterator_in_history_witness:
  "\<forall>w h. \<exists>c. scan_records demo_lib w demo_playlist (scan_start demo_lib demo_history False) h = (Inr c, h) \<and>
    drop (length (trim_history 4 (ts_list c)) - 1) (trim_history 4 (ts_list c)) = drop 1 (ts_list c)"
proof (intro allI)
  fix w h
  obtain c where c: "scan_records demo_lib w demo_playlist (scan_start demo_lib demo_history False) h = (Inr c, h)"
    using demo_scan by blast
  obtain new where n: "addedTs c = length new" "ts_list c = demo_history @ new"
    "map seg_uri new = unseen (map seg_uri demo_history) (segment_uris demo_playlist)"
    "uniqts c = length (remdups_adj (segment_uris demo_playlist))"
    using scan_playlist [OF c] by metis
  then have "map seg_uri new = [demo_segment ''b'']" "uniqts c = 2" by (simp_all only: demo_unseen)
  with n(1) have a: "addedTs c = 1" "uniqts c = 2" by (auto simp: map_eq_Cons_conv)
  then have "addedTs c \<noteq> 0" by simp
  from iterator_in_history [OF c this, of 0] a c
  show "\<exists>c. scan_records demo_lib w demo_playlist (scan_start demo_lib demo_history False) h = (Inr c, h) \<and>
    drop (length (trim_history 4 (ts_list c)) - 1) (trim_history 4 (ts_list c)) = drop 1 (ts_list c)"
    by (auto simp: Let_def history_bound_def demo_history_def)
qed

section \<open>Choice of a stream\<close>

text \<open>What \<open>std::sort\<close> promises.\<close>

definition sorts :: "'d stdlib \<Rightarrow> bool" where
  "sorts L \<longleftrightarrow> (\<forall>ss. mset (std_sort L ss) = mset ss \<and> sorted (map Bandwidth (std_sort L ss)))"

lemma stream_infos_records:
  "stream_infos lb pl = Inr ss \<Longrightarrow>
    map inf_uri ss = map TsUri (filter (\<lambda>r. Tag r = ''#EXT-X-STREAM-INF'') pl) \<and>
    (\<forall>s \<in> set ss. \<exists>r \<in> set pl. Tag r = ''#EXT-X-STREAM-INF'' \<and> TsUri r = inf_uri s \<and>
      bandwidth lb (Attributes r) 0 = Inr (Bandwidth s) \<and> Bandwidth s \<noteq> 0)"
proof (induction pl arbitrary: ss)
  case (Cons r pl)
  show ?case
  proof (cases "Tag r = ''#EXT-X-STREAM-INF''")
    case False
    with Cons show ?thesis by auto
  next
    case True
    with Cons.prems obtain b ss1 where "bandwidth lb (Attributes r) 0 = Inr b" "b \<noteq> 0" "stream_infos lb pl = Inr ss1"
      "ss = \<lparr>Bandwidth = b, inf_uri = TsUri r\<rparr> # ss1"
      by (auto split: if_splits sum.splits)
    with Cons.IH [OF this(3)] True show ?thesis by auto
  qed
qed simp

text \<open>The elements below and above a position of a sorted list.\<close>

lemma sorted_less_count:
  fixes xs :: "int list"
  assumes "sorted xs" "k < length xs"
  shows "length (filter (\<lambda>x. x < xs ! k) xs) \<le> k \<and> length (filter (\<lambda>x. xs ! k < x) xs) \<le> length xs - Suc k"
proof -
  have s: "xs = take k xs @ xs ! k # drop (Suc k) xs" using assms(2) by (rule id_take_nth_drop)
  have hi: "filter (\<lambda>x. x < xs ! k) (drop (Suc k) xs) = []"
    using assms by (auto simp: filter_empty_conv in_set_conv_nth not_less intro!: sorted_nth_mono)
  have lo: "filter (\<lambda>x. xs ! k < x) (take k xs) = []"
    using assms by (auto simp: filter_empty_conv in_set_conv_nth not_less intro!: sorted_nth_mono)
  have "length (filter (\<lambda>x. x < xs ! k) xs) = length (filter (\<lambda>x. x < xs ! k) (take k xs))"
    by (subst (2) s) (simp add: hi)
  moreover have "length (filter (\<lambda>x. xs ! k < x) xs) = length (filter (\<lambda>x. xs ! k < x) (drop (Suc k) xs))"
    by (subst (2) s) (simp add: lo)
  ultimately show ?thesis
    using length_filter_le [of "\<lambda>x. x < xs ! k" "take k xs"] length_filter_le [of "\<lambda>x. xs ! k < x" "drop (Suc k) xs"]
      assms(2) by simp
qed

text \<open>C40: from a playlist that offers several streams the viewer takes one that is offered, with the
  bandwidth stated for it: the largest for high quality, the smallest for low, and a median for medium
  (not more than half of the streams have less, and less than half have more).\<close>

theorem chosen_stream:
  assumes "sorts L" and "stream_infos lb pl = Inr ss" and "ss \<noteq> []" and "s = selected_stream q (std_sort L ss)"
  shows "(\<exists>r \<in> set pl. Tag r = ''#EXT-X-STREAM-INF'' \<and> TsUri r = inf_uri s \<and>
      bandwidth lb (Attributes r) 0 = Inr (Bandwidth s)) \<and>
    length ss = length (filter (\<lambda>r. Tag r = ''#EXT-X-STREAM-INF'') pl) \<and>
    (case q of
       Video_high \<Rightarrow> filter (\<lambda>t. Bandwidth s < Bandwidth t) ss = []
     | Video_medium \<Rightarrow> 2 * length (filter (\<lambda>t. Bandwidth t < Bandwidth s) ss) \<le> length ss \<and>
         2 * length (filter (\<lambda>t. Bandwidth s < Bandwidth t) ss) < length ss
     | Video_low \<Rightarrow> filter (\<lambda>t. Bandwidth t < Bandwidth s) ss = [])"
proof -
  let ?v = "std_sort L ss"
  have m: "mset ?v = mset ss" and o: "sorted (map Bandwidth ?v)" using assms(1) by (auto simp: sorts_def)
  from mset_eq_length [OF m] have len: "length ?v = length ss" .
  obtain k where k: "k < length ss" "s = ?v ! k"
    "k = (case q of Video_high \<Rightarrow> length ss - 1 | Video_medium \<Rightarrow> length ss div 2 | Video_low \<Rightarrow> 0)"
    using assms(3,4) len by (cases q) (auto simp: selected_stream_def)
  have cnt: "length (filter P ss) = length (filter (\<lambda>b. P' b) (map Bandwidth ?v))"
    if "\<And>t. P t = P' (Bandwidth t)" for P P'
    using m that by (metis (mono_tags, lifting) comp_apply filter_cong filter_map length_map mset_filter size_mset)
  have b: "length (filter (\<lambda>t. Bandwidth t < Bandwidth s) ss) \<le> k"
      "length (filter (\<lambda>t. Bandwidth s < Bandwidth t) ss) \<le> length ss - Suc k"
    using sorted_less_count [OF o, of k] k len
      cnt [of "\<lambda>t. Bandwidth t < Bandwidth s" "\<lambda>x. x < Bandwidth s"]
      cnt [of "\<lambda>t. Bandwidth s < Bandwidth t" "\<lambda>x. Bandwidth s < x"] by simp_all
  have "s \<in> set ss" using k(1,2) len mset_eq_setD [OF m] nth_mem [of k ?v] by simp
  from stream_infos_records [OF assms(2), THEN conjunct2, rule_format, OF this] have 1: "\<exists>r \<in> set pl. Tag r = ''#EXT-X-STREAM-INF'' \<and> TsUri r = inf_uri s \<and>
      bandwidth lb (Attributes r) 0 = Inr (Bandwidth s)" by blast
  have 2: "length ss = length (filter (\<lambda>r. Tag r = ''#EXT-X-STREAM-INF'') pl)"
    using stream_infos_records [OF assms(2), THEN conjunct1, THEN arg_cong, of length] by simp
  have "case q of
       Video_high \<Rightarrow> filter (\<lambda>t. Bandwidth s < Bandwidth t) ss = []
     | Video_medium \<Rightarrow> 2 * length (filter (\<lambda>t. Bandwidth t < Bandwidth s) ss) \<le> length ss \<and>
         2 * length (filter (\<lambda>t. Bandwidth s < Bandwidth t) ss) < length ss
     | Video_low \<Rightarrow> filter (\<lambda>t. Bandwidth t < Bandwidth s) ss = []"
    using b k(1,3) unfolding length_0_conv [symmetric] by (cases q) (simp_all only: video_quality.case, linarith+)
  with 1 2 show ?thesis by simp
qed

text \<open>Three streams.\<close>

definition demo_streams :: "play_record list" where
  "demo_streams =
     [\<lparr>Tag = ''#EXTM3U'', Attributes = [], TsUri = no_uri\<rparr>,
      \<lparr>Tag = ''#EXT-X-STREAM-INF'', Attributes = [''BANDWIDTH=700''], TsUri = demo_segment ''m''\<rparr>,
      \<lparr>Tag = ''#EXT-X-STREAM-INF'', Attributes = [''PROGRAM-ID=1'', ''BANDWIDTH=900''], TsUri = demo_segment ''l''\<rparr>,
      \<lparr>Tag = ''#EXT-X-STREAM-INF'', Attributes = [''BANDWIDTH=300''], TsUri = demo_segment ''s''\<rparr>]"

lemma demo_infos:
  "stream_infos 32 demo_streams =
     Inr [\<lparr>Bandwidth = 700, inf_uri = demo_segment ''m''\<rparr>, \<lparr>Bandwidth = 900, inf_uri = demo_segment ''l''\<rparr>,
       \<lparr>Bandwidth = 300, inf_uri = demo_segment ''s''\<rparr>]"
  by code_simp

theorem chosen_stream_witness:
  "inf_uri (selected_stream Video_medium (std_sort demo_lib
     [\<lparr>Bandwidth = 700, inf_uri = demo_segment ''m''\<rparr>, \<lparr>Bandwidth = 900, inf_uri = demo_segment ''l''\<rparr>,
       \<lparr>Bandwidth = 300, inf_uri = demo_segment ''s''\<rparr>])) = demo_segment ''m'' \<and>
   length (filter (\<lambda>r. Tag r = ''#EXT-X-STREAM-INF'') demo_streams) = 3"
proof -
  have "sorts demo_lib" by (simp add: sorts_def demo_lib_def)
  from chosen_stream [OF this demo_infos _ refl, of Video_medium]
  have "length (filter (\<lambda>r. Tag r = ''#EXT-X-STREAM-INF'') demo_streams) = 3" by simp
  then show ?thesis by (simp add: demo_lib_def selected_stream_def)
qed

end
