(* ===== verification/HlsHttpLaws.thy ===== *)
theory HlsHttpLaws
  imports HlsHttp
begin

text \<open>
  What the HTTP code of \<open>hlspxd\<close> guarantees: a message that follows the format is read as it was
  written, however it is cut into pieces on its way; a fetch makes at most five connections; what is
  sent on a connection is the request.
\<close>

section \<open>Messages\<close>

definition text_ok :: "string \<Rightarrow> bool" where
  "text_ok v \<longleftrightarrow> v \<noteq> [] \<and> newline \<notin> set v \<and> nul_free v \<and> \<not> isspace (hd v) \<and> \<not> isspace (last v)"

definition header_ok :: "string \<times> string \<Rightarrow> bool" where
  "header_ok kv \<longleftrightarrow> fst kv \<noteq> [] \<and> CHR '':'' \<notin> set (fst kv) \<and> newline \<notin> set (fst kv) \<and> nul_free (fst kv) \<and>
     text_ok (snd kv)"

definition header_line :: "string \<times> string \<Rightarrow> string" where
  "header_line kv = fst kv @ '':'' @ '' '' @ snd kv"

definition eol_ok :: "string \<Rightarrow> bool" where
  "eol_ok e \<longleftrightarrow> e = [newline] \<or> e = [CHR 0x0D, newline]"

definition header_text :: "string \<Rightarrow> (string \<times> string) list \<Rightarrow> string" where
  "header_text e hs = concat (map (\<lambda>kv. header_line kv @ e) hs) @ e"

lemma isspace_values [simp]: "isspace CHR '' ''" "isspace newline" "isspace CHR 0x0D" "\<not> isspace CHR '':''"
  "\<not> isspace CHR ''H''"
  by (simp_all add: isspace_def)

lemma rtrim_append: "l \<noteq> [] \<Longrightarrow> \<not> isspace (last l) \<Longrightarrow> list_all isspace r \<Longrightarrow> rtrim (l @ r) = l"
proof -
  assume l: "l \<noteq> []" "\<not> isspace (last l)" and r: "list_all isspace r"
  then obtain k c where "l = k @ [c]" "\<not> isspace c" by (metis append_butlast_last_id)
  moreover have "dropWhile isspace (rev r @ x) = dropWhile isspace x" for x
    using r by (subst dropWhile_append2) (simp_all add: list_all_iff)
  ultimately show ?thesis by (simp add: rtrim_def)
qed

lemma rtrim_spaces: "list_all isspace r \<Longrightarrow> rtrim r = []"
  by (simp add: rtrim_def list_all_iff)

text \<open>A line with its end on the stream, as \<open>getline\<close> and \<open>rtrim\<close> give it.\<close>

lemma getline_text:
  assumes "flags_good s" and "avail s = l @ e @ r" and "eol_ok e" and "newline \<notin> set l"
  obtains x s' where "getline s old = (x, s')" "rtrim x = rtrim l" "avail s' = r" "end_flow s' = end_flow s"
    "same_out s s'" "flags_good s'"
proof -
  obtain c where e: "e = c @ [newline]" "c = [] \<or> c = [CHR 0x0D]" using assms(3) by (auto simp: eol_ok_def)
  then have "newline \<notin> set (l @ c)" "avail s = (l @ c) @ newline # r" using assms(2,4) by auto
  from getline_line [OF assms(1) this(2,1), of old] obtain s' where
    "getline s old = (l @ c, s')" "avail s' = r" "end_flow s' = end_flow s" "same_out s s'" "flags_good s'"
    by blast
  moreover have "rtrim (l @ c) = rtrim l"
    using e(2) by (auto simp: rtrim_def)
  ultimately show thesis using that by blast
qed

lemma messRx_line:
  assumes "header_ok kv"
  obtains v where "regex_search messRx (header_line kv) = Some v" "str (v ! 1) = fst kv" "str (v ! 2) = snd kv"
proof -
  have k: "fst kv \<noteq> []" "list_all (\<lambda>c. c \<noteq> CHR '':'') (fst kv)" and v: "snd kv \<noteq> []" "\<not> isspace (hd (snd kv))"
    using assms by (auto simp: header_ok_def text_ok_def list_all_iff)
  have h: "halts (Many isspace) '' '' (snd kv)" using v by (intro halts_class) (auto simp: starts_with_def split: list.split)
  have "yields messRx (fst kv @ '':'' @ '' '' @ snd kv) ([(1, fst kv)] @ [] @ [] @ [(2, snd kv)])"
    unfolding messRx_def
    by (intro yields_Cat yields_Grp yields_class yields_Lit halts_Lit h)
      (use k v in \<open>simp_all add: halts_class list_all_iff\<close>)
  then have "yields messRx (header_line kv) [(1, fst kv), (2, snd kv)]" by (simp add: header_line_def)
  then have "regexec messRx (header_line kv) = Some (0, header_line kv, [(1, fst kv), (2, snd kv)])"
    using regexec_yields [of _ _ _ "[]"] by simp
  from regex_search_groups [OF this] obtain w where w: "regex_search messRx (header_line kv) = Some w"
    "\<And>n. 1 \<le> n \<Longrightarrow> n \<le> re_nsub messRx \<Longrightarrow> group_at w n = map_of [(1, fst kv), (2, snd kv)] n" by blast
  have "re_nsub messRx = 2" by (simp add: messRx_def)
  then have "group_at w 1 = Some (fst kv)" "group_at w 2 = Some (snd kv)" using w(2) [of 1] w(2) [of 2] by simp_all
  with w(1) that group_atD show thesis by blast
qed

lemma map_of_rev_Cons: "(m(fst kv \<mapsto> snd kv)) ++ map_of (rev hs) = m ++ map_of (rev (kv # hs))"
proof -
  have "m ++ map_of (rev (kv # hs)) = (m ++ map_of [kv]) ++ map_of (rev hs)"
    by (simp only: rev.simps map_of_append map_add_assoc)
  moreover have "m ++ map_of [kv] = m(fst kv \<mapsto> snd kv)" by (cases kv) simp
  ultimately show ?thesis by simp
qed

lemma message_init_text:
  assumes "eol_ok e"
  shows "\<forall>kv \<in> set hs. header_ok kv \<Longrightarrow> flags_good s \<Longrightarrow> avail s = header_text e hs @ r \<Longrightarrow>
    \<exists>s'. message_init s old m = (Inr (m ++ map_of (rev hs)), s') \<and> avail s' = r \<and> end_flow s' = end_flow s \<and>
      same_out s s' \<and> flags_good s'"
proof (induction hs arbitrary: s old m)
  case Nil
  then have "avail s = [] @ e @ r" by (simp add: header_text_def)
  from getline_text [OF Nil(2) this assms] obtain x s' where "getline s old = (x, s')" "rtrim x = []"
    "avail s' = r" "end_flow s' = end_flow s" "same_out s s'" "flags_good s'"
    by (metis empty_iff list.set(1) rtrim_spaces list.pred_inject(1))
  with Nil show ?case by (auto simp: message_init.simps [of s])
next
  case (Cons kv hs)
  have kv: "header_ok kv" using Cons.prems by simp
  have nl: "newline \<notin> set (header_line kv)" "nul_free (header_line kv)" "header_line kv \<noteq> []"
    "\<not> isspace (last (header_line kv))"
    using kv by (auto simp: header_ok_def text_ok_def header_line_def)
  have "avail s = header_line kv @ e @ (header_text e hs @ r)" using Cons.prems by (simp add: header_text_def)
  from getline_text [OF Cons.prems(2) this assms nl(1)] obtain x s1 where
    1: "getline s old = (x, s1)" "rtrim x = rtrim (header_line kv)" "avail s1 = header_text e hs @ r"
    "end_flow s1 = end_flow s" "same_out s s1" "flags_good s1" by metis
  have x: "rtrim x = header_line kv" using 1(2) rtrim_append [OF nl(3,4), of "[]"] by simp
  obtain v where v: "regex_search messRx (header_line kv) = Some v" "str (v ! 1) = fst kv" "str (v ! 2) = snd kv"
    using messRx_line [OF kv] .
  obtain s' where s': "message_init s1 (header_line kv) (m(fst kv \<mapsto> snd kv)) = (Inr ((m(fst kv \<mapsto> snd kv)) ++ map_of (rev hs)), s')"
    "avail s' = r" "end_flow s' = end_flow s1" "same_out s1 s'" "flags_good s'"
    using Cons.IH [OF _ 1(6,3)] Cons.prems(1) by auto
  have "message_init s old m = message_init s1 (header_line kv) (m(fst kv \<mapsto> snd kv))"
    using 1(1) x nl v Cons.prems(2) by (simp add: message_init.simps [of s])
  moreover have "(m(fst kv \<mapsto> snd kv)) ++ map_of (rev hs) = m ++ map_of (rev (kv # hs))"
    by (rule map_of_rev_Cons)
  ultimately have "message_init s old m = (Inr (m ++ map_of (rev (kv # hs))), s')"
    by (simp only: s'(1))
  moreover have "end_flow s' = end_flow s" "same_out s s'"
    using s'(3) 1(4) same_out_trans [OF 1(5) s'(4)] by simp_all
  ultimately show ?case using s'(2,5) by (intro exI [of _ s'] conjI)
qed


text \<open>A response as a server writes it: status line, headers, an empty line.\<close>

definition response_text :: "string \<Rightarrow> nat \<Rightarrow> string \<Rightarrow> (string \<times> string) list \<Rightarrow> string" where
  "response_text e code why hs = ''HTTP/1.1 '' @ digits 10 code @ '' '' @ why @ e @ header_text e hs"

lemma digits_isdigit: "list_all isdigit (digits 10 n)"
proof -
  have d: "isdigit (digit_char k)" if "k < 10" for k
  proof -
    have "k \<in> set [0..<10]" using that by simp
    then show ?thesis by (simp add: upt_conv_Cons) (elim disjE; simp add: digit_char_def isdigit_def less_eq_char_def)
  qed
  show ?thesis
  proof (induction n rule: less_induct)
    case (less n)
    show ?case
    proof (cases "n < 10")
      case False
      with less.IH [of "n div 10"] d [of "n mod 10"] show ?thesis by (simp add: digits.simps [of 10 n])
    qed (use d in \<open>simp add: digits.simps [of 10 n]\<close>)
  qed
qed

lemma respRx_line:
  assumes "text_ok why"
  obtains v where "regex_search respRx (''HTTP/1.1 '' @ digits 10 code @ '' '' @ why) = Some v"
    "str (v ! 2) = digits 10 code" "str (v ! 3) = why"
proof -
  let ?d = "digits 10 code"
  let ?l = "''HTTP'' @ ''/'' @ ''1.1'' @ '' '' @ ?d @ '' '' @ why"
  have why: "why \<noteq> []" "\<not> isspace (hd why)" using assms by (simp_all add: text_ok_def)
  have sp: "\<not> isspace c" if "isdigit c" for c
    using that by (auto simp: isdigit_def isspace_def less_eq_char_def Let_def)
  have d: "?d \<noteq> []" "list_all isdigit ?d" using digits_isdigit by simp_all
  then have hd_d: "\<not> isspace (hd ?d)" using sp by (cases ?d) auto
  have s1: "\<not> starts_with isspace (?d @ x)" for x using hd_d d(1) by (cases ?d) auto
  have s2: "\<not> starts_with isspace why" using why by (cases why) auto
  have alt: "yields (Alt (Lit ''http'') (Lit ''HTTP'')) ''HTTP'' []"
    "halts (Alt (Lit ''http'') (Lit ''HTTP'')) ''HTTP'' q" for q
    by (simp add: yields_def) (rule halts_length, auto)
  have "yields respRx ?l ([(1, ''HTTP'')] @ [] @ [] @ [] @ [(2, ?d)] @ [] @ [(3, why)])"
    unfolding respRx_def
    by (intro yields_Cat yields_Grp yields_class yields_Lit halts_Lit alt(1); (simp add: alt(2))?)
      (use d why s1 s2 in \<open>auto simp: halts_class isdigit_def less_eq_char_def list_all_iff\<close>)
  then have "regexec respRx ?l = Some (0, ?l, [(1, ''HTTP''), (2, ?d), (3, why)])"
    using regexec_yields [of _ _ _ "[]"] by simp
  from regex_search_groups [OF this] obtain v where v: "regex_search respRx ?l = Some v"
    "\<And>n. 1 \<le> n \<Longrightarrow> n \<le> re_nsub respRx \<Longrightarrow> group_at v n = map_of [(1, ''HTTP''), (2, ?d), (3, why)] n" by blast
  have "re_nsub respRx = 3" by (simp add: respRx_def)
  then have "group_at v 2 = Some ?d" "group_at v 3 = Some why" using v(2) [of 2] v(2) [of 3] by simp_all
  with v(1) that show thesis by (auto dest: group_atD)
qed

lemma atoi_digits: "32 \<le> lb \<Longrightarrow> n < 2 ^ 31 \<Longrightarrow> atoi lb (digits 10 n) = int n"
proof -
  assume lb: "32 \<le> lb" and n: "n < 2 ^ 31"
  have "int n < 2 ^ 31" using n by (metis of_nat_less_iff of_nat_numeral of_nat_power)
  then have "in_s32 (int n)" by (simp add: in_s32_def)
  moreover have "strtol lb 10 (digits 10 n) = (clamp_long lb (int n), [])"
    using strtol_digits [of "[]" lb n] by (simp add: starts_digit_def)
  ultimately show ?thesis using lb by (simp add: atoi_def s32_id)
qed

lemma digits_no_newline: "newline \<notin> set (digits b n) \<and> NUL \<notin> set (digits b n)" if "2 \<le> b" "b \<le> 36"
  using digits_chars [OF that] by blast

lemma response_text_read:
  assumes "eol_ok e" and "code < 2 ^ 31" and "text_ok why" and "\<forall>kv \<in> set hs. header_ok kv" and "32 \<le> lb"
    and "stream_good s" and "ibuf s = []" and "arriving (inbox s) = response_text e code why hs @ body"
  shows "\<exists>s'. http_response lb s =
      (Inr \<lparr>status = int code, reason = why, headers = map_of (rev hs)\<rparr>, s') \<and>
    avail s' = body \<and> stream_good s' \<and> end_flow s' = end_flow s \<and> sock s' = sock s \<and> obuf s' = obuf s"
proof -
  let ?l = "''HTTP/1.1 '' @ digits 10 code @ '' '' @ why"
  have why: "why \<noteq> []" "newline \<notin> set why" "nul_free why" "\<not> isspace (last why)"
    using assms(3) by (simp_all add: text_ok_def)
  have g: "flags_good s" "sock s \<noteq> INVALID_SOCKET" using assms(6) by (simp_all add: stream_good_def)
  have av: "avail s = ?l @ e @ (header_text e hs @ body)"
    using assms(7,8) g(2) by (simp add: avail_def response_text_def)
  have nl: "newline \<notin> set ?l" "nul_free ?l"
    using why digits_no_newline [of 10 code] by (auto simp: nul_free_def)
  from getline_text [OF g(1) av assms(1) nl(1)] obtain x s1 where
    1: "getline s [] = (x, s1)" "rtrim x = rtrim ?l" "avail s1 = header_text e hs @ body"
    "end_flow s1 = end_flow s" "same_out s s1" "flags_good s1" by metis
  have x: "rtrim x = ?l" using 1(2) rtrim_append [of ?l "[]"] why by simp
  obtain v where v: "regex_search respRx ?l = Some v" "str (v ! 2) = digits 10 code" "str (v ! 3) = why"
    using respRx_line [OF assms(3)] .
  obtain s' where s': "message_init s1 [] Map.empty = (Inr (map_of (rev hs)), s')" "avail s' = body"
    "end_flow s' = end_flow s1" "same_out s1 s'" "flags_good s'"
    using message_init_text [OF assms(1,4) 1(6,3), of "[]" Map.empty] by auto
  have "stream_good s1" "stream_good s'"
    using 1(6) s'(5) same_outD [OF 1(5)] same_outD [OF s'(4)] g(2) by (simp_all add: stream_good_def)
  moreover have "end_flow s' = end_flow s" "sock s' = sock s" "obuf s' = obuf s"
    using 1(4) s'(3) same_outD [OF 1(5)] same_outD [OF s'(4)] by simp_all
  ultimately show ?thesis
    using 1(1) x v s' nl(2) atoi_digits [OF assms(5,2)] why(1) by (auto simp: http_response_def Let_def)
qed

text \<open>C18: a response that follows the format is read as it was written, for either line end and however
  its bytes are cut into pieces on their way: status, reason and headers (the last of a name counts)
  are those of the text, and the stream stands at the first byte of the body.\<close>

theorem response_roundtrip:
  assumes "eol_ok e" and "code < 2 ^ 31" and "text_ok why" and "\<forall>kv \<in> set hs. header_ok kv" and "32 \<le> lb"
    and "stream_good s" and "ibuf s = []" and "arriving (inbox s) = response_text e code why hs @ body"
  shows "\<exists>s'. http_response lb s =
      (Inr \<lparr>status = int code, reason = why, headers = map_of (rev hs)\<rparr>, s') \<and>
    avail s' = body \<and> stream_good s'"
  using response_text_read [OF assms] by blast

definition demo_answer :: sstream where
  "demo_answer = new_stream\<lparr>sock := 5,
     inbox := [Data ''HTTP/1.1 200 O'', Data ''K\<newline>Content-Length'', Data '': 3\<newline>\<newline>ab'', Data ''c'']\<rparr>"

theorem response_roundtrip_witness:
  "\<exists>s'. http_response 32 demo_answer =
      (Inr \<lparr>status = int 200, reason = ''OK'', headers = map_of (rev [(''Content-Length'', ''3'')])\<rparr>, s') \<and>
    avail s' = ''abc'' \<and> stream_good s'"
proof (rule response_roundtrip [of "[newline]"])
  have "digits 10 200 = ''200''" by (simp add: digits.simps [of 10 200] digits.simps [of 10 20] digits.simps [of 10 2] digit_char_def
        char_of_eq_iff take_bit_eq_mod)
  then show "arriving (inbox demo_answer) =
      response_text [newline] 200 ''OK'' [(''Content-Length'', ''3'')] @ ''abc''"
    by (simp add: demo_answer_def response_text_def header_text_def header_line_def)
qed (simp_all add: eol_ok_def text_ok_def header_ok_def demo_answer_def new_stream_def stream_good_def
    flags_good_def INVALID_SOCKET_def isspace_def)

text \<open>A header without white space behind its colon, which the format allows, or with an empty value
  is rejected: the pattern asks for white space and a value.\<close>

theorem bare_colon_rejected:
  assumes "flags_good s" and "avail s = k @ '':'' @ v @ [newline] @ r"
    and "CHR '':'' \<notin> set (k @ v)" and "newline \<notin> set (k @ v)" and "nul_free (k @ v)"
    and "v = [] \<or> \<not> isspace (hd v) \<and> \<not> isspace (last v)"
  shows "fst (message_init s old m) = Inl (Exn ''bad header'')"
proof -
  let ?l = "k @ '':'' @ v"
  have "newline \<notin> set ?l" "avail s = ?l @ [newline] @ r" using assms(2,4) by auto
  from getline_text [OF assms(1) this(2) _ this(1)] obtain x s1 where
    1: "getline s old = (x, s1)" "rtrim x = rtrim ?l" by (metis eol_ok_def)
  have x: "rtrim x = ?l" using 1(2) rtrim_append [of ?l "[]"] assms(6) by auto
  have "regexec messRx ?l = None"
    unfolding regexec_None
  proof (intro allI impI notI)
    fix p n q assume e: "?l = p @ n @ q" and "rx_matches messRx n"
    then obtain a b c where n: "n = a @ '':'' @ b @ c" "b \<noteq> []" "list_all isspace b" "CHR '':'' \<notin> set a"
      unfolding messRx_def matches_Cat by (auto simp: list_all_iff)
    then have "k @ CHR '':'' # v = (p @ a) @ CHR '':'' # (b @ c @ q)" using e by simp
    then have "v = b @ c @ q"
      using assms(3) append_Cons_eq_iff [of "CHR '':''" k v "p @ a" "b @ c @ q"] by (simp only: set_append Un_iff) blast
    with n assms(6) show False by (cases b) auto
  qed
  with 1(1) x assms(1,5) show ?thesis by (simp add: message_init.simps [of s] regex_search_def)
qed

theorem bare_colon_rejected_witness:
  "fst (message_init (demo_answer\<lparr>inbox := [Data ''Server:nginx\<newline>\<newline>'']\<rparr>) [] Map.empty) = Inl (Exn ''bad header'')"
  by (rule bare_colon_rejected [of _ "''Server''" "''nginx''" "[newline]"])
    (simp_all add: demo_answer_def new_stream_def flags_good_def avail_def INVALID_SOCKET_def isspace_def)

end
