(* ===== verification/HlsFetch.thy ===== *)
theory HlsFetch
  imports HlsHttpLaws
begin

text \<open>
  Fetching a resource: how many connections a fetch makes, where it leads, and what is sent.
\<close>

section \<open>Connections\<close>

definition connects :: "hls_state \<Rightarrow> nat" where
  "connects h = length (filter (\<lambda>e. case e of Connected _ _ _ \<Rightarrow> True | _ \<Rightarrow> False) (hls_events h))"

lemma connects_happen [simp]:
  "connects (happen e h) = connects h + (case e of Connected _ _ _ \<Rightarrow> 1 | _ \<Rightarrow> 0)" "connects (tick h) = connects h"
  by (simp_all add: connects_def split: hls_event.split)

lemma connects_log [simp]: "connects (WriteLog w m h) = connects h" "connects (WriteLogError w n h) = connects h"
  by (simp_all add: WriteLog_def WriteLogError_def WriteBuf_def Let_def)

text \<open>The connections made, in order: socket, host and port.\<close>

fun connection :: "hls_event \<Rightarrow> (int \<times> string \<times> string) list" where
  "connection (Connected fd x p) = [(fd, x, p)]"
| "connection _ = []"

definition connections :: "hls_state \<Rightarrow> (int \<times> string \<times> string) list" where
  "connections h = concat (map connection (hls_events h))"

lemma connections_simps [simp]:
  "connections (happen e h) = connections h @ connection e" "connections (tick h) = connections h"
  by (simp_all add: connections_def)

lemma connections_log [simp]:
  "connections (WriteLog w m h) = connections h" "connections (WriteLogError w n h) = connections h"
  by (simp_all add: WriteLog_def WriteLogError_def WriteBuf_def Let_def)

text \<open>What happens without a new connection.\<close>

definition is_connected :: "hls_event \<Rightarrow> bool" where
  "is_connected e \<longleftrightarrow> (case e of Connected _ _ _ \<Rightarrow> True | _ \<Rightarrow> False)"

definition quiet :: "hls_state \<Rightarrow> hls_state \<Rightarrow> bool" where
  "quiet h h' \<longleftrightarrow> (\<exists>es. hls_events h' = hls_events h @ es \<and> (\<forall>e \<in> set es. \<not> is_connected e))"

lemma quietI:
  "quiet h h" "quiet h h' \<Longrightarrow> quiet h (tick h')" "quiet h h' \<Longrightarrow> \<not> is_connected e \<Longrightarrow> quiet h (happen e h')"
  by (auto simp: quiet_def)

lemma is_connected_simps [simp]:
  "\<not> is_connected (LogLine f m)" "\<not> is_connected (Sent fd d)" "\<not> is_connected (CloseFd fd)"
  "\<not> is_connected (Usleep t)"
  by (simp_all add: is_connected_def)

lemma quiet_trans: "quiet h h' \<Longrightarrow> quiet h' h'' \<Longrightarrow> quiet h h''"
  by (fastforce simp: quiet_def)

lemma quiet_stateD: "quiet h h' \<Longrightarrow> connects h' = connects h \<and> set (hls_events h) \<subseteq> set (hls_events h')"
  by (auto simp: quiet_def connects_def is_connected_def filter_empty_conv)

lemma connection_quiet: "\<not> is_connected e \<Longrightarrow> connection e = []"
  by (cases e) (simp_all add: is_connected_def)

lemma quiet_connections: "quiet h h' \<Longrightarrow> connections h' = connections h"
  by (auto simp: quiet_def connections_def connection_quiet)

lemma quiet_log [simp]: "quiet h (WriteLog w m h)" "quiet h (WriteLogError w n h)"
  by (simp_all add: WriteLog_def WriteLogError_def WriteBuf_def Let_def quietI)

lemma output_buffer_quiet: "output_buffer w s h = (f, s', h') \<Longrightarrow> quiet h h'"
  by (auto simp: output_buffer_def Let_def quietI split: if_splits)

lemma sputn_quiet: "sputn w cs s h = (f, s', h') \<Longrightarrow> quiet h h'"
proof (induction cs arbitrary: s h)
  case (Cons c cs)
  obtain f1 s1 h1 where 1: "sputc w c s h = (f1, s1, h1)" by (metis prod.exhaust)
  then have "quiet h h1"
    by (auto simp: sputc_def overflow_def quietI split: if_splits dest: output_buffer_quiet)
  with 1 Cons.prems Cons.IH [of s1 h1] show ?case by (cases f1) (auto intro: quiet_trans)
qed (simp add: quietI)

lemma stream_write_quiet: "stream_write w cs s h = (s', h') \<Longrightarrow> quiet h h'"
  by (auto simp: stream_write_def quietI split: if_splits prod.splits flow.splits dest: sputn_quiet)

lemma write_all_quiet: "write_all w xs s h = (s', h') \<Longrightarrow> quiet h h'"
proof (induction xs arbitrary: s h)
  case (Cons x xs)
  obtain s1 h1 where "stream_write w x s h = (s1, h1)" by fastforce
  with Cons show ?case by (auto dest!: stream_write_quiet intro: quiet_trans)
qed (simp add: quietI)

lemma stream_flush_quiet: "stream_flush w s h = (s', h') \<Longrightarrow> quiet h h'"
  by (auto simp: stream_flush_def quietI split: if_splits prod.splits flow.splits dest: output_buffer_quiet)

lemma stream_close_quiet: "stream_close s h = (s', h') \<Longrightarrow> quiet h h'"
  by (auto simp: stream_close_def buf_close_def Let_def quietI split: if_splits)

lemma try_addresses_connects: "try_addresses addrs fd h = (fd', ok, h') \<Longrightarrow> connects h' = connects h"
  by (induction addrs fd h rule: try_addresses.induct) (auto split: if_splits)

lemma try_addresses_connections: "try_addresses addrs fd h = (fd', ok, h') \<Longrightarrow> connections h' = connections h"
  by (induction addrs fd h rule: try_addresses.induct) (auto split: if_splits)

lemma stream_connect_connections:
  "stream_connect w u s h = (Inr x, s', h') \<Longrightarrow>
    connections h' = connections h @ [(sock s', getHost u, getPort u)]"
  by (auto simp: stream_connect_def buf_open_def buf_close_def stream_close_def Let_def split: prod.splits if_splits
      dest!: try_addresses_connections)

lemma stream_connect_connects:
  assumes "stream_connect w u s h = (r, s', h')"
  shows "connects h' = connects h + (case r of Inl _ \<Rightarrow> 0 | Inr _ \<Rightarrow> 1)"
  using assms
  by (auto simp: stream_connect_def buf_open_def buf_close_def stream_close_def Let_def split: prod.splits if_splits
      dest!: try_addresses_connects)

lemma http_exchange_connects:
  assumes "http_exchange w u s h = (r, s', h')"
  shows "connects h' \<le> connects h + 1 \<and> (\<forall>x. r = Inr x \<longrightarrow> connects h' = connects h + 1)"
proof -
  obtain r1 s1 h1 where 1: "stream_connect w u s h = (r1, s1, h1)" by (metis prod.exhaust)
  show ?thesis
  proof (cases r1)
    case (Inl e)
    with assms 1 stream_connect_connects [OF 1] show ?thesis by (auto simp: http_exchange_def)
  next
    case (Inr x)
    obtain s2 h2 s3 h3 where 2: "write_all w (request_parts u) s1 h1 = (s2, h2)" "stream_flush w s2 h2 = (s3, h3)"
      by fastforce
    with assms 1 Inr have "h' = h3" by (auto simp: http_exchange_def split: prod.splits)
    with stream_connect_connects [OF 1] quiet_stateD [OF write_all_quiet [OF 2(1)]] quiet_stateD [OF stream_flush_quiet [OF 2(2)]] Inr
    show ?thesis by simp
  qed
qed

lemma attempts_connects:
  "attempts n w resp u c h = (r, u', c', h') \<Longrightarrow>
    connects h' \<le> connects h + n \<and> (u' = u \<or> \<not> isRelative u') \<and>
    (\<forall>x. r = Inr x \<longrightarrow> (is_redirect x \<or> n = 0 \<longrightarrow> connects h' = connects h + n) \<and> (0 < n \<longrightarrow> connects h < connects h'))"
proof (induction n arbitrary: resp u c h)
  case (Suc n)
  obtain r1 s1 h1 where 1: "http_exchange w u (client_stream c) h = (r1, s1, h1)" by (metis prod.exhaust)
  note c1 = http_exchange_connects [OF 1]
  let ?c = "\<lparr>clientUri = u, client_stream = s1\<rparr>"
  consider (stop) "r = r1" "u' = u" "h' = h1" "\<forall>x. r1 = Inr x \<longrightarrow> \<not> is_redirect x"
    | (bad) x e where "r1 = Inr x" "r = Inl e" "u' = u" "h' = h1"
    | (redirect) x v msg where "r1 = Inr x" "redirect_target x = Inr (v, msg)"
      "attempts n w x v (?c\<lparr>clientUri := v\<rparr>) (WriteLog w msg h1) = (r, u', c', h')"
    using Suc.prems 1 by (auto simp: Let_def split: sum.splits if_splits)
  then show ?case
  proof cases
    case stop
    with c1 show ?thesis by auto
  next
    case bad
    with c1 show ?thesis by auto
  next
    case redirect
    have "\<not> isRelative v" using redirect(2)
      by (auto simp: redirect_target_def split: option.splits sum.splits if_splits)
    with Suc.IH [OF redirect(3)] c1 redirect(1) show ?thesis by auto
  qed
qed simp

text \<open>C12: a fetch always ends: it makes at most five connections, whatever the servers answer; a
  redirection that is not followed any more, but handed to the caller as the answer, has five
  connections behind it; and a redirection leads to an absolute address only.\<close>

theorem fetch_ends:
  "case getResponce w u c h of (r, u', c', h') \<Rightarrow>
     connects h' \<le> connects h + 5 \<and> (if isRelative u' then u' = u else True) \<and>
     (case r of Inl e \<Rightarrow> True
      | Inr resp \<Rightarrow> if is_redirect resp then connects h' = connects h + 5 else connects h < connects h')"
proof -
  obtain r u' c' h' where g: "getResponce w u c h = (r, u', c', h')" by (metis prod.exhaust)
  then have "attempts 5 w empty_response u c h = (r, u', c', h')" by (simp add: getResponce_def)
  from attempts_connects [OF this] g show ?thesis by (auto split: sum.split)
qed

section \<open>What is sent\<close>

text \<open>The request for an address, with the line end \<open>e\<close>.\<close>

definition request_lines :: "string \<Rightarrow> uri \<Rightarrow> string" where
  "request_lines e u =
     ''GET /'' @ getPath u @ '' HTTP/1.1'' @ e @ ''Host: '' @ getHost u @ e @
     ''User-agent: hlspxd'' @ e @ ''Accept: */*'' @ e @ ''Connection: close'' @ e @ e"

text \<open>The source ends its lines with a newline alone.\<close>

abbreviation request_text :: "uri \<Rightarrow> string" where
  "request_text u \<equiv> request_lines [newline] u"

definition CRLF :: string where
  "CRLF = [CHR 0x0D, newline]"

lemma write_all_fifo:
  "fifo fd W s h \<Longrightarrow> write_all w xs s h = (s', h') \<Longrightarrow> fifo fd (W @ concat xs) s' h'"
proof (induction xs arbitrary: W s h)
  case (Cons x xs)
  obtain s1 h1 where 1: "stream_write w x s h = (s1, h1)" by fastforce
  with Cons.prems have "write_all w xs s1 h1 = (s', h')" by simp
  from Cons.IH [OF write_op.keeps_fifo [OF Cons.prems(1) 1] this] show ?case by simp
qed simp

lemma try_addresses_sent: "try_addresses addrs fd h = (fd', ok, h') \<Longrightarrow> sent_on x h' = sent_on x h"
  by (induction addrs fd h rule: try_addresses.induct) (auto split: if_splits)

lemma try_addresses_sock: "try_addresses addrs fd h = (fd', True, h') \<Longrightarrow> 0 \<le> fd'"
  by (induction addrs fd h rule: try_addresses.induct) (auto split: if_splits)

text \<open>A connected stream is fresh.\<close>

lemma stream_connect_fresh:
  assumes "stream_connect w u s h = (Inr x, s1, h1)"
  shows "fifo (sock s1) (sent_on (sock s1) h) s1 h1 \<and> flags_good s1 \<and>
    hls_events h1 \<noteq> [] \<and> last (hls_events h1) = Connected (sock s1) (getHost u) (getPort u)"
proof -
  obtain s2 h2 where c: "stream_close s h = (s2, h2)" by fastforce
  obtain s3 h3 where c': "buf_close s2 h2 = (s3, h3)" by fastforce
  obtain rc addrs where g: "getaddrinfo w (hls_calls h3) (getHost u) (getPort u) = (rc, addrs)" by fastforce
  obtain fd ok h4 where t: "try_addresses addrs (sock s3) (tick h3) = (fd, ok, h4)" by (metis prod.exhaust)
  have ok: "ok" and s1: "s1 = s3\<lparr>sock := fd, obuf := [], ibuf := [], inbox := answers w (hls_calls h3) u\<rparr>"
    "h1 = happen (Connected fd (getHost u) (getPort u)) h4"
    using assms c c' g t by (auto simp: stream_connect_def buf_open_def Let_def split: if_splits)
  have "0 \<le> fd" using try_addresses_sock [of addrs "sock s3" "tick h3" fd h4] t ok by simp
  moreover have "sent_on fd h3 = sent_on fd h" "flags_good s3"
    using c c' by (auto simp: stream_close_def buf_close_def flags_good_def split: if_splits)
  moreover have "sent_on fd h4 = sent_on fd (tick h3)" using try_addresses_sent [OF t] .
  ultimately show ?thesis
    by (auto simp: s1 fifo_def INVALID_SOCKET_def BUF_SIZE_def flags_good_def)
qed

lemma getline_frame: "getline s old = (x, s') \<Longrightarrow> sock s' = sock s \<and> (flags_good s' \<longrightarrow> flags_good s)"
proof (cases "flags_good s")
  case True
  assume g: "getline s old = (x, s')"
  obtain y f t where t: "get_until_newline s = (y, f, t)" by (metis prod.exhaust)
  have "same_out s t"
    using get_until_newline_end [of s] get_until_newline_line t by (metis prod.inject split_list_first)
  with g t True show ?thesis by (auto simp: getline_def split: flow.splits dest: same_outD)
qed (auto simp: getline_def flags_good_def)

lemma message_init_frame: "message_init s old m = (r, s') \<Longrightarrow> sock s' = sock s"
proof (induction s old m rule: message_init.induct)
  case (1 s old m)
  obtain x s1 where g: "getline s old = (x, s1)" by fastforce
  show ?case
    using 1 g getline_frame [OF g]
    by (auto simp: message_init.simps [of s] Let_def fun_upd_def split: if_splits option.splits)
qed

lemma http_response_frame:
  assumes "http_response lb s = (r, s')"
  shows "sock s' = sock s \<and> (\<forall>x. r = Inr x \<longrightarrow> flags_good s)"
proof -
  obtain x s1 where g: "getline s [] = (x, s1)" by fastforce
  from getline_frame [OF g] assms g show ?thesis
    by (auto simp: http_response_def Let_def stream_good_def split: if_splits option.splits prod.splits sum.splits
        dest!: message_init_frame)
qed

lemma exchange_sends:
  assumes "http_exchange w u s h = (Inr resp, s', h')"
  shows "sent_on (sock s') h' = sent_on (sock s') h @ request_text u \<and>
    connections h' = connections h @ [(sock s', getHost u, getPort u)]"
proof -
  obtain x s1 h1 where 1: "stream_connect w u s h = (Inr x, s1, h1)"
    using assms by (auto simp: http_exchange_def split: prod.splits sum.splits)
  obtain s2 h2 s3 h3 where 2: "write_all w (request_parts u) s1 h1 = (s2, h2)" "stream_flush w s2 h2 = (s3, h3)"
    by fastforce
  have 3: "http_response (hls_long_bits w) s3 = (Inr resp, s')" and h: "h' = h3"
    using assms 1 2 by (auto simp: http_exchange_def split: prod.splits)
  note f1 = stream_connect_fresh [OF 1]
  have f3: "fifo (sock s1) (sent_on (sock s1) h @ concat (request_parts u) @ []) s3 h3"
    using flush_op.keeps_fifo [OF write_all_fifo [OF f1 [THEN conjunct1] 2(1)] 2(2)] by simp
  have g: "flags_good s3" "sock s' = sock s3" using http_response_frame [OF 3] by auto
  have "obuf s3 = []"
    using 2(2) g(1) by (auto simp: stream_flush_def flags_good_def split: if_splits prod.splits flow.splits
        elim!: output_buffer_cases)
  moreover have sock: "sock s3 = sock s1" using f3 by (simp add: fifo_def)
  moreover have "concat (request_parts u) = request_text u" by (simp add: request_parts_def request_lines_def)
  ultimately have "sent_on (sock s') h' = sent_on (sock s') h @ request_text u"
    using f3 g by (simp add: fifo_def h)
  moreover have "quiet h1 h3" using quiet_trans [OF write_all_quiet [OF 2(1)] stream_flush_quiet [OF 2(2)]] .
  from quiet_connections [OF this] stream_connect_connections [OF 1]
  have "connections h' = connections h @ [(sock s', getHost u, getPort u)]" using g(2) sock by (simp add: h)
  ultimately show ?thesis by blast
qed

text \<open>C36: an exchange that brings an answer has made exactly one new connection, to the host and the port of
  the address, and has sent exactly the request for the address on it. The lines of that request end with
  a newline alone, not with the carriage return and newline of HTTP/1.1 that a strict server asks for.\<close>

theorem exchange_request:
  assumes "http_exchange w u s h = (Inr resp, s', h')"
  shows "connections h' = connections h @ [(sock s', getHost u, getPort u)] \<and>
    sent_on (sock s') h' = sent_on (sock s') h @ request_lines [newline] u \<and>
    sent_on (sock s') h' \<noteq> sent_on (sock s') h @ request_lines CRLF u"
proof -
  have "length (request_lines [newline] u) \<noteq> length (request_lines CRLF u)"
    by (simp add: request_lines_def CRLF_def)
  then have "request_lines [newline] u \<noteq> request_lines CRLF u" by metis
  with exchange_sends [OF assms] show ?thesis by simp
qed

section \<open>A network that works\<close>

text \<open>\<open>select\<close> finds the socket writable and \<open>send\<close> takes all it is given.\<close>

definition sends_all :: "hls_world \<Rightarrow> bool" where
  "sends_all w \<longleftrightarrow> (\<forall>n. 0 < select_write w n) \<and> (\<forall>n k. send_rc w n k = int k)"

lemma output_buffer_ok:
  "sends_all w \<Longrightarrow> sock s \<noteq> INVALID_SOCKET \<Longrightarrow> \<exists>h'. output_buffer w s h = (Fine, s\<lparr>obuf := []\<rparr>, h')"
  by (simp add: output_buffer_def sends_all_def Let_def)

lemma sputn_ok:
  "sends_all w \<Longrightarrow> sock s \<noteq> INVALID_SOCKET \<Longrightarrow> \<exists>s' h'. sputn w cs s h = (Fine, s', h') \<and> same_in s s'"
proof (induction cs arbitrary: s h)
  case (Cons c cs)
  have "\<exists>s1 h1. sputc w c s h = (Fine, s1, h1) \<and> same_in s s1"
    using output_buffer_ok [OF Cons.prems(1), of "s\<lparr>obuf := obuf s @ [c]\<rparr>" h] Cons.prems(2)
    by (auto simp: sputc_def overflow_def same_in_def)
  then obtain s1 h1 where 1: "sputc w c s h = (Fine, s1, h1)" "same_in s s1" by blast
  then have "sock s1 \<noteq> INVALID_SOCKET" using Cons.prems(2) same_inD by metis
  from Cons.IH [OF Cons.prems(1) this, of h1] 1 show ?case by (auto intro: same_in_trans)
qed simp

lemma same_in_good: "same_in s s' \<Longrightarrow> stream_good s' = stream_good s \<and> flags_good s' = flags_good s"
  using same_inD [of s s'] by (simp add: stream_good_def flags_good_def)

lemma stream_write_ok:
  assumes "sends_all w" "stream_good s"
  shows "\<exists>s' h'. stream_write w cs s h = (s', h') \<and> same_in s s' \<and> stream_good s'"
proof -
  have "sock s \<noteq> INVALID_SOCKET" "flags_good s" using assms(2) by (simp_all add: stream_good_def)
  with sputn_ok [OF assms(1) this(1), of cs h] assms(2) same_in_good show ?thesis
    by (fastforce simp: stream_write_def)
qed

lemma write_all_ok:
  "sends_all w \<Longrightarrow> stream_good s \<Longrightarrow> \<exists>s' h'. write_all w xs s h = (s', h') \<and> same_in s s' \<and> stream_good s'"
proof (induction xs arbitrary: s h)
  case (Cons x xs)
  obtain s1 h1 where 1: "stream_write w x s h = (s1, h1)" "same_in s s1" "stream_good s1"
    using stream_write_ok [OF Cons.prems] by blast
  with Cons.IH [OF Cons.prems(1) 1(3), of h1] show ?case by (auto intro: same_in_trans)
qed simp

lemma stream_flush_ok:
  assumes "sends_all w" "stream_good s"
  shows "\<exists>h'. stream_flush w s h = (s\<lparr>obuf := []\<rparr>, h')"
  using output_buffer_ok [OF assms(1), of s h] assms(2)
  by (auto simp: stream_flush_def stream_good_def)

lemma stream_connect_ok:
  assumes "\<And>n h p. getaddrinfo w n h p = (0, [(fd, True)])" "0 \<le> fd"
  shows "\<exists>s' h'. stream_connect w u s h = (Inr (), s', h') \<and> sock s' = fd \<and> obuf s' = [] \<and> ibuf s' = [] \<and>
    inbox s' = answers w (hls_calls h) u \<and> stream_good s'"
  using assms by (auto simp: stream_connect_def buf_open_def stream_close_def Let_def stream_good_def flags_good_def
      INVALID_SOCKET_def buf_close_def split: prod.split if_splits)

lemma http_exchange_ok:
  assumes "sends_all w" and "\<And>n h p. getaddrinfo w n h p = (0, [(fd, True)])" and "0 \<le> fd"
    and "arriving (answers w (hls_calls h) u) = response_text e code why hs @ body"
    and "eol_ok e" "code < 2 ^ 31" "text_ok why" "\<forall>kv \<in> set hs. header_ok kv" "32 \<le> hls_long_bits w"
  shows "\<exists>s' h'. http_exchange w u s h =
      (Inr \<lparr>status = int code, reason = why, headers = map_of (rev hs)\<rparr>, s', h') \<and> avail s' = body \<and> stream_good s' \<and>
    sock s' = fd \<and> (left_over (answers w (hls_calls h) u) = [] \<longrightarrow> end_flow s' = AtEof)"
proof -
  obtain s1 h1 where 1: "stream_connect w u s h = (Inr (), s1, h1)" "ibuf s1 = []"
    "inbox s1 = answers w (hls_calls h) u" "stream_good s1" "sock s1 = fd" using stream_connect_ok [OF assms(2,3)] by metis
  obtain s2 h2 where 2: "write_all w (request_parts u) s1 h1 = (s2, h2)" "same_in s1 s2" "stream_good s2"
    using write_all_ok [OF assms(1) 1(4)] by blast
  obtain h3 where 3: "stream_flush w s2 h2 = (s2\<lparr>obuf := []\<rparr>, h3)"
    using stream_flush_ok [OF assms(1) 2(3)] by blast
  have "stream_good (s2\<lparr>obuf := []\<rparr>)" using 2(3) by (simp add: stream_good_def flags_good_def)
  moreover have inb: "ibuf (s2\<lparr>obuf := []\<rparr>) = []" "inbox (s2\<lparr>obuf := []\<rparr>) = answers w (hls_calls h) u"
    "arriving (inbox (s2\<lparr>obuf := []\<rparr>)) = response_text e code why hs @ body"
    using same_inD [OF 2(2)] 1(2,3) assms(4) by simp_all
  ultimately obtain s' where s': "http_response (hls_long_bits w) (s2\<lparr>obuf := []\<rparr>) =
      (Inr \<lparr>status = int code, reason = why, headers = map_of (rev hs)\<rparr>, s')" "avail s' = body" "stream_good s'"
      "end_flow s' = end_flow (s2\<lparr>obuf := []\<rparr>)"
    using response_text_read [OF assms(5-9)] by blast
  have "http_exchange w u s h = (Inr \<lparr>status = int code, reason = why, headers = map_of (rev hs)\<rparr>, s', h3)"
    using 1(1) 2(1) 3 s'(1) by (simp add: http_exchange_def)
  moreover have "end_flow s' = AtEof" if "left_over (answers w (hls_calls h) u) = []"
    using that s'(4) inb(2) by (simp add: end_flow_def)
  moreover have "sock s' = fd" using http_response_frame [OF s'(1)] same_inD [OF 2(2)] 1(5) by simp
  ultimately show ?thesis using s'(2,3) by blast
qed

text \<open>A network that works, with the answers it gives to requests.\<close>

definition demo_net :: "(nat \<Rightarrow> uri \<Rightarrow> recv_answer list) \<Rightarrow> hls_world" where
  "demo_net a =
     \<lparr>select_write = (\<lambda>_. 1), send_rc = (\<lambda>_ k. int k), getaddrinfo = (\<lambda>_ _ _. (0, [(5, True)])), answers = a, arrivals = (\<lambda>_. []),
      monotonic = (\<lambda>n. (int n + 1, 0)), local_time = (\<lambda>_. \<lparr>tm_mday = 1, tm_mon = 0, tm_year = 120, tm_hour = 0,
        tm_min = 0, tm_sec = 0\<rparr>), thread_id = 1, socket_rc = 3, bind_rc = 0, listen_rc = 0,
      accept_rc = (\<lambda>_. (4, False)), fork_rc = (\<lambda>_. 0), sigaction_rc = (\<lambda>_. 0), hls_long_bits = 32\<rparr>"

lemma demo_net_simps [simp]:
  "sends_all (demo_net a)" "getaddrinfo (demo_net a) n h p = (0, [(5, True)])" "answers (demo_net a) = a"
  "hls_long_bits (demo_net a) = 32"
  by (simp_all add: demo_net_def sends_all_def)

definition demo_uri :: uri where
  "demo_uri = \<lparr>host = ''h.tv'', port = [], path = ''a.m3u8''\<rparr>"

definition demo_state :: hls_state where
  "demo_state = \<lparr>log_on = False, log_file = [], hls_calls = 0, hls_events = []\<rparr>"

theorem exchange_request_witness:
  "\<exists>resp s' h'. http_exchange (demo_net (\<lambda>_ _. [Data (response_text [newline] 404 ''Not found'' [])])) demo_uri new_stream
      demo_state = (Inr resp, s', h') \<and>
    connections h' = [(sock s', getHost demo_uri, getPort demo_uri)] \<and>
    sent_on (sock s') h' = sent_on (sock s') demo_state @ request_text demo_uri"
proof -
  let ?w = "demo_net (\<lambda>_ _. [Data (response_text [newline] 404 ''Not found'' [])])"
  have "response_text [newline] 404 ''Not found'' [] \<noteq> []" by (simp add: response_text_def)
  then have a: "arriving (answers ?w (hls_calls demo_state) demo_uri) = response_text [newline] 404 ''Not found'' [] @ []" by simp
  have t: "eol_ok [newline]" "(404 :: nat) < 2 ^ 31" "text_ok ''Not found''" "\<forall>kv \<in> set []. header_ok kv"
    "32 \<le> hls_long_bits ?w"
    by (simp_all add: eol_ok_def text_ok_def isspace_def)
  have g: "getaddrinfo ?w n h p = (0, [(5, True)])" for n h p by simp
  have "sends_all ?w" "(0 :: int) \<le> 5" by simp_all
  from http_exchange_ok [OF this(1) g this(2) a t] obtain s' h' r where
    x: "http_exchange ?w demo_uri new_stream demo_state = (Inr r, s', h')" by blast
  with exchange_request [OF x] show ?thesis
    by (auto simp: demo_state_def connections_def)
qed

end
