(* ===== verification/HlsForward.thy ===== *)
theory HlsForward
  imports HlsHistory HlsFetch
begin

text \<open>
  What reaches the player: the bytes of a segment, whatever pieces they arrive in and whenever the
  loop pauses; and what is lost in the buffer when the viewer ends.
\<close>

section \<open>The forwarding loop\<close>

lemma end_flow_cases: "end_flow s = AtEof \<or> end_flow s = Thrown"
  by (simp add: end_flow_def split: list.split recv_answer.split)

text \<open>One read, when the bytes suffice and when they do not.\<close>

lemma stream_read_full:
  assumes "flags_good s" "n \<le> length (avail s)"
  shows "\<exists>s'. stream_read n s = (take n (avail s), s') \<and> flags_good s' \<and> sock s' = sock s \<and>
    avail s' = drop n (avail s) \<and> end_flow s' = end_flow s"
  using sgetn_avail [of n s] assms by (auto simp: stream_read_def flags_good_def dest!: same_outD)

lemma stream_read_last:
  assumes "flags_good s" "length (avail s) < n"
  shows "\<exists>s'. stream_read n s = ((if end_flow s = Thrown then [] else avail s), s') \<and> \<not> flags_good s'"
  using sgetn_avail [of n s] assms end_flow_cases [of s] by (auto simp: stream_read_def flags_good_def)

lemma sent_on_elapsed: "elapsed w start h = (el, h') \<Longrightarrow> sent_on fd h' = sent_on fd h"
  by (auto simp: elapsed_def split: if_splits prod.splits)

lemma sent_on_Sleep [simp]: "sent_on fd (Sleep n h) = sent_on fd h"
  by (simp add: Sleep_def)

lemma fifo_cong: "sent_on fd h' = sent_on fd h \<Longrightarrow> fifo fd W s h' = fifo fd W s h"
  by (simp add: fifo_def)

lemma forward_stop: "\<not> (stream_good ts \<and> stream_good vs) \<Longrightarrow> forward L w start e bd t ts vs h = (ts, vs, h)"
  by (subst forward.simps) (rule if_not_P)

lemma write_block_cases:
  assumes "write_block L w start e bd t x vs h = (t', vs', h')"
  obtains h1 where "stream_write w x vs h = (vs', h1)" "\<And>fd. sent_on fd h' = sent_on fd h1"
proof -
  obtain vs1 h1 where v: "stream_write w x vs h = (vs1, h1)" by fastforce
  obtain el h2 where el: "elapsed w start h1 = (el, h2)" by fastforce
  from assms v el sent_on_elapsed [OF el] have "vs1 = vs'" "sent_on fd h' = sent_on fd h1" for fd
    by (auto simp: write_block_def Let_def split: if_splits)
  with v that show thesis by blast
qed

lemma forward_step:
  assumes "stream_good ts" "stream_good vs" "stream_read TS_BUF_LEN ts = (x, ts1)" "stream_write w x vs h = (vs1, h1)"
  shows "\<exists>t2 h2. forward L w start e bd t ts vs h = forward L w start e bd t2 ts1 vs1 h2 \<and>
    (\<forall>fd. sent_on fd h2 = sent_on fd h1)"
proof -
  obtain t2 vs2 h2 where b: "write_block L w start e bd t x vs h = (t2, vs2, h2)" by (metis prod.exhaust)
  then have "vs2 = vs1" "sent_on fd h2 = sent_on fd h1" for fd
    using assms(4) by (auto elim!: write_block_cases)
  moreover have "forward L w start e bd t ts vs h = forward L w start e bd t2 ts1 vs2 h2"
    by (subst forward.simps) (simp add: assms b)
  ultimately show ?thesis by blast
qed

text \<open>What a segment's connection delivers: when it ends by a timeout or an error, the bytes behind
  the last full buffer are not counted.\<close>

definition delivered :: "sstream \<Rightarrow> string" where
  "delivered s =
     (if end_flow s = Thrown then take (length (avail s) div TS_BUF_LEN * TS_BUF_LEN) (avail s) else avail s)"

lemma TS_BUF_LEN_value: "TS_BUF_LEN = 752"
  by (simp add: TS_BUF_LEN_def)

lemma delivered_full:
  assumes "TS_BUF_LEN \<le> length (avail s)" "avail s' = drop TS_BUF_LEN (avail s)" "end_flow s' = end_flow s"
  shows "delivered s = take TS_BUF_LEN (avail s) @ delivered s'"
proof -
  let ?n = TS_BUF_LEN
  obtain k where k: "length (avail s) = ?n + k" using assms(1) le_Suc_ex by blast
  then have "length (avail s) div ?n * ?n = ?n + k div ?n * ?n"
    using div_add_self1 [of ?n k] by (simp only: TS_BUF_LEN_value) simp
  moreover have "take (?n + m) (avail s) = take ?n (avail s) @ take m (drop ?n (avail s))" for m
    by (rule take_add)
  ultimately show ?thesis using assms(2,3) k by (auto simp: delivered_def)
qed

lemma delivered_last: "length (avail s) < TS_BUF_LEN \<Longrightarrow> delivered s = (if end_flow s = Thrown then [] else avail s)"
  by (simp add: delivered_def)

text \<open>While writing succeeds the buffer is sent whenever it is full, and only then.\<close>

lemma sputn_pending:
  "filling fd W s h \<Longrightarrow> sputn w cs s h = (Fine, s', h') \<Longrightarrow>
    length (obuf s') = (length (obuf s) + length cs) mod BUF_SIZE"
proof (induction cs arbitrary: W s h)
  case Nil
  then show ?case by (simp add: filling_def)
next
  case (Cons c cs)
  obtain f1 s1 h1 where 1: "sputc w c s h = (f1, s1, h1)" by (metis prod.exhaust)
  with Cons.prems(2) have 2: "f1 = Fine" "sputn w cs s1 h1 = (Fine, s', h')" by (auto split: flow.splits)
  have f: "filling fd (W @ [c]) s1 h1" using sputc_filling [OF Cons.prems(1) 1] 2(1) by simp
  have lt: "length (obuf s) < BUF_SIZE" using Cons.prems(1) by (simp add: filling_def)
  have "length (obuf s1) = Suc (length (obuf s)) mod BUF_SIZE"
  proof (cases "length (obuf s) < BUF_SIZE - 1")
    case True
    with 1 show ?thesis by (auto simp: sputc_def)
  next
    case False
    then have "Suc (length (obuf s)) = BUF_SIZE" using lt by simp
    moreover have "output_buffer w (s\<lparr>obuf := obuf s @ [c]\<rparr>) h = (Fine, s1, h1)"
      using False 1 2(1) by (simp add: sputc_def overflow_def)
    then have "obuf s1 = []" by (auto elim: output_buffer_cases)
    ultimately show ?thesis by simp
  qed
  with Cons.IH [OF f 2(2)] show ?case by (simp add: mod_add_left_eq)
qed

lemma stream_write_pending:
  assumes "fifo fd W s h" "stream_write w cs s h = (s', h')" "flags_good s'"
  shows "length (obuf s') = (length (obuf s) + length cs) mod BUF_SIZE \<and> flags_good s"
proof -
  have g: "flags_good s" using assms(2,3) by (auto simp: stream_write_def flags_good_def split: if_splits)
  obtain f s1 h1 where 1: "sputn w cs s h = (f, s1, h1)" by (metis prod.exhaust)
  with assms(2,3) g have "f = Fine" "s' = s1"
    by (auto simp: stream_write_def flags_good_def split: flow.splits)
  with sputn_pending [OF fifo_filling [OF assms(1) g]] 1 g show ?thesis by blast
qed

lemma forward_fifo:
  "fifo fd W vs h \<Longrightarrow> stream_good ts \<Longrightarrow> forward L w start e bd t ts vs h = (ts', vs', h') \<Longrightarrow>
    \<exists>n. fifo fd (W @ take n (delivered ts)) vs' h' \<and>
      (flags_good vs' \<longrightarrow> n = length (delivered ts) \<and> \<not> stream_good ts' \<and>
        length (obuf vs') = (length (obuf vs) + n) mod BUF_SIZE)"
proof (induction "length (avail ts)" arbitrary: W t ts vs h rule: less_induct)
  case less
  show ?case
  proof (cases "stream_good vs")
    case False
    then have "ts' = ts" "vs' = vs" "h' = h" using less.prems(3) forward_stop by (metis prod.inject)+
    with False less.prems(1) show ?thesis
      by (intro exI [of _ 0]) (auto simp: fifo_def stream_good_def)
  next
    case good: True
    have g: "flags_good ts" using less.prems(2) by (simp add: stream_good_def)
    show ?thesis
    proof (cases "TS_BUF_LEN \<le> length (avail ts)")
      case True
      let ?x = "take TS_BUF_LEN (avail ts)"
      obtain ts1 where r: "stream_read TS_BUF_LEN ts = (?x, ts1)" "flags_good ts1" "sock ts1 = sock ts"
        "avail ts1 = drop TS_BUF_LEN (avail ts)" "end_flow ts1 = end_flow ts"
        using stream_read_full [OF g True] by blast
      obtain vs1 h1 where v: "stream_write w ?x vs h = (vs1, h1)" by fastforce
      obtain t2 h2 where f: "forward L w start e bd t2 ts1 vs1 h2 = (ts', vs', h')" "\<forall>fd. sent_on fd h2 = sent_on fd h1"
        using forward_step [OF less.prems(2) good r(1) v] less.prems(3) by metis
      have ff: "fifo fd (W @ ?x) vs1 h2" using write_op.keeps_fifo [OF less.prems(1) v] f(2) fifo_cong by blast
      have p: "length (obuf vs1) = (length (obuf vs) + length ?x) mod BUF_SIZE" if "flags_good vs'"
      proof -
        have "stream_good vs1" if "\<not> stream_good vs1 \<longrightarrow> vs' = vs1"
          using that \<open>flags_good vs'\<close> ff by (auto simp: fifo_def stream_good_def)
        then have "flags_good vs1" using f(1) forward_stop by (metis prod.inject stream_good_def)
        then show ?thesis using stream_write_pending [OF less.prems(1) v] by blast
      qed
      note ff
      moreover have "stream_good ts1" using r(2,3) less.prems(2) by (simp add: stream_good_def)
      moreover have "length (avail ts1) < length (avail ts)" using r(4) True by (simp add: TS_BUF_LEN_value)
      ultimately obtain n where n: "fifo fd ((W @ ?x) @ take n (delivered ts1)) vs' h'"
        "flags_good vs' \<longrightarrow> n = length (delivered ts1) \<and> \<not> stream_good ts' \<and>
          length (obuf vs') = (length (obuf vs1) + n) mod BUF_SIZE"
        using less.hyps f(1) by blast
      have d: "delivered ts = ?x @ delivered ts1" by (rule delivered_full [OF True r(4,5)])
      have "take (length x + n) (x @ y) = x @ take n y" for x y :: string by simp
      then have "take (length ?x + n) (delivered ts) = ?x @ take n (delivered ts1)" unfolding d .
      with n d p show ?thesis
        by (intro exI [of _ "length ?x + n"]) (auto simp: mod_add_right_eq ac_simps)
    next
      case False
      then have "length (avail ts) < TS_BUF_LEN" by simp
      note d = delivered_last [OF this]
      obtain ts1 where r: "stream_read TS_BUF_LEN ts = (delivered ts, ts1)" "\<not> flags_good ts1"
        using stream_read_last [OF g \<open>length (avail ts) < TS_BUF_LEN\<close>] unfolding d by blast
      obtain vs1 h1 where v: "stream_write w (delivered ts) vs h = (vs1, h1)" by fastforce
      obtain t2 h2 where f: "forward L w start e bd t2 ts1 vs1 h2 = (ts', vs', h')" "\<forall>fd. sent_on fd h2 = sent_on fd h1"
        using forward_step [OF less.prems(2) good r(1) v] less.prems(3) by metis
      have "\<not> stream_good ts1" using r(2) by (simp add: stream_good_def)
      with f(1) forward_stop have "ts' = ts1" "vs' = vs1" "h' = h2" by (metis prod.inject)+
      moreover have "fifo fd (W @ delivered ts) vs1 h2"
        using write_op.keeps_fifo [OF less.prems(1) v] f(2) fifo_cong by blast
      ultimately show ?thesis using \<open>\<not> stream_good ts1\<close> stream_write_pending [OF less.prems(1) v]
        by (intro exI [of _ "length (delivered ts)"]) auto
    qed
  qed
qed

text \<open>C6: a segment is forwarded byte for byte: whatever pieces its bytes arrive in, and whatever the clock
  makes the loop do, the player is sent a beginning of what the connection delivers, behind everything
  written before; and while the player's stream is good, all of it is sent or waits in the buffer, and
  the connection is used up.\<close>

theorem segment_forwarded:
  assumes "fifo fd W vs h" and "stream_good ts" and "forward L w start e bd t ts vs h = (ts', vs', h')"
  shows "prefix (sent_on fd h') (W @ delivered ts) \<and>
    (if flags_good vs' then sent_on fd h' @ obuf vs' = W @ delivered ts \<and> length (obuf vs') < BUF_SIZE \<and>
       \<not> stream_good ts' else True)"
proof -
  obtain n where n: "fifo fd (W @ take n (delivered ts)) vs' h'"
    "flags_good vs' \<longrightarrow> n = length (delivered ts) \<and> \<not> stream_good ts'"
    using forward_fifo [OF assms] by blast
  have "prefix (W @ take n (delivered ts)) (W @ delivered ts)" by (simp add: take_is_prefix)
  with n show ?thesis by (auto simp: fifo_def intro: prefix_order.trans)
qed

text \<open>A player, and a segment that arrives in two pieces.\<close>

definition demo_player :: sstream where
  "demo_player = new_stream\<lparr>sock := 4\<rparr>"

definition demo_source :: sstream where
  "demo_source = new_stream\<lparr>sock := 5, inbox := [Data ''ab'', Data ''c'']\<rparr>"

lemma demo_streams_good: "fifo 4 [] demo_player demo_state" "stream_good demo_player" "stream_good demo_source"
    "avail demo_source = ''abc''" "delivered demo_source = ''abc''" "end_flow demo_source = AtEof"
  by (simp_all add: demo_player_def demo_source_def demo_state_def fifo_def new_stream_def INVALID_SOCKET_def BUF_SIZE_def
      sent_on_def flags_good_def stream_good_def avail_def delivered_def end_flow_def)

theorem segment_forwarded_witness:
  "\<exists>ts' vs' h'. forward demo_lib (demo_net (\<lambda>_ _. [])) (1, 0) True 0 0 demo_source demo_player demo_state = (ts', vs', h') \<and>
    prefix (sent_on 4 h') ''abc''"
proof -
  obtain ts' vs' h' where f:
    "forward demo_lib (demo_net (\<lambda>_ _. [])) (1, 0) True 0 0 demo_source demo_player demo_state = (ts', vs', h')"
    by (metis prod.exhaust)
  from segment_forwarded [OF demo_streams_good(1,3) f] f show ?thesis by (auto simp: demo_streams_good)
qed

section \<open>The end of the viewer\<close>

text \<open>Ending the viewer sends nothing: its stream is closed before its buffer is.\<close>

lemma destroy_stream_sent: "sent_on fd (destroy_stream w s h) = sent_on fd h"
  by (auto simp: destroy_stream_def stream_close_def buf_close_def output_buffer_def Let_def split: prod.split if_splits)

lemma delete_viewer_sent: "sent_on fd (delete_viewer w v h) = sent_on fd h"
proof -
  have "sent_on fd (snd (Stop v h)) = sent_on fd h"
    by (auto simp: Stop_def stream_close_def buf_close_def Let_def split: prod.split if_splits)
  then show ?thesis by (auto simp: delete_viewer_def Let_def destroy_stream_sent split: prod.split)
qed

text \<open>C19: the end of a stream is lost: the viewer sends its buffer when it is full and never after that,
  so when it ends behind a segment of \<open>n\<close> bytes (forwarded to a player that is still connected, from an
  empty buffer) the player has got \<open>n - n mod 752\<close> of them.\<close>

theorem tail_lost:
  assumes "fifo fd W vs h" and "obuf vs = []" and "stream_good ts"
    and "forward L w start e bd t ts vs h = (ts', vs', h')" and "flags_good vs'"
  shows "sent_on fd (delete_viewer w (v\<lparr>VideoStream := vs'\<rparr>) h') =
    W @ take (length (delivered ts) - length (delivered ts) mod 752) (delivered ts)"
proof -
  let ?d = "delivered ts"
  obtain n where n: "fifo fd (W @ take n ?d) vs' h'" "n = length ?d" "length (obuf vs') = (length (obuf vs) + n) mod BUF_SIZE"
    using forward_fifo [OF assms(1,3,4)] assms(5) by blast
  then have "sent_on fd h' @ obuf vs' = W @ ?d" "length (obuf vs') = length ?d mod 752"
    using assms(2,5) by (simp_all add: fifo_def BUF_SIZE_def)
  then have "sent_on fd h' = take (length (W @ ?d) - length ?d mod 752) (W @ ?d)"
    by (metis add_diff_cancel_right' append_eq_conv_conj length_append)
  moreover have "length ?d mod 752 \<le> length ?d" by (rule mod_less_eq_dividend)
  ultimately have "sent_on fd h' = W @ take (length ?d - length ?d mod 752) ?d" by simp
  then show ?thesis by (simp add: delete_viewer_sent)
qed

lemma forward_good:
  assumes "sends_all w"
  shows "forward L w start e bd t ts vs h = (ts', vs', h') \<Longrightarrow> stream_good ts \<Longrightarrow> stream_good vs \<Longrightarrow> stream_good vs'"
proof (induction "length (avail ts)" arbitrary: t ts vs h rule: less_induct)
  case less
  obtain x ts1 where r: "stream_read TS_BUF_LEN ts = (x, ts1)" by fastforce
  obtain vs1 h1 where v: "stream_write w x vs h = (vs1, h1)" "stream_good vs1"
    using stream_write_ok [OF assms less.prems(3)] by blast
  obtain t2 h2 where f: "forward L w start e bd t2 ts1 vs1 h2 = (ts', vs', h')"
    using forward_step [OF less.prems(2,3) r v(1)] less.prems(1) by metis
  have g: "flags_good ts" using less.prems(2) by (simp add: stream_good_def)
  show ?case
  proof (cases "TS_BUF_LEN \<le> length (avail ts)")
    case True
    from stream_read_full [OF g True] r have "flags_good ts1" "sock ts1 = sock ts" "avail ts1 = drop TS_BUF_LEN (avail ts)"
      by auto
    then have "length (avail ts1) < length (avail ts)" "stream_good ts1"
      using True less.prems(2) by (simp_all add: TS_BUF_LEN_value stream_good_def)
    from less.hyps [OF this(1) f this(2) v(2)] show ?thesis .
  next
    case False
    with stream_read_last [OF g, of TS_BUF_LEN] r have "\<not> stream_good ts1" by (auto simp: stream_good_def)
    with f v(2) show ?thesis using forward_stop by (metis prod.inject)
  qed
qed

definition demo_viewer :: "int viewer" where
  "demo_viewer = \<lparr>VideoStream = demo_player, SessionQuality = Video_high, VideoUri = no_uri, M3U8Client = new_client,
     PlayList = [], MaxHistLen = 0, TsList = [], tsClient = new_client\<rparr>"

theorem tail_lost_witness:
  "\<exists>ts' vs' h'. forward demo_lib (demo_net (\<lambda>_ _. [])) (1, 0) True 0 0 demo_source demo_player demo_state = (ts', vs', h') \<and>
    sent_on 4 (delete_viewer (demo_net (\<lambda>_ _. [])) (demo_viewer\<lparr>VideoStream := vs'\<rparr>) h') = []"
proof -
  obtain ts' vs' h' where f:
    "forward demo_lib (demo_net (\<lambda>_ _. [])) (1, 0) True 0 0 demo_source demo_player demo_state = (ts', vs', h')"
    by (metis prod.exhaust)
  have "obuf demo_player = []" by (simp add: demo_player_def new_stream_def)
  moreover have "flags_good vs'"
    using forward_good [OF demo_net_simps(1) f demo_streams_good(3,2)] by (simp add: stream_good_def)
  ultimately show ?thesis
    using tail_lost [OF demo_streams_good(1) _ demo_streams_good(3) f, of demo_viewer] f
    by (auto simp: demo_streams_good)
qed

end
