(* ===== verification/HlsTrace.thy ===== *)
theory HlsTrace
  imports HlsServer HlsForward
begin

text \<open>
  Runs of \<open>hlspxd\<close> as a whole: what each operation may add to the record of actions and which
  exceptions it may end with, the life of the sockets of the server, and when a viewer gives up.
\<close>

section \<open>Actions and exceptions of the operations\<close>

definition viewer_event :: "hls_event \<Rightarrow> bool" where
  "viewer_event e \<longleftrightarrow>
     (case e of LogLine f m \<Rightarrow> True | Sent fd d \<Rightarrow> True | Connected fd a p \<Rightarrow> True | CloseFd fd \<Rightarrow> True
      | Usleep n \<Rightarrow> True | _ \<Rightarrow> False)"

definition grows :: "hls_state \<Rightarrow> hls_state \<Rightarrow> bool" where
  "grows h h' \<longleftrightarrow> (\<exists>es. hls_events h' = hls_events h @ es \<and> list_all viewer_event es)"

definition fine :: "hls_exn + 'a \<Rightarrow> bool" where
  "fine r \<longleftrightarrow> (case r of Inl (IntExn k) \<Rightarrow> k = 2 | _ \<Rightarrow> True)"

lemma grows_refl [simp]: "grows h h"
  by (simp add: grows_def)

lemma grows_trans [trans]: "grows h h' \<Longrightarrow> grows h' h'' \<Longrightarrow> grows h h''"
  by (auto simp: grows_def)

lemma grows_tick [simp]: "grows h (tick h)" "grows h (happen e h) \<longleftrightarrow> viewer_event e"
  by (simp_all add: grows_def)

lemma viewer_event_simps [simp]:
  "viewer_event (LogLine f m)" "viewer_event (Sent fd d)" "viewer_event (Connected fd a p)" "viewer_event (CloseFd fd)"
  "viewer_event (Usleep n)"
  by (simp_all add: viewer_event_def)

lemma fine_simps [simp]: "fine (Inr x)" "fine (Inl (Exn s))" "fine (Inl (IntExn k)) \<longleftrightarrow> k = 2"
  by (simp_all add: fine_def)

lemma fine_Inl: "fine (Inl e :: hls_exn + 'a) \<Longrightarrow> fine (Inl e :: hls_exn + 'b)"
  by (simp add: fine_def)

lemma grows_WriteLog [simp]: "grows h (WriteLog w m h)" "grows h (WriteLogError w n h)" "grows h (Sleep k h)"
  by (simp_all add: WriteLog_def WriteLogError_def WriteBuf_def Sleep_def Let_def grows_def)

lemma grows_log: "grows h h' \<Longrightarrow> grows h (WriteLog w m h')" "grows h h' \<Longrightarrow> grows h (WriteLogError w n h')"
    "grows h h' \<Longrightarrow> grows h (Sleep k h')"
  using grows_WriteLog grows_trans by blast+

lemma grows_happen: "grows h h' \<Longrightarrow> viewer_event e \<Longrightarrow> grows h (happen e h')"
  by (auto simp: grows_def)

lemma grows_happenD: "grows (happen e h) h' \<Longrightarrow> viewer_event e \<Longrightarrow> grows h h'"
  by (auto simp: grows_def)

lemma grows_tickI: "grows h h' \<Longrightarrow> grows h (tick h')"
  by (simp add: grows_def)

lemma output_buffer_grows: "output_buffer w s h = (f, s', h') \<Longrightarrow> grows h h'"
  by (auto simp: output_buffer_def Let_def grows_def split: if_splits)

lemma sputn_grows: "sputn w cs s h = (f, s', h') \<Longrightarrow> grows h h'"
proof (induction cs arbitrary: s h)
  case (Cons c cs)
  obtain f1 s1 h1 where 1: "sputc w c s h = (f1, s1, h1)" by (metis prod.exhaust)
  then have "grows h h1" by (auto simp: sputc_def overflow_def dest: output_buffer_grows split: if_splits)
  with 1 Cons show ?case by (cases f1) (auto intro: grows_trans)
qed simp

lemma stream_write_grows: "stream_write w cs s h = (s', h') \<Longrightarrow> grows h h'"
  by (auto simp: stream_write_def dest: sputn_grows split: if_splits prod.splits flow.splits)

lemma stream_flush_grows: "stream_flush w s h = (s', h') \<Longrightarrow> grows h h'"
  by (auto simp: stream_flush_def dest: output_buffer_grows split: if_splits prod.splits flow.splits)

lemma write_all_grows: "write_all w xs s h = (s', h') \<Longrightarrow> grows h h'"
  by (induction xs arbitrary: s h) (auto dest: stream_write_grows intro: grows_trans split: prod.splits)

lemma buf_close_grows: "buf_close s h = (s', h') \<Longrightarrow> grows h h'"
  by (auto simp: buf_close_def split: if_splits)

lemma stream_close_grows: "stream_close s h = (s', h') \<Longrightarrow> grows h h'"
  by (auto simp: stream_close_def dest: buf_close_grows split: prod.splits)

lemma try_addresses_grows: "try_addresses addrs fd h = (fd', ok, h') \<Longrightarrow> grows h h'"
proof (induction addrs fd h rule: try_addresses.induct)
  case (2 s ok rp fd h)
  then show ?case by (auto split: if_splits dest!: grows_happenD)
qed simp

lemma buf_open_grows: "buf_open w u s h = (r, s', h') \<Longrightarrow> grows h h' \<and> fine r"
  by (auto simp: buf_open_def Let_def split: prod.splits if_splits
      dest!: buf_close_grows try_addresses_grows intro!: grows_happen intro: grows_trans grows_tickI)

lemma stream_connect_grows: "stream_connect w u s h = (r, s', h') \<Longrightarrow> grows h h' \<and> fine r"
  by (auto simp: stream_connect_def dest!: stream_close_grows buf_open_grows intro: grows_trans split: prod.splits)

section \<open>Exceptions without actions\<close>

lemma fine_map_sum [simp]: "fine (map_sum id f r) = fine r"
  by (cases r) (auto simp: fine_def split: hls_exn.split)

lemma decode_loop_fine: "fine (decode_loop_uri whole ps q s)"
proof (induction "length s" arbitrary: q s rule: less_induct)
  case less
  show ?case
  proof (cases s)
    case (Cons c s1)
    let ?q = "q \<or> c = CHR ''?''"
    have 1: "fine (decode_loop_uri whole ps ?q s1)" using less Cons by simp
    have 2: "fine (decode_loop_uri whole ps ?q s2)" if "s1 = hi # lo # s2" for hi lo s2 using less Cons that by simp
    show ?thesis
    proof (cases "c = CHR ''%''")
      case False
      with 1 show ?thesis unfolding Cons by (auto simp: Let_def)
    next
      case True
      show ?thesis
      proof (cases "\<exists>hi lo s2. s1 = hi # lo # s2")
        case True
        then obtain hi lo s2 where "s1 = hi # lo # s2" by blast
        with 2 [OF this] \<open>c = CHR ''%''\<close> show ?thesis unfolding Cons by (simp add: Let_def split: option.split)
      next
        case False
        then consider "s1 = []" | hi where "s1 = [hi]" by (metis neq_Nil_conv)
        then show ?thesis using \<open>c = CHR ''%''\<close> unfolding Cons by cases (simp_all add: Let_def)
      qed
    qed
  qed simp
qed

lemma uri_parse_fine: "fine (uri_parse s)"
proof -
  have d: "uri_decode x False = Inl e \<Longrightarrow> fine (Inl e :: hls_exn + uri)" for x e
    using decode_loop_fine [of x False False x] by (simp add: uri_decode_def fine_Inl)
  show ?thesis by (auto simp: uri_parse_def Let_def split: option.split sum.split dest: d)
qed

lemma message_init_fine: "message_init s l m = (r, s') \<Longrightarrow> fine r"
proof (induction s l m rule: message_init.induct)
  case (1 s l m)
  obtain x s1 where "getline s l = (x, s1)" by fastforce
  with 1 show ?case
    by (auto simp: message_init.simps [of s] Let_def fun_upd_def split: if_splits option.splits)
qed

lemma http_response_fine: "http_response lb s = (r, s') \<Longrightarrow> fine r"
  by (auto simp: http_response_def Let_def split: if_splits option.splits prod.splits sum.splits
      dest!: message_init_fine intro: fine_Inl)

lemma http_request_fine: "http_request s = (r, s') \<Longrightarrow> fine r"
  by (auto simp: http_request_def Let_def split: if_splits option.splits prod.splits sum.splits
      dest!: message_init_fine intro: fine_Inl)

lemma redirect_target_fine: "fine (redirect_target r)"
proof -
  have "uri_parse x = Inl e \<Longrightarrow> fine (Inl e :: hls_exn + uri \<times> string)" for x e
    using uri_parse_fine [of x] by (simp add: fine_Inl)
  then show ?thesis by (auto simp: redirect_target_def split: option.split sum.split)
qed

lemma bandwidth_fine: "fine (bandwidth lb as b)"
  by (induction lb as b rule: bandwidth.induct) (auto simp: Let_def)

lemma stream_infos_fine: "fine (stream_infos lb pl)"
proof (induction lb pl rule: stream_infos.induct)
  case (2 lb r rs)
  have "bandwidth lb (Attributes r) 0 = Inl e \<Longrightarrow> fine (Inl e :: hls_exn + stream_inf list)" for e
    using bandwidth_fine [of lb "Attributes r" 0] by (simp add: fine_Inl)
  with 2 show ?case by (auto split: sum.split)
qed simp

section \<open>Operations with both\<close>

lemma http_exchange_grows: "http_exchange w u s h = (r, s', h') \<Longrightarrow> grows h h' \<and> fine r"
proof -
  assume x: "http_exchange w u s h = (r, s', h')"
  obtain r1 s1 h1 where 1: "stream_connect w u s h = (r1, s1, h1)" by (metis prod.exhaust)
  note g1 = stream_connect_grows [OF 1]
  obtain s2 h2 s3 h3 where 2: "write_all w (request_parts u) s1 h1 = (s2, h2)" "stream_flush w s2 h2 = (s3, h3)"
    by fastforce
  have "grows h h3" using g1 write_all_grows [OF 2(1)] stream_flush_grows [OF 2(2)] grows_trans by blast
  with x 1 2 g1 show ?thesis
    by (auto simp: http_exchange_def split: sum.splits prod.splits dest: http_response_fine intro: fine_Inl)
qed

lemma attempts_grows: "attempts n w resp u c h = (r, u', c', h') \<Longrightarrow> grows h h' \<and> fine r"
proof (induction n arbitrary: resp u c h)
  case (Suc n)
  obtain r1 s1 h1 where 1: "http_exchange w u (client_stream c) h = (r1, s1, h1)" by (metis prod.exhaust)
  note g1 = http_exchange_grows [OF 1]
  show ?case
  proof (cases r1)
    case (Inl e)
    with Suc.prems 1 g1 show ?thesis by (auto simp: Let_def intro: fine_Inl)
  next
    case (Inr x)
    show ?thesis
    proof (cases "redirect_target x")
      case e: (Inl e)
      then have "fine (Inl e :: hls_exn + http_response)" using redirect_target_fine [of x] by (simp add: fine_Inl)
      with Suc.prems 1 g1 Inr e show ?thesis by (auto simp: Let_def split: if_splits)
    next
      case ok: (Inr um)
      obtain v msg where um: "um = (v, msg)" by fastforce
      have "grows h (WriteLog w msg h1)" using g1 grows_WriteLog(1) grows_trans by blast
      with Suc.prems 1 g1 Inr ok um Suc.IH show ?thesis
        by (auto simp: Let_def split: if_splits intro: grows_trans)
    qed
  qed
qed auto

lemma getResponce_grows: "getResponce w u c h = (r, u', c', h') \<Longrightarrow> grows h h' \<and> fine r"
  unfolding getResponce_def by (rule attempts_grows)

lemma ReadM3U8_grows: "ReadM3U8 w v h = (r, v', h') \<Longrightarrow> grows h h' \<and> fine r"
  by (auto simp: ReadM3U8_def Let_def split: prod.splits sum.splits if_splits dest!: getResponce_grows intro: fine_Inl)

lemma scan_records_grows: "scan_records L w pl c h = (r, h') \<Longrightarrow> grows h h' \<and> fine r"
proof (induction pl arbitrary: c h)
  case (Cons x pl)
  obtain r1 h1 where 1: "scan_record L w x c h = (r1, h1)" by fastforce
  then have "grows h h1 \<and> fine r1" by (auto simp: scan_record_def Let_def split: if_splits)
  with 1 Cons show ?case by (cases r1) (auto intro: grows_trans)
qed auto

lemma elapsed_grows: "elapsed w start h = (el, h') \<Longrightarrow> grows h h'"
  by (auto simp: elapsed_def split: if_splits prod.splits)

lemma write_block_grows: "write_block L w start e bd t x vs h = (t', vs', h') \<Longrightarrow> grows h h'"
proof -
  assume b: "write_block L w start e bd t x vs h = (t', vs', h')"
  obtain vs1 h1 where v: "stream_write w x vs h = (vs1, h1)" by fastforce
  obtain el h2 where el: "elapsed w start h1 = (el, h2)" by fastforce
  have "grows h h2" using stream_write_grows [OF v] elapsed_grows [OF el] grows_trans by blast
  with b v el show ?thesis by (auto simp: write_block_def Let_def grows_log split: if_splits)
qed

lemma forward_grows: "forward L w start e bd t ts vs h = (ts', vs', h') \<Longrightarrow> grows h h'"
proof (induction L w start e bd t ts vs h rule: forward.induct)
  case (1 L w start e bd t ts vs h)
  show ?case
  proof (cases "stream_good ts \<and> stream_good vs")
    case False
    with "1.prems" forward_stop show ?thesis by (metis grows_refl prod.inject)
  next
    case True
    obtain x ts1 where r: "stream_read TS_BUF_LEN ts = (x, ts1)" by fastforce
    obtain t1 vs1 h1 where v: "write_block L w start e bd t x vs h = (t1, vs1, h1)" by (metis prod.exhaust)
    with True r "1.IH" [OF True r [symmetric] refl v [symmetric] refl refl] "1.prems" write_block_grows [OF v]
    show ?thesis by (subst (asm) (2) forward.simps) (auto intro: grows_trans)
  qed
qed

lemma open_segment_grows: "open_segment L w i v h = (r, v', h') \<Longrightarrow> grows h h' \<and> fine r"
  by (auto simp: open_segment_def Let_def split: prod.splits sum.splits if_splits dest!: getResponce_grows
      intro: fine_Inl)

lemma play_segments_grows: "play_segments L w start e i t v h = (r, v', h') \<Longrightarrow> grows h h' \<and> fine r"
proof (induction "length (TsList v) - i" arbitrary: i t v h)
  case 0
  then show ?case by (subst (asm) play_segments.simps) auto
next
  case (Suc n)
  show ?case
  proof (cases "i < length (TsList v) \<and> stream_good (VideoStream v)")
    case False
    with Suc.prems show ?thesis by (subst (asm) play_segments.simps) auto
  next
    case True
    obtain r1 v1 h1 where g: "open_segment L w i v h = (r1, v1, h1)" by (metis prod.exhaust)
    note g1 = open_segment_grows [OF g]
    show ?thesis
    proof (cases r1)
      case (Inl x)
      with Suc.prems True g g1 show ?thesis by (subst (asm) play_segments.simps) (auto intro: fine_Inl)
    next
      case (Inr bd)
      obtain s vs h2 where f: "forward L w start e bd t (client_stream (tsClient v1)) (VideoStream v1) h1 = (s, vs, h2)"
        by (metis prod.exhaust)
      let ?v = "v1\<lparr>VideoStream := vs, tsClient := (tsClient v1)\<lparr>client_stream := s\<rparr>\<rparr>"
      have "play_segments L w start e (Suc i) (d_add L t (Duration (TsList v1 ! i))) ?v h2 = (r, v', h')"
        using Suc.prems True g f Inr by (subst (asm) play_segments.simps) (simp add: Let_def)
      moreover have "n = length (TsList ?v) - Suc i" using Suc.hyps(2) g by simp
      ultimately have "grows h2 h' \<and> fine r" using Suc.hyps(1) by blast
      with g1 forward_grows [OF f] show ?thesis by (blast intro: grows_trans)
    qed
  qed
qed

lemma report_playlist_grows: "grows h (report_playlist L w prev c h)"
  unfolding report_playlist_def Let_def by (simp add: grows_log)

lemma empty_round_grows: "empty_round L w c k v h = (r, k', v', h') \<Longrightarrow> grows h h' \<and> fine r"
proof -
  assume e: "empty_round L w c k v h = (r, k', v', h')"
  let ?d = "Duration (lastTs c)"
  let ?h = "Sleep (d_long L (d_mul L ?d (d_int L 1000))) (WriteLog w (''Sleep->'' @ d_show2 L ?d) h)"
  obtain r1 v1 h1 where 1: "ReadM3U8 w v ?h = (r1, v1, h1)" by (metis prod.exhaust)
  have "grows h ?h" by (simp add: grows_log)
  with ReadM3U8_grows [OF 1] have "grows h h1" "fine r1" by (blast intro: grows_trans)+
  with e 1 show ?thesis
    by (auto simp: empty_round_def Let_def grows_log split: if_splits sum.splits intro: fine_Inl)
qed

lemma segments_end_grows: "segments_end w k v h = (r, v', h') \<Longrightarrow> grows h h' \<and> fine r"
  by (auto simp: segments_end_def Let_def split: if_splits prod.splits sum.splits dest!: ReadM3U8_grows
      intro: fine_Inl)

lemma segments_round_grows: "segments_round L w start c k v h = (r, k', v', h') \<Longrightarrow> grows h h' \<and> fine r"
  by (auto simp: segments_round_def Let_def split: prod.splits sum.splits
      dest!: play_segments_grows segments_end_grows intro: fine_Inl grows_trans)

lemma read_records_grows: "read_records L w k v h = (r, k', v', h') \<Longrightarrow> grows h h' \<and> fine r"
  by (auto simp: read_records_def Let_def split: prod.splits sum.splits dest!: scan_records_grows
      intro: fine_Inl grows_trans [OF _ report_playlist_grows])

lemma viewer_round_grows: "viewer_round L w start k v h = (r, k', v', h') \<Longrightarrow> grows h h' \<and> fine r"
  by (auto simp: viewer_round_def Let_def split: prod.splits sum.splits if_splits
      dest!: read_records_grows empty_round_grows segments_round_grows intro: fine_Inl grows_trans)

lemma viewer_rounds_grows: "viewer_rounds L w start n k v h = (r, k', v', h') \<Longrightarrow> grows h h' \<and> fine r"
proof (induction n arbitrary: k v h)
  case (Suc n)
  obtain r1 k1 v1 h1 where 1: "viewer_round L w start k v h = (r1, k1, v1, h1)" by (metis prod.exhaust)
  note g = viewer_round_grows [OF 1]
  show ?case
  proof (cases "r1 = Inr True")
    case True
    with Suc 1 g show ?thesis by (auto intro: grows_trans)
  next
    case False
    with Suc.prems 1 g show ?thesis by (auto split: sum.splits bool.splits)
  qed
qed auto

lemma choose_stream_grows: "choose_stream L w v h = (r, v', h') \<Longrightarrow> grows h h' \<and> fine r"
proof -
  assume e: "choose_stream L w v h = (r, v', h')"
  show ?thesis
  proof (cases "stream_infos (hls_long_bits w) (PlayList v)")
    case (Inl x)
    then have "fine (Inl x :: hls_exn + unit)"
      using stream_infos_fine [of "hls_long_bits w" "PlayList v"] by (simp add: fine_Inl)
    with e Inl show ?thesis by (simp add: choose_stream_def)
  next
    case (Inr ss)
    with e show ?thesis
      by (auto simp: choose_stream_def Let_def split: if_splits dest!: ReadM3U8_grows intro: grows_trans [OF grows_WriteLog(1)])
  qed
qed

lemma greet_grows: "greet w v h = (v', h') \<Longrightarrow> grows h h'"
  by (auto simp: greet_def split: prod.splits dest!: stream_write_grows stream_flush_grows intro: grows_trans)

lemma Run_grows:
  assumes e: "Run L w n v h = (r, v', h')"
  shows "grows h h' \<and> fine r"
proof -
  obtain r1 v1 h1 where 1: "ReadM3U8 w v h = (r1, v1, h1)" by (metis prod.exhaust)
  obtain v2 h2 where 2: "greet w v1 h1 = (v2, h2)" by fastforce
  obtain r4 v4 h4 where 4: "choose_stream L w v2 h2 = (r4, v4, h4)" by (metis prod.exhaust)
  obtain r5 k5 v5 h5 where 5: "viewer_rounds L w (monotonic w (hls_calls h4)) n (loop_start L) v4 (tick h4) = (r5, k5, v5, h5)"
    by (metis prod.exhaust)
  note g1 = ReadM3U8_grows [OF 1] and g4 = choose_stream_grows [OF 4] and g5 = viewer_rounds_grows [OF 5]
  have g: "grows h h4" using g1 g4 greet_grows [OF 2] by (blast intro: grows_trans)
  then have "grows h h5" using g5 by (blast intro: grows_trans grows_tick(1))
  with e 1 2 4 5 g g1 g4 g5 show ?thesis
    by (auto simp: Run_def Let_def split: sum.splits intro: fine_Inl)
qed

lemma user_commands_grows: "user_commands w v i q h = (q', h') \<Longrightarrow> grows h h'"
proof (induction w v i q h rule: user_commands.induct)
  case (1 w v i q h)
  then show ?case
    by (subst (asm) (5) user_commands.simps) (auto simp: Let_def grows_log split: if_splits intro: grows_trans [OF grows_WriteLog(1)])
qed

lemma user_request_grows: "user_request w s q h = (r, q', h') \<Longrightarrow> grows h h'"
  by (auto simp: user_request_def Let_def split: if_splits option.splits prod.splits dest: user_commands_grows)

lemma VideoViewer_grows: "VideoViewer w q fd a h = (r, h') \<Longrightarrow> grows h h' \<and> fine r"
proof -
  assume e: "VideoViewer w q fd a h = (r, h')"
  obtain s h1 where 1: "stream_open fd a new_stream h = (s, h1)" by fastforce
  obtain req s1 where 2: "http_request s = (req, s1)" by fastforce
  have g1: "grows h h1" using 1 by (auto simp: stream_open_def dest: stream_close_grows split: prod.splits)
  then have g2: "grows h (snd (stream_close s1 h1))"
    using stream_close_grows [of s1 h1] grows_trans by (metis prod.collapse)
  have d: "fine (Inl x :: hls_exn + 'b viewer)" if "uri_decode y False = Inl x" for x y
    using decode_loop_fine [of y False False y] that by (simp add: uri_decode_def fine_Inl)
  have p: "fine (Inl x :: hls_exn + 'b viewer)" if "uri_parse y = Inl x" for x y
    using uri_parse_fine [of y] that by (simp add: fine_Inl)
  show ?thesis
  proof (cases "\<exists>p reqStr. req = Inr p \<and> uri_decode p False = Inr reqStr")
    case False
    with e 1 2 g2 http_request_fine [OF 2] d show ?thesis
      by (auto simp: VideoViewer_def Let_def split: sum.splits intro: fine_Inl)
  next
    case True
    then obtain p reqStr where t: "req = Inr p" "uri_decode p False = Inr reqStr" by blast
    obtain ru q2 h2 where 3: "user_request w reqStr q h1 = (ru, q2, h2)" by (metis prod.exhaust)
    have g3: "grows h h2" using g1 user_request_grows [OF 3] grows_trans by blast
    then have "grows h (snd (stream_close s1 h2))"
      using stream_close_grows [of s1 h2] grows_trans by (metis prod.collapse)
    with e 1 2 t 3 g3 show ?thesis
      by (auto simp: VideoViewer_def Let_def grows_log split: sum.splits dest: p)
  qed
qed

lemma sigactions_events: "sigactions w n h = (ok, h') \<Longrightarrow> hls_events h' = hls_events h"
  by (induction n arbitrary: h) (auto split: if_splits)

section \<open>The server\<close>

lemma child_setup_grows:
  "child_setup w fd s h = (r, s', h') \<Longrightarrow>
    grows (happen (CloseFd (ListenSocket s)) h) h' \<and> fine r \<and> s' = s\<lparr>ListenSocket := INVALID_SOCKET\<rparr>"
  by (auto simp: child_setup_def Let_def grows_log split: prod.splits if_splits dest!: sigactions_events)

lemma serve_child_grows:
  fixes L :: "'d stdlib"
  assumes e: "serve_child L w m q fd a s h = (r, s', h')"
  shows "grows (happen (CloseFd (ListenSocket s)) h) h' \<and> fine r \<and> ListenSocket s' = INVALID_SOCKET"
proof -
  obtain r1 s1 h1 where 1: "child_setup w fd s h = (r1, s1, h1)" by (metis prod.exhaust)
  obtain r2 :: "hls_exn + 'd viewer" and h2 where 2: "VideoViewer w q fd a h1 = (r2, h2)" by fastforce
  note g = child_setup_grows [OF 1] VideoViewer_grows [OF 2]
  then have g2: "grows (happen (CloseFd (ListenSocket s)) h) h2" by (blast intro: grows_trans)
  show ?thesis
  proof (cases r2)
    case (Inl x)
    with e 1 2 g g2 show ?thesis by (auto simp: serve_child_def split: sum.splits intro: fine_Inl)
  next
    case (Inr v)
    obtain r3 v3 h3 where 3: "Run L w m v h2 = (r3, v3, h3)" by (metis prod.exhaust)
    from e 1 2 Inr 3 g g2 Run_grows [OF 3] show ?thesis
      by (auto simp: serve_child_def split: sum.splits intro: grows_trans fine_Inl)
  qed
qed

text \<open>The actions other than log entries.\<close>

definition acts :: "hls_state \<Rightarrow> hls_event list" where
  "acts h = filter (\<lambda>e. case e of LogLine f m \<Rightarrow> False | _ \<Rightarrow> True) (hls_events h)"

lemma acts_simps [simp]:
  "acts (happen e h) = acts h @ (case e of LogLine f m \<Rightarrow> [] | _ \<Rightarrow> [e])" "acts (tick h) = acts h"
  "acts (WriteLog w m h) = acts h" "acts (WriteLogError w n h) = acts h"
  by (auto simp: acts_def WriteLog_def WriteLogError_def WriteBuf_def Let_def split: hls_event.split)

lemma grows_acts: "grows h h' \<Longrightarrow> \<exists>es. acts h' = acts h @ es \<and> list_all viewer_event es"
  by (auto simp: grows_def acts_def list_all_iff)

text \<open>What the parent does about one connection.\<close>

definition handed_over :: "int \<times> int \<Rightarrow> hls_event list" where
  "handed_over = (\<lambda>(fd, pid). [Accepted fd, Forked pid, CloseFd fd])"

text \<open>C13: the life of the server: it accepts, forks and closes the accepted socket again, connection by
  connection, also when \<open>fork\<close> fails. It ends by a signal, which closes the listening socket, or by an
  error of \<open>accept\<close>. A child closes the listening socket first, and never accepts, listens or forks.\<close>

theorem server_connections:
  "case accept_loop L w m q n s h of (r, s', h') \<Rightarrow>
     \<exists>cs tail. acts h' = acts h @ concat (map handed_over cs) @ tail \<and> list_all (\<lambda>(fd, pid). pid \<noteq> 0) cs \<and>
       length cs \<le> n \<and>
       (r = Inr True \<and> length cs = n \<and> tail = [] \<and> s' = s
        \<or> r = Inr False \<and> tail = [CloseFd (ListenSocket s)] \<and> s' = s\<lparr>ListenSocket := INVALID_SOCKET\<rparr>
        \<or> r = Inl (Exn ''accept failed'') \<and> tail = [] \<and> s' = s
        \<or> (\<exists>fd es. tail = [Accepted fd, Forked 0, CloseFd (ListenSocket s)] @ es \<and> list_all viewer_event es \<and>
             ListenSocket s' = INVALID_SOCKET))"
proof (induction n arbitrary: h)
  case 0
  show ?case by (auto intro!: exI [of _ "[]"])
next
  case (Suc n)
  obtain fd eintr where a: "accept_rc w (hls_calls h) = (fd, eintr)" by fastforce
  let ?h = "happen (Accepted fd) (tick h)"
  let ?pid = "fork_rc w (hls_calls ?h)"
  let ?h2 = "happen (Forked ?pid) (tick ?h)"
  consider (none) "fd = INVALID_SOCKET" | (child) "fd \<noteq> INVALID_SOCKET" "?pid = 0"
    | (parent) "fd \<noteq> INVALID_SOCKET" "?pid \<noteq> 0" by blast
  then show ?case
  proof cases
    case none
    let ?tail = "if eintr then [CloseFd (ListenSocket s)] else []"
    from none a show ?thesis by (auto simp: Let_def intro: exI [of _ "[]"] exI [of _ ?tail])
  next
    case child
    obtain r s' h' where c: "serve_child L w m q fd (arrivals w (hls_calls h)) s ?h2 = (r, s', h')" by (metis prod.exhaust)
    with a child have eq: "accept_loop L w m q (Suc n) s h = (r, s', h')" by (simp add: Let_def)
    obtain es where "acts h' = acts ?h2 @ CloseFd (ListenSocket s) # es" "list_all viewer_event es"
      using serve_child_grows [OF c] grows_acts by fastforce
    then show ?thesis unfolding eq prod.case using child serve_child_grows [OF c]
      by (intro exI [of _ "[]"] exI [of _ "[Accepted fd, Forked 0, CloseFd (ListenSocket s)] @ es"]) simp
  next
    case parent
    let ?h3 = "if ?pid < 0 then WriteLogError w 1 ?h2 else ?h2"
    have e: "accept_loop L w m q (Suc n) s h = accept_loop L w m q n s (happen (CloseFd fd) ?h3)"
      using a parent by (simp add: Let_def)
    have "acts (happen (CloseFd fd) ?h3) = acts h @ handed_over (fd, ?pid)" by (simp add: handed_over_def)
    obtain r s' h' where 1: "accept_loop L w m q n s (happen (CloseFd fd) ?h3) = (r, s', h')" by (metis prod.exhaust)
    from Suc.IH [of "happen (CloseFd fd) ?h3"] obtain cs tail where 2:
      "acts h' = acts (happen (CloseFd fd) ?h3) @ concat (map handed_over cs) @ tail" "list_all (\<lambda>(fd, pid). pid \<noteq> 0) cs"
      "length cs \<le> n"
      "r = Inr True \<and> length cs = n \<and> tail = [] \<and> s' = s
        \<or> r = Inr False \<and> tail = [CloseFd (ListenSocket s)] \<and> s' = s\<lparr>ListenSocket := INVALID_SOCKET\<rparr>
        \<or> r = Inl (Exn ''accept failed'') \<and> tail = [] \<and> s' = s
        \<or> (\<exists>fd es. tail = [Accepted fd, Forked 0, CloseFd (ListenSocket s)] @ es \<and> list_all viewer_event es \<and>
             ListenSocket s' = INVALID_SOCKET)"
      unfolding 1 by auto
    have "acts h' = acts h @ concat (map handed_over ((fd, ?pid) # cs)) @ tail"
      unfolding 2(1) \<open>acts (happen (CloseFd fd) ?h3) = acts h @ handed_over (fd, ?pid)\<close> by simp
    moreover have "list_all (\<lambda>(fd, pid). pid \<noteq> 0) ((fd, ?pid) # cs)" "length ((fd, ?pid) # cs) \<le> Suc n"
      using 2(2,3) parent(2) by simp_all
    ultimately show ?thesis using 2(4) unfolding e 1 prod.case
      by (intro exI [of _ "(fd, ?pid) # cs"] exI [of _ tail]) auto
  qed
qed

lemma accept_loop_fine:
  fixes L :: "'d stdlib"
  shows "accept_loop L w m q n s h = (r, s', h') \<Longrightarrow> fine r"
proof (induction n arbitrary: h)
  case (Suc n)
  then show ?case by (auto simp: Let_def split: if_splits prod.splits dest: serve_child_grows)
qed auto

text \<open>Of all exceptions that leave the server or a viewer, whatever the network sends, a number is
  thrown for a bad hexadecimal digit only, and it selects a message inside the array of messages.\<close>

theorem thrown_numbers:
  "case HttpServer_Run L w n m g s h of (r, s', h') \<Rightarrow>
     (case r of Inl (IntExn k) \<Rightarrow> k < length errMessages \<and> errMessages ! k = ''URI encoding: not a hex digit'' | _ \<Rightarrow> True)"
proof -
  obtain r s' h' where 1: "HttpServer_Run L w n m g s h = (r, s', h')" by (metis prod.exhaust)
  have "fine r"
    using 1 by (auto simp: HttpServer_Run_def Let_def split: if_splits dest: accept_loop_fine)
  with 1 show ?thesis by (auto simp: fine_def errMessages_def split: sum.splits hls_exn.splits)
qed

section \<open>A viewer that gets nothing new\<close>

lemma viewer_rounds_add:
  "viewer_rounds L w start (n + i) k v h =
     (case viewer_rounds L w start n k v h of
        (Inr True, k, v, h) \<Rightarrow> viewer_rounds L w start i k v h
      | (r, k, v, h) \<Rightarrow> (r, k, v, h))"
  by (induction n arbitrary: k v h) (auto split: prod.splits sum.splits bool.splits)

lemma viewer_rounds_next:
  assumes "viewer_rounds L w start n k v h = (Inr True, k1, v1, h1)"
    and "viewer_rounds L w start (n + 1) k v h = (Inr True, k2, v2, h2)"
  shows "viewer_round L w start k1 v1 h1 = (Inr True, k2, v2, h2)"
  using assms(2) unfolding viewer_rounds_add [of L w start n] assms(1)
  by (auto split: prod.splits sum.splits bool.splits)

text \<open>Whether the playlist a pass starts with has a new segment.\<close>

definition has_new :: "'d stdlib \<Rightarrow> hls_world \<Rightarrow> 'd loop_state \<Rightarrow> 'd viewer \<Rightarrow> hls_state \<Rightarrow> bool" where
  "has_new L w k v h \<longleftrightarrow>
     (case fst (scan_records L w (PlayList v) (scan_start L (TsList v) (endSeen k)) h) of
        Inl e \<Rightarrow> False
      | Inr c \<Rightarrow> addedTs c \<noteq> 0)"

lemma viewer_round_empty:
  assumes "viewer_round L w start k v h = (Inr True, k', v', h')" and "\<not> has_new L w k v h"
  shows "emptCnt k \<le> 4 \<and> emptCnt k' = emptCnt k + 1"
proof -
  obtain r1 h1 where 1: "scan_records L w (PlayList v) (scan_start L (TsList v) (endSeen k)) h = (r1, h1)" by fastforce
  then obtain c where c: "r1 = Inr c" using assms(1) by (cases r1) (auto simp: viewer_round_def read_records_def)
  then have "addedTs c = 0" using assms(2) 1 by (simp add: has_new_def)
  with assms(1) 1 c show ?thesis
    by (auto simp: viewer_round_def read_records_def empty_round_def Let_def split: if_splits sum.splits prod.splits)
qed

text \<open>C16: a viewer does not wait for ever: in any six passes in a row that all go on to a next pass, at
  least one started with a playlist that had a new segment.\<close>

theorem stalled_viewer_ends:
  "case viewer_rounds L w start (n + 6) k v h of
     (Inr True, _) \<Rightarrow>
       (\<exists>i < 6. \<exists>k1 v1 h1. viewer_rounds L w start (n + i) k v h = (Inr True, k1, v1, h1) \<and> has_new L w k1 v1 h1)
   | _ \<Rightarrow> True"
proof -
  have "\<exists>i < 6. \<exists>k1 v1 h1. viewer_rounds L w start (n + i) k v h = (Inr True, k1, v1, h1) \<and> has_new L w k1 v1 h1"
    if run: "viewer_rounds L w start (n + 6) k v h = (Inr True, k', v', h')" for k' v' h'
  proof (rule ccontr)
    assume no: "\<not> ?thesis"
    have ran: "\<exists>k1 v1 h1. viewer_rounds L w start (n + i) k v h = (Inr True, k1, v1, h1)" if "i \<le> 6" for i
    proof -
      have "viewer_rounds L w start (n + i + (6 - i)) k v h = (Inr True, k', v', h')" using run that by simp
      then show ?thesis
        unfolding viewer_rounds_add [of L w start "n + i"] by (auto split: prod.splits sum.splits bool.splits)
    qed
    have "\<exists>k1 v1 h1. viewer_rounds L w start (n + i) k v h = (Inr True, k1, v1, h1) \<and> i \<le> emptCnt k1" if "i \<le> 5" for i
      using that
    proof (induction i)
      case 0
      then show ?case using ran [of 0] by auto
    next
      case (Suc i)
      then obtain k1 v1 h1 where 1: "viewer_rounds L w start (n + i) k v h = (Inr True, k1, v1, h1)" "i \<le> emptCnt k1"
        by auto
      obtain k2 v2 h2 where 2: "viewer_rounds L w start (n + i + 1) k v h = (Inr True, k2, v2, h2)"
        using ran [of "Suc i"] Suc.prems by auto
      from viewer_rounds_next [OF 1(1) 2] have "viewer_round L w start k1 v1 h1 = (Inr True, k2, v2, h2)" .
      moreover have "i < 6" using Suc.prems by simp
      with no 1(1) have "\<not> has_new L w k1 v1 h1" by blast
      ultimately show ?case using viewer_round_empty 1(2) 2 by fastforce
    qed
    from this [of 5] obtain k1 v1 h1 where
      1: "viewer_rounds L w start (n + 5) k v h = (Inr True, k1, v1, h1)" "5 \<le> emptCnt k1" by auto
    have "viewer_rounds L w start (n + 5 + 1) k v h = (Inr True, k', v', h')"
      using run by (simp add: add.commute [of n])
    from viewer_rounds_next [OF 1(1) this] have "viewer_round L w start k1 v1 h1 = (Inr True, k', v', h')" .
    moreover have "(5 :: nat) < 6" by simp
    with no 1(1) have "\<not> has_new L w k1 v1 h1" by blast
    ultimately show False using viewer_round_empty 1(2) by fastforce
  qed
  then show ?thesis by (auto split: prod.split sum.split bool.split)
qed

end
