(* ===== verification/HlsChild.thy ===== *)
theory HlsChild
  imports HlsTrace
begin

text \<open>
  The child as a state machine, so that \<open>SIGHUP\<close> can come between any two of its steps: the points of
  its program, the step of each, the step relation with signals, and the proof that without a signal
  the machine does what \<open>serve_child\<close> does. A signal inside a step (inside a library call) is not modelled.
\<close>

section \<open>Points and steps\<close>

text \<open>Where the child is: before \<open>sigaction\<close>, before the constructor of the viewer, in \<open>Run\<close> before
  the first playlist, before the header, before the choice of a stream, at the top of the endless loop,
  at the top of the loop over the segments (\<open>readPos\<close>), at the top of the inner loop, between its read
  and its write, after \<open>Run\<close>, after the end. The parameters are the variables that are live there.\<close>

datatype 'd point =
    Enter | Construct | Begin | Greet | Choose
  | Pass "int \<times> int" "'d loop_state"
  | Segment "int \<times> int" "'d loop_state" nat
  | Block "int \<times> int" "'d loop_state" nat 'd 'd
  | Put "int \<times> int" "'d loop_state" nat 'd 'd string
  | Returned "hls_exn option"
  | Exited "int option"

text \<open>After a pass.\<close>

definition after_pass :: "int \<times> int \<Rightarrow> 'd loop_state \<Rightarrow> hls_exn + bool \<Rightarrow> 'd point" where
  "after_pass start k r =
     (case r of Inl e \<Rightarrow> Returned (Some e) | Inr True \<Rightarrow> Pass start k | Inr False \<Rightarrow> Returned None)"

text \<open>The steps of \<open>Run\<close>.\<close>

fun viewer_next ::
  "'d stdlib \<Rightarrow> hls_world \<Rightarrow> 'd point \<Rightarrow> 'd viewer \<Rightarrow> hls_state \<Rightarrow> 'd point \<times> 'd viewer \<times> hls_state" where
  "viewer_next L w Begin v h =
     (case ReadM3U8 w v h of
        (Inl e, v, h) \<Rightarrow> (Returned (Some e), v, h)
      | (Inr _, v, h) \<Rightarrow> (Greet, v, h))"
| "viewer_next L w Greet v h = (Choose, greet w v h)"
| "viewer_next L w Choose v h =
     (case choose_stream L w v h of
        (Inl e, v, h) \<Rightarrow> (Returned (Some e), v, h)
      | (Inr _, v, h) \<Rightarrow> (let (start, h) = stopwatch_start w h in (Pass start (loop_start L), v, h)))"
| "viewer_next L w (Pass start k) v h =
     (case read_records L w k v h of
        (Inl e, k, v, h) \<Rightarrow> (Returned (Some e), v, h)
      | (Inr c, k, v, h) \<Rightarrow>
          if addedTs c = 0 then (let (r, k, v, h) = empty_round L w c k v h in (after_pass start k r, v, h))
          else (let (k, v, i) = cut_history c k v in (Segment start k i, v, h)))"
| "viewer_next L w (Segment start k i) v h =
     (if i < length (TsList v) \<and> stream_good (VideoStream v) then
        (case open_segment L w i v h of
           (Inl e, v, h) \<Rightarrow> (Returned (Some e), v, h)
         | (Inr byteDelay, v, h) \<Rightarrow> (Block start k i byteDelay (m3uTime k), v, h))
      else (let (r, v, h) = segments_end w k v h in (after_pass start k r, v, h)))"
| "viewer_next L w (Block start k i byteDelay tsTime) v h =
     (if stream_good (client_stream (tsClient v)) \<and> stream_good (VideoStream v) then
        let (x, s) = stream_read TS_BUF_LEN (client_stream (tsClient v))
        in (Put start k i byteDelay tsTime x, v\<lparr>tsClient := (tsClient v)\<lparr>client_stream := s\<rparr>\<rparr>, h)
      else (Segment start (k\<lparr>m3uTime := d_add L (m3uTime k) (Duration (TsList v ! i))\<rparr>) (Suc i), v, h))"
| "viewer_next L w (Put start k i byteDelay tsTime x) v h =
     (let (tsTime, s, h) = write_block L w start (endSeen k) byteDelay tsTime x (VideoStream v) h
      in (Block start k i byteDelay tsTime, v\<lparr>VideoStream := s\<rparr>, h))"
| "viewer_next L w p v h = (p, v, h)"

definition returned :: "hls_exn option \<Rightarrow> hls_exn + bool" where
  "returned e = (case e of None \<Rightarrow> Inr False | Some x \<Rightarrow> Inl x)"

type_synonym 'd child = "'d point \<times> 'd server \<times> hls_state"

text \<open>The steps of the child; the last is the end of \<open>main\<close>.\<close>

definition child_next ::
  "'d stdlib \<Rightarrow> hls_world \<Rightarrow> video_quality \<Rightarrow> int \<Rightarrow> recv_answer list \<Rightarrow> 'd child \<Rightarrow> 'd child" where
  "child_next L w q ClientSocket arriving_there = (\<lambda>(p, s, h).
     case p of
       Enter \<Rightarrow>
         (case child_setup w ClientSocket s h of
            (Inl e, s, h) \<Rightarrow> (Returned (Some e), s, h)
          | (Inr _, s, h) \<Rightarrow> (Construct, s, h))
     | Construct \<Rightarrow>
         (case VideoViewer w q ClientSocket arriving_there h of
            (Inl e, h) \<Rightarrow> (Returned (Some e), s, h)
          | (Inr v, h) \<Rightarrow> (Begin, s\<lparr>vview := Some v\<rparr>, h))
     | Returned e \<Rightarrow> (let (rc, h) = hls_finish w (returned e, s, h) in (Exited rc, s, h))
     | Exited rc \<Rightarrow> (p, s, h)
     | _ \<Rightarrow>
         (case vview s of
            None \<Rightarrow> (p, s, h)
          | Some v \<Rightarrow> (let (p, v, h) = viewer_next L w p v h in (p, s\<lparr>vview := Some v\<rparr>, h))))"

text \<open>What a step at this point writes to the player.\<close>

fun puts :: "'d point \<Rightarrow> string" where
  "puts Greet = response_header"
| "puts (Put start k i byteDelay tsTime x) = x"
| "puts _ = []"

fun exited :: "'d point \<Rightarrow> bool" where
  "exited (Exited rc) = True"
| "exited _ = False"

text \<open>The signal has the handler from \<open>sigaction\<close> on; before, it ends the process at once.\<close>

definition handled :: "'d point \<Rightarrow> bool" where
  "handled p \<longleftrightarrow> p \<noteq> Enter \<and> \<not> exited p"

datatype act = Wrote string | Hup

inductive child_step ::
  "'d stdlib \<Rightarrow> hls_world \<Rightarrow> video_quality \<Rightarrow> int \<Rightarrow> recv_answer list \<Rightarrow> 'd child \<Rightarrow> act \<Rightarrow> 'd child \<Rightarrow> bool"
  for L w q fd a where
  run: "\<not> exited p \<Longrightarrow> child_step L w q fd a (p, s, h) (Wrote (puts p)) (child_next L w q fd a (p, s, h))"
| hup: "handled p \<Longrightarrow> handle_SIGHUP s h = (s', h') \<Longrightarrow> child_step L w q fd a (p, s, h) Hup (p, s', h')"

inductive_cases child_stepE: "child_step L w q fd a c x c'"

inductive child_steps ::
  "'d stdlib \<Rightarrow> hls_world \<Rightarrow> video_quality \<Rightarrow> int \<Rightarrow> recv_answer list \<Rightarrow> 'd child \<Rightarrow> act list \<Rightarrow> 'd child \<Rightarrow> bool"
  for L w q fd a c where
  none: "child_steps L w q fd a c [] c"
| more: "child_steps L w q fd a c xs c' \<Longrightarrow> child_step L w q fd a c' x c'' \<Longrightarrow>
    child_steps L w q fd a c (xs @ [x]) c''"

text \<open>All that was written to the player, and the number of steps of the program.\<close>

definition written :: "act list \<Rightarrow> string" where
  "written xs = concat (map (\<lambda>x. case x of Wrote d \<Rightarrow> d | Hup \<Rightarrow> []) xs)"

definition program_steps :: "act list \<Rightarrow> nat" where
  "program_steps xs = length (filter (\<lambda>x. x \<noteq> Hup) xs)"

lemma written_simps [simp]:
  "written [] = []" "written (xs @ ys) = written xs @ written ys" "written [Wrote d] = d" "written [Hup] = []"
  by (simp_all add: written_def)

lemma program_steps_simps [simp]:
  "program_steps [] = 0" "program_steps (xs @ [Wrote d]) = Suc (program_steps xs)"
  "program_steps (xs @ [Hup]) = program_steps xs"
  by (simp_all add: program_steps_def)

section \<open>Without signals: the machine and \<open>serve_child\<close>\<close>

lemma child_next_simps [simp]:
  "child_next L w q fd a (Exited rc, s, h) = (Exited rc, s, h)"
  "child_next L w q fd a (Returned e, s, h) = (Exited (fst (hls_finish w (returned e, s, h))), s, snd (hls_finish w (returned e, s, h)))"
  "child_next L w q fd a (Pass start k, s\<lparr>vview := Some v\<rparr>, h) =
     (case viewer_next L w (Pass start k) v h of (p, v, h) \<Rightarrow> (p, s\<lparr>vview := Some v\<rparr>, h))"
  "child_next L w q fd a (Segment start k i, s\<lparr>vview := Some v\<rparr>, h) =
     (case viewer_next L w (Segment start k i) v h of (p, v, h) \<Rightarrow> (p, s\<lparr>vview := Some v\<rparr>, h))"
  "child_next L w q fd a (Block start k i bd t, s\<lparr>vview := Some v\<rparr>, h) =
     (case viewer_next L w (Block start k i bd t) v h of (p, v, h) \<Rightarrow> (p, s\<lparr>vview := Some v\<rparr>, h))"
  "child_next L w q fd a (Put start k i bd t x, s\<lparr>vview := Some v\<rparr>, h) =
     (case viewer_next L w (Put start k i bd t x) v h of (p, v, h) \<Rightarrow> (p, s\<lparr>vview := Some v\<rparr>, h))"
  "child_next L w q fd a (Begin, s\<lparr>vview := Some v\<rparr>, h) =
     (case viewer_next L w Begin v h of (p, v, h) \<Rightarrow> (p, s\<lparr>vview := Some v\<rparr>, h))"
  "child_next L w q fd a (Greet, s\<lparr>vview := Some v\<rparr>, h) =
     (case viewer_next L w Greet v h of (p, v, h) \<Rightarrow> (p, s\<lparr>vview := Some v\<rparr>, h))"
  "child_next L w q fd a (Choose, s\<lparr>vview := Some v\<rparr>, h) =
     (case viewer_next L w Choose v h of (p, v, h) \<Rightarrow> (p, s\<lparr>vview := Some v\<rparr>, h))"
  by (simp_all add: child_next_def split: prod.split)

definition runs_to ::
  "'d stdlib \<Rightarrow> hls_world \<Rightarrow> video_quality \<Rightarrow> int \<Rightarrow> recv_answer list \<Rightarrow> 'd child \<Rightarrow> 'd child \<Rightarrow> bool" where
  "runs_to L w q fd a c c' \<longleftrightarrow> (\<exists>n. (child_next L w q fd a ^^ n) c = c')"

lemma runs_to_refl [simp]: "runs_to L w q fd a c c"
  unfolding runs_to_def by (rule exI [of _ 0]) simp

lemma runs_to_trans: "runs_to L w q fd a c c' \<Longrightarrow> runs_to L w q fd a c' c'' \<Longrightarrow> runs_to L w q fd a c c''"
  unfolding runs_to_def by (metis comp_apply funpow_add)

lemma runs_to_step: "child_next L w q fd a c = c' \<Longrightarrow> runs_to L w q fd a c' c'' \<Longrightarrow> runs_to L w q fd a c c''"
  unfolding runs_to_def by (metis comp_apply funpow_Suc_right)

lemma forward_runs:
  fixes v :: "'d viewer"
  assumes "forward L w start (endSeen k) bd t ts vs h = (ts', vs', h')"
    and "client_stream (tsClient v) = ts" and "VideoStream v = vs"
  shows "runs_to L w q fd a (Block start k i bd t, s\<lparr>vview := Some v\<rparr>, h)
    (Segment start (k\<lparr>m3uTime := d_add L (m3uTime k) (Duration (TsList v ! i))\<rparr>) (Suc i),
     s\<lparr>vview := Some (v\<lparr>VideoStream := vs', tsClient := (tsClient v)\<lparr>client_stream := ts'\<rparr>\<rparr>)\<rparr>, h')"
  using assms
proof (induction L w start "endSeen k" bd t ts vs h arbitrary: v rule: forward.induct)
  case (1 L w start bd t ts vs h)
  show ?case
  proof (cases "stream_good ts \<and> stream_good vs")
    case False
    then have "ts' = ts" "vs' = vs" "h' = h" using "1.prems"(1) forward_stop by (metis prod.inject)+
    moreover have "v\<lparr>VideoStream := vs, tsClient := (tsClient v)\<lparr>client_stream := ts\<rparr>\<rparr> = v" using "1.prems"(2,3) by auto
    ultimately show ?thesis using False "1.prems"(2,3) by (intro runs_to_step [OF _ runs_to_refl]) auto
  next
    case True
    obtain x ts1 where r: "stream_read TS_BUF_LEN ts = (x, ts1)" by fastforce
    obtain t1 vs1 h1 where b: "write_block L w start (endSeen k) bd t x vs h = (t1, vs1, h1)" by (metis prod.exhaust)
    have f: "forward L w start (endSeen k) bd t1 ts1 vs1 h1 = (ts', vs', h')"
      using "1.prems"(1) True r b by (subst (asm) forward.simps) simp
    let ?v = "v\<lparr>tsClient := (tsClient v)\<lparr>client_stream := ts1\<rparr>\<rparr>"
    have 1: "child_next L w q fd a (Block start k i bd t, s\<lparr>vview := Some v\<rparr>, h) = (Put start k i bd t x, s\<lparr>vview := Some ?v\<rparr>, h)"
      using True r "1.prems"(2,3) by simp
    have 2: "child_next L w q fd a (Put start k i bd t x, s\<lparr>vview := Some ?v\<rparr>, h) =
        (Block start k i bd t1, s\<lparr>vview := Some (?v\<lparr>VideoStream := vs1\<rparr>)\<rparr>, h1)"
      using b "1.prems"(3) by simp
    have "runs_to L w q fd a (Block start k i bd t1, s\<lparr>vview := Some (?v\<lparr>VideoStream := vs1\<rparr>)\<rparr>, h1)
      (Segment start (k\<lparr>m3uTime := d_add L (m3uTime k) (Duration (TsList (?v\<lparr>VideoStream := vs1\<rparr>) ! i))\<rparr>) (Suc i),
       s\<lparr>vview := Some (?v\<lparr>VideoStream := vs1, VideoStream := vs',
         tsClient := (tsClient (?v\<lparr>VideoStream := vs1\<rparr>))\<lparr>client_stream := ts'\<rparr>\<rparr>)\<rparr>, h')"
      by (rule "1.hyps" [OF True r [symmetric] refl b [symmetric] refl refl f]) simp_all
    then have "runs_to L w q fd a (Block start k i bd t1, s\<lparr>vview := Some (?v\<lparr>VideoStream := vs1\<rparr>)\<rparr>, h1)
      (Segment start (k\<lparr>m3uTime := d_add L (m3uTime k) (Duration (TsList v ! i))\<rparr>) (Suc i),
       s\<lparr>vview := Some (v\<lparr>VideoStream := vs', tsClient := (tsClient v)\<lparr>client_stream := ts'\<rparr>\<rparr>)\<rparr>, h')"
      by simp
    then show ?thesis by (rule runs_to_step [OF 1 runs_to_step [OF 2]])
  qed
qed

lemma play_segments_runs:
  "play_segments L w start (endSeen k) i (m3uTime k) v h = (r, v', h') \<Longrightarrow>
    (case r of
       Inl e \<Rightarrow> runs_to L w q fd a (Segment start k i, s\<lparr>vview := Some v\<rparr>, h) (Returned (Some e), s\<lparr>vview := Some v'\<rparr>, h')
     | Inr t \<Rightarrow> \<exists>j. \<not> (j < length (TsList v') \<and> stream_good (VideoStream v')) \<and>
         runs_to L w q fd a (Segment start k i, s\<lparr>vview := Some v\<rparr>, h)
           (Segment start (k\<lparr>m3uTime := t\<rparr>) j, s\<lparr>vview := Some v'\<rparr>, h'))"
proof (induction "length (TsList v) - i" arbitrary: i k v h rule: less_induct)
  case less
  show ?case
  proof (cases "i < length (TsList v) \<and> stream_good (VideoStream v)")
    case False
    with less.prems have "r = Inr (m3uTime k)" "v' = v" "h' = h" by (subst (asm) play_segments.simps, simp)+
    with False show ?thesis by (auto intro!: exI [of _ i])
  next
    case True
    obtain r1 v1 h1 where g: "open_segment L w i v h = (r1, v1, h1)" by (metis prod.exhaust)
    show ?thesis
    proof (cases r1)
      case (Inl e)
      with less.prems True g have "r = Inl e" "v' = v1" "h' = h1" by (subst (asm) play_segments.simps, simp)+
      with True g Inl show ?thesis by (auto intro: runs_to_step [OF _ runs_to_refl])
    next
      case (Inr bd)
      obtain ts vs h2 where f: "forward L w start (endSeen k) bd (m3uTime k) (client_stream (tsClient v1)) (VideoStream v1) h1 = (ts, vs, h2)"
        by (metis prod.exhaust)
      let ?v = "v1\<lparr>VideoStream := vs, tsClient := (tsClient v1)\<lparr>client_stream := ts\<rparr>\<rparr>"
      let ?k = "k\<lparr>m3uTime := d_add L (m3uTime k) (Duration (TsList v1 ! i))\<rparr>"
      have p: "play_segments L w start (endSeen ?k) (Suc i) (m3uTime ?k) ?v h2 = (r, v', h')"
        using less.prems True g f Inr by (subst (asm) play_segments.simps) (simp add: Let_def)
      have 1: "child_next L w q fd a (Segment start k i, s\<lparr>vview := Some v\<rparr>, h) =
          (Block start k i bd (m3uTime k), s\<lparr>vview := Some v1\<rparr>, h1)" using True g Inr by simp
      note 2 = forward_runs [OF f refl refl, where i = i and s = s and q = q and fd = fd and a = a]
      have 3: "runs_to L w q fd a (Segment start k i, s\<lparr>vview := Some v\<rparr>, h) (Segment start ?k (Suc i), s\<lparr>vview := Some ?v\<rparr>, h2)"
        by (rule runs_to_step [OF 1 2])
      have "length (TsList ?v) - Suc i < length (TsList v) - i" using True g by auto
      from less.hyps [OF this p] show ?thesis by (auto split: sum.splits intro: runs_to_trans [OF 3])
    qed
  qed
qed

lemma segments_end_step:
  assumes "segments_end w k v h = (r, v', h')" and "\<not> (j < length (TsList v) \<and> stream_good (VideoStream v))"
  shows "runs_to L w q fd a (Segment start k j, s\<lparr>vview := Some v\<rparr>, h) (after_pass start k r, s\<lparr>vview := Some v'\<rparr>, h')"
  by (rule runs_to_step [OF _ runs_to_refl])
    (simp only: child_next_simps viewer_next.simps if_not_P [OF assms(2)] assms(1) Let_def prod.case)

text \<open>A pass takes at least one step.\<close>

lemma viewer_round_runs:
  assumes "viewer_round L w start k v h = (r, k', v', h')"
  shows "\<exists>c. child_next L w q fd a (Pass start k, s\<lparr>vview := Some v\<rparr>, h) = c \<and>
    runs_to L w q fd a c (after_pass start k' r, s\<lparr>vview := Some v'\<rparr>, h')"
proof -
  obtain r1 k1 v1 h1 where 1: "read_records L w k v h = (r1, k1, v1, h1)" by (metis prod.exhaust)
  show ?thesis
  proof (cases r1)
    case (Inl e)
    with assms 1 show ?thesis by (auto simp: viewer_round_def after_pass_def)
  next
    case (Inr c)
    show ?thesis
    proof (cases "addedTs c = 0")
      case True
      with assms 1 Inr show ?thesis by (auto simp: viewer_round_def)
    next
      case False
      obtain k2 v2 i where 2: "cut_history c k1 v1 = (k2, v2, i)" by (metis prod.exhaust)
      obtain r3 v3 h3 where 3: "play_segments L w start (endSeen k2) i (m3uTime k2) v2 h1 = (r3, v3, h3)"
        by (metis prod.exhaust)
      have n: "child_next L w q fd a (Pass start k, s\<lparr>vview := Some v\<rparr>, h) = (Segment start k2 i, s\<lparr>vview := Some v2\<rparr>, h1)"
        using 1 2 Inr False by simp
      note p = play_segments_runs [OF 3, where q = q and fd = fd and a = a and s = s]
      have "runs_to L w q fd a (Segment start k2 i, s\<lparr>vview := Some v2\<rparr>, h1) (after_pass start k' r, s\<lparr>vview := Some v'\<rparr>, h')"
      proof (cases r3)
        case e: (Inl e)
        with assms 1 2 3 Inr False p show ?thesis
          by (auto simp: viewer_round_def segments_round_def after_pass_def)
      next
        case t: (Inr t)
        let ?k = "k2\<lparr>m3uTime := t\<rparr>"
        from p t obtain j where j: "\<not> (j < length (TsList v3) \<and> stream_good (VideoStream v3))"
          "runs_to L w q fd a (Segment start k2 i, s\<lparr>vview := Some v2\<rparr>, h1) (Segment start ?k j, s\<lparr>vview := Some v3\<rparr>, h3)"
          by auto
        have "segments_end w ?k v3 h3 = (r, v', h')" "k' = ?k"
          using assms 1 2 3 Inr False t by (auto simp: viewer_round_def segments_round_def Let_def split: prod.splits)
        with segments_end_step [OF this(1) j(1), of L q fd a start s] j(2) show ?thesis
          by (simp only:) (rule runs_to_trans)
      qed
      with n show ?thesis by blast
    qed
  qed
qed

lemma viewer_rounds_runs:
  "viewer_rounds L w start n k v h = (r, k', v', h') \<Longrightarrow>
    \<exists>j. (r = Inr True \<longrightarrow> n \<le> j) \<and> (child_next L w q fd a ^^ j) (Pass start k, s\<lparr>vview := Some v\<rparr>, h) =
      (after_pass start k' r, s\<lparr>vview := Some v'\<rparr>, h')"
proof (induction n arbitrary: k v h)
  case 0
  then show ?case by (auto simp: after_pass_def intro: exI [of _ 0])
next
  case (Suc n)
  obtain r1 k1 v1 h1 where 1: "viewer_round L w start k v h = (r1, k1, v1, h1)" by (metis prod.exhaust)
  from viewer_round_runs [OF 1] obtain i where i:
    "(child_next L w q fd a ^^ Suc i) (Pass start k, s\<lparr>vview := Some v\<rparr>, h) = (after_pass start k1 r1, s\<lparr>vview := Some v1\<rparr>, h1)"
    unfolding runs_to_def funpow_Suc_right comp_apply by metis
  show ?case
  proof (cases "r1 = Inr True")
    case True
    with Suc.prems 1 have "viewer_rounds L w start n k1 v1 h1 = (r, k', v', h')" by simp
    from Suc.IH [OF this] obtain j where j: "r = Inr True \<longrightarrow> n \<le> j"
      "(child_next L w q fd a ^^ j) (Pass start k1, s\<lparr>vview := Some v1\<rparr>, h1) = (after_pass start k' r, s\<lparr>vview := Some v'\<rparr>, h')"
      by blast
    have "(child_next L w q fd a ^^ (j + Suc i)) (Pass start k, s\<lparr>vview := Some v\<rparr>, h) =
        (after_pass start k' r, s\<lparr>vview := Some v'\<rparr>, h')"
      using i j(2) True by (simp only: funpow_add comp_apply) (simp add: after_pass_def)
    with j(1) show ?thesis by (intro exI [of _ "j + Suc i"]) auto
  next
    case False
    with Suc.prems 1 have "r = r1" "k' = k1" "v' = v1" "h' = h1" by (auto split: sum.splits bool.splits)
    with i False show ?thesis by blast
  qed
qed

lemma funpow_back: "f c = c1 \<Longrightarrow> (f ^^ j) c1 = c2 \<Longrightarrow> (f ^^ Suc j) c = c2"
  by (simp add: funpow_Suc_right del: funpow.simps)

lemma after_pass_returned: "r \<noteq> Inr True \<Longrightarrow> \<exists>e. r = returned e \<and> after_pass start k r = Returned e"
proof (cases r)
  case (Inl x)
  then show ?thesis by (intro exI [of _ "Some x"]) (simp add: after_pass_def returned_def)
next
  case (Inr b)
  assume "r \<noteq> Inr True"
  with Inr show ?thesis by (intro exI [of _ None]) (cases b, simp_all add: after_pass_def returned_def)
qed

lemma Run_runs:
  fixes v :: "'d viewer"
  assumes "Run L w m v h = (r, v', h')"
  shows "\<exists>j p. (if r = Inr True then m \<le> j \<and> (\<exists>start k. p = Pass start k) else \<exists>e. r = returned e \<and> p = Returned e) \<and>
    (child_next L w q fd a ^^ j) (Begin, s\<lparr>vview := Some v\<rparr>, h) = (p, s\<lparr>vview := Some v'\<rparr>, h')"
proof -
  let ?N = "child_next L w q fd a"
  note first = funpow_back [where f = ?N]
  have fail: "\<exists>j p. (if r = Inr True then m \<le> j \<and> (\<exists>start k. p = Pass start k) else \<exists>e. r = returned e \<and> p = Returned e) \<and>
      (?N ^^ j) c = (p, s\<lparr>vview := Some v'\<rparr>, h')"
    if "r = Inl e" "(?N ^^ j) c = (Returned (Some e), s\<lparr>vview := Some v'\<rparr>, h')" for c e j
    using that by (auto intro!: exI [of _ j] exI [of _ "Returned (Some e)"] exI [of _ "Some e"] simp: returned_def)
  obtain r1 v1 h1 where 1: "ReadM3U8 w v h = (r1, v1, h1)" by (metis prod.exhaust)
  show ?thesis
  proof (cases r1)
    case (Inl e)
    with assms 1 have "r = Inl e" "v' = v1" "h' = h1" by (simp_all add: Run_def)
    moreover have "?N (Begin, s\<lparr>vview := Some v\<rparr>, h) = (Returned (Some e), s\<lparr>vview := Some v1\<rparr>, h1)" using 1 Inl by simp
    ultimately show ?thesis by (intro fail [of e 1]) simp_all
  next
    case (Inr u)
    obtain v2 h2 where 2: "greet w v1 h1 = (v2, h2)" by fastforce
    obtain r3 v3 h3 where 3: "choose_stream L w v2 h2 = (r3, v3, h3)" by (metis prod.exhaust)
    have n1: "?N (Begin, s\<lparr>vview := Some v\<rparr>, h) = (Greet, s\<lparr>vview := Some v1\<rparr>, h1)" using 1 Inr by simp
    have n2: "?N (Greet, s\<lparr>vview := Some v1\<rparr>, h1) = (Choose, s\<lparr>vview := Some v2\<rparr>, h2)" using 2 by simp
    show ?thesis
    proof (cases r3)
      case e: (Inl e)
      with assms 1 2 3 Inr have eqs: "r = Inl e" "v' = v3" "h' = h3" by (simp_all add: Run_def)
      have n3: "?N (Choose, s\<lparr>vview := Some v2\<rparr>, h2) = (Returned (Some e), s\<lparr>vview := Some v3\<rparr>, h3)"
        using 3 e by simp
      have run: "(?N ^^ Suc (Suc (Suc 0))) (Begin, s\<lparr>vview := Some v\<rparr>, h) = (Returned (Some e), s\<lparr>vview := Some v3\<rparr>, h3)"
        by (rule first [OF n1 first [OF n2 first [OF n3]]]) simp
      show ?thesis by (rule fail [OF eqs(1)], unfold eqs, rule run)
    next
      case u: (Inr u')
      let ?start = "monotonic w (hls_calls h3)"
      obtain k4 where 4: "viewer_rounds L w ?start m (loop_start L) v3 (tick h3) = (r, k4, v', h')"
        using assms 1 2 3 Inr u by (auto simp: Run_def Let_def split: prod.splits)
      have n3: "?N (Choose, s\<lparr>vview := Some v2\<rparr>, h2) = (Pass ?start (loop_start L), s\<lparr>vview := Some v3\<rparr>, tick h3)"
        using 3 u by simp
      from viewer_rounds_runs [OF 4] obtain j where j: "r = Inr True \<longrightarrow> m \<le> j"
        "(?N ^^ j) (Pass ?start (loop_start L), s\<lparr>vview := Some v3\<rparr>, tick h3) = (after_pass ?start k4 r, s\<lparr>vview := Some v'\<rparr>, h')"
        by blast
      have run: "(?N ^^ Suc (Suc (Suc j))) (Begin, s\<lparr>vview := Some v\<rparr>, h) = (after_pass ?start k4 r, s\<lparr>vview := Some v'\<rparr>, h')"
        by (rule first [OF n1 first [OF n2 first [OF n3 j(2)]]])
      show ?thesis
      proof (cases "r = Inr True")
        case True
        with run j(1) show ?thesis
          by (intro exI [of _ "Suc (Suc (Suc j))"] exI [of _ "Pass ?start k4"]) (simp add: after_pass_def)
      next
        case False
        obtain e where "r = returned e" "after_pass ?start k4 r = Returned e"
          using after_pass_returned [OF False] by blast
        with run False show ?thesis
          by (intro exI [of _ "Suc (Suc (Suc j))"] exI [of _ "Returned e"]) auto
      qed
    qed
  qed
qed

lemma serve_child_runs:
  fixes s :: "'d server"
  assumes "serve_child L w m q fd a s h = (r, s', h')"
  shows "\<exists>j p. (if r = Inr True then m \<le> j \<and> (\<exists>start k. p = Pass start k) else \<exists>e. r = returned e \<and> p = Returned e) \<and>
    (child_next L w q fd a ^^ j) (Enter, s, h) = (p, s', h')"
proof -
  let ?N = "child_next L w q fd a"
  note first = funpow_back [where f = ?N]
  have fail: ?thesis if "r = Inl e" "(?N ^^ j) (Enter, s, h) = (Returned (Some e), s', h')" for e j
    using that by (auto intro!: exI [of _ j] exI [of _ "Returned (Some e)"] exI [of _ "Some e"] simp: returned_def)
  obtain r1 s1 h1 where 1: "child_setup w fd s h = (r1, s1, h1)" by (metis prod.exhaust)
  show ?thesis
  proof (cases r1)
    case (Inl e)
    with assms 1 have "r = Inl e" "s' = s1" "h' = h1" by (simp_all add: serve_child_def)
    with 1 Inl show ?thesis by (intro fail [of e 1]) (simp_all add: child_next_def)
  next
    case (Inr u)
    have n1: "?N (Enter, s, h) = (Construct, s1, h1)" using 1 Inr by (simp add: child_next_def)
    obtain r2 :: "hls_exn + 'd viewer" and h2 where 2: "VideoViewer w q fd a h1 = (r2, h2)" by fastforce
    show ?thesis
    proof (cases r2)
      case e: (Inl e)
      with assms 1 2 Inr have eqs: "r = Inl e" "s' = s1" "h' = h2" by (simp_all add: serve_child_def)
      have n2: "?N (Construct, s1, h1) = (Returned (Some e), s1, h2)" using 2 e by (simp add: child_next_def)
      have run: "(?N ^^ Suc (Suc 0)) (Enter, s, h) = (Returned (Some e), s1, h2)"
        by (rule first [OF n1 first [OF n2]]) simp
      show ?thesis by (rule fail [OF eqs(1)], unfold eqs, rule run)
    next
      case v: (Inr v)
      have n2: "?N (Construct, s1, h1) = (Begin, s1\<lparr>vview := Some v\<rparr>, h2)" using 2 v by (simp add: child_next_def)
      obtain v3 where 3: "Run L w m v h2 = (r, v3, h')" "s' = s1\<lparr>vview := Some v3\<rparr>"
        using assms 1 2 Inr v by (auto simp: serve_child_def split: prod.splits)
      from Run_runs [OF 3(1), of q fd a s1] obtain j p where j:
        "if r = Inr True then m \<le> j \<and> (\<exists>start k. p = Pass start k) else \<exists>e. r = returned e \<and> p = Returned e"
        "(?N ^^ j) (Begin, s1\<lparr>vview := Some v\<rparr>, h2) = (p, s', h')" using 3(2) by blast
      have "(?N ^^ Suc (Suc j)) (Enter, s, h) = (p, s', h')" by (rule first [OF n1 first [OF n2 j(2)]])
      with j(1) show ?thesis by (intro exI [of _ "Suc (Suc j)"] exI [of _ p]) auto
    qed
  qed
qed

lemma returned_inject [simp]: "returned e = returned e' \<longleftrightarrow> e = e'" "returned e \<noteq> Inr True"
  by (auto simp: returned_def split: option.splits)

lemma exited_stays: "exited (fst c) \<Longrightarrow> (child_next L w q fd a ^^ n) c = c"
proof (induction n)
  case (Suc n)
  then show ?case by (cases c) (auto elim: exited.elims)
qed simp

lemma after_returned: "(child_next L w q fd a ^^ Suc n) (Returned e, s, h) = (p, s', h') \<Longrightarrow> exited p"
  unfolding funpow_Suc_right comp_apply child_next_simps by (subst (asm) exited_stays) auto

text \<open>The child as a machine of single steps, when no signal comes, computes what the model of its
  whole run computes: it comes back from \<open>Run\<close> in some state and with some exception (or none) exactly
  when, for some bound on the passes of the viewer's loop, \<open>serve_child\<close> ends with them.\<close>

theorem child_machine_serves:
  fixes s :: "'d server"
  shows "(\<exists>n. (child_next L w q fd a ^^ n) (Enter, s, h) = (Returned e, s', h')) \<longleftrightarrow>
    (\<exists>m. serve_child L w m q fd a s h = (returned e, s', h'))"
proof
  assume "\<exists>m. serve_child L w m q fd a s h = (returned e, s', h')"
  then obtain m where "serve_child L w m q fd a s h = (returned e, s', h')" ..
  from serve_child_runs [OF this] show "\<exists>n. (child_next L w q fd a ^^ n) (Enter, s, h) = (Returned e, s', h')" by auto
next
  let ?N = "child_next L w q fd a"
  assume "\<exists>n. (?N ^^ n) (Enter, s, h) = (Returned e, s', h')"
  then obtain n where n: "(?N ^^ n) (Enter, s, h) = (Returned e, s', h')" ..
  obtain r s1 h1 where 1: "serve_child L w (Suc n) q fd a s h = (r, s1, h1)" by (metis prod.exhaust)
  from serve_child_runs [OF 1] obtain j p where j:
    "if r = Inr True then Suc n \<le> j \<and> (\<exists>start k. p = Pass start k) else \<exists>e. r = returned e \<and> p = Returned e"
    "(?N ^^ j) (Enter, s, h) = (p, s1, h1)" by blast
  have later: "exited p" if lt: "n < j"
  proof -
    obtain i where i: "j = Suc i + n" using less_imp_Suc_add [OF lt] by auto
    have "(?N ^^ Suc i) (Returned e, s', h') = (p, s1, h1)"
      using j(2) unfolding i funpow_add comp_apply n .
    then show ?thesis by (rule after_returned)
  qed
  have "r \<noteq> Inr True" using later j(1) by (auto split: if_splits)
  with j(1) obtain e' where e': "r = returned e'" "p = Returned e'" by auto
  have "\<not> j < n"
  proof
    assume "j < n"
    then obtain i where i: "n = Suc i + j" using less_imp_Suc_add [of j n] by auto
    have "(?N ^^ Suc i) (Returned e', s1, h1) = (Returned e, s', h')"
      using n unfolding i funpow_add comp_apply j(2) e'(2) .
    then show False using after_returned by fastforce
  qed
  moreover have "\<not> n < j" using later e'(2) by auto
  ultimately have "n = j" by simp
  with n j(2) e' 1 show "\<exists>m. serve_child L w m q fd a s h = (returned e, s', h')" by auto
qed

end
