(* ===== verification/HlsConn.thy ===== *)
theory HlsConn
  imports HlsForward
begin

text \<open>
  What the operations of \<open>hlspxd\<close> do beside the player's stream: an interface for properties that every
  use of a connection keeps, the operations of the HTTP client and of the viewer proved against it once,
  and its two uses: the buffers stay inside their arrays, and the player's socket is left alone.
\<close>

section \<open>Interfaces\<close>

text \<open>A property of streams that reading keeps.\<close>

locale read_inv =
  fixes I :: "sstream \<Rightarrow> bool"
  assumes bump: "I s \<Longrightarrow> sbumpc s = (x, s') \<Longrightarrow> I s'"
    and flags: "I s \<Longrightarrow> sock s' = sock s \<Longrightarrow> obuf s' = obuf s \<Longrightarrow> ibuf s' = ibuf s \<Longrightarrow> I s'"
begin

lemma flag_simps [simp]:
  "I s \<Longrightarrow> I (s\<lparr>eofbit := b\<rparr>)" "I s \<Longrightarrow> I (s\<lparr>failbit := b\<rparr>)" "I s \<Longrightarrow> I (s\<lparr>badbit := b\<rparr>)"
  by (erule flags; simp)+

lemma sgetn_I: "I s \<Longrightarrow> sgetn n s = (x, f, s') \<Longrightarrow> I s'"
proof (induction n arbitrary: s x)
  case (Suc n)
  obtain c f1 s1 where "sbumpc s = ((c, f1), s1)" by (metis prod.exhaust)
  with Suc bump [OF Suc.prems(1) this] show ?case by (cases c) (auto split: prod.splits)
qed simp

lemma stream_read_I: "I s \<Longrightarrow> stream_read n s = (x, s') \<Longrightarrow> I s'"
  by (auto simp: stream_read_def split: if_splits prod.splits flow.splits dest: sgetn_I)

lemma get_until_newline_I: "I s \<Longrightarrow> get_until_newline s = (x, f, s') \<Longrightarrow> I s'"
proof (induction s arbitrary: x f rule: get_until_newline.induct)
  case (1 s)
  obtain c f1 s1 where b: "sbumpc s = ((c, f1), s1)" by (metis prod.exhaust)
  show ?case
    using 1 b bump [OF "1.prems"(1) b] by (auto simp: get_until_newline.simps [of s] split: option.splits if_splits prod.splits)
qed

lemma getline_I: "I s \<Longrightarrow> getline s l = (x, s') \<Longrightarrow> I s'"
  by (auto simp: getline_def split: if_splits prod.splits flow.splits dest: get_until_newline_I)

lemma message_init_I: "I s \<Longrightarrow> message_init s l m = (r, s') \<Longrightarrow> I s'"
proof (induction s l m rule: message_init.induct)
  case (1 s l m)
  obtain x s1 where g: "getline s l = (x, s1)" by fastforce
  show ?case
    using 1 g getline_I [OF "1.prems"(1) g]
    by (auto simp: message_init.simps [of s] Let_def fun_upd_def split: if_splits option.splits)
qed

lemma http_response_I:
  assumes "I s" "http_response lb s = (r, s')"
  shows "I s'"
proof -
  obtain x s1 where g: "getline s [] = (x, s1)" by fastforce
  have "I s1" using getline_I [OF assms(1) g] .
  with assms(2) g show ?thesis
    by (auto simp: http_response_def Let_def split: if_splits option.splits prod.splits sum.splits dest: message_init_I)
qed

lemma http_request_I:
  assumes "I s" "http_request s = (r, s')"
  shows "I s'"
proof -
  obtain x s1 where g: "getline s [] = (x, s1)" by fastforce
  have "I s1" using getline_I [OF assms(1) g] .
  with assms(2) g show ?thesis
    by (auto simp: http_request_def Let_def split: if_splits option.splits prod.splits sum.splits dest: message_init_I)
qed

lemma copy_loop_I: "I s \<Longrightarrow> copy_loop s = (x, s') \<Longrightarrow> I s'"
proof (induction s arbitrary: x rule: copy_loop.induct)
  case (1 s)
  obtain y s1 where r: "stream_read 8192 s = (y, s1)" by fastforce
  show ?case
    using 1 r stream_read_I [OF "1.prems"(1) r] by (auto simp: copy_loop.simps [of s] split: if_splits prod.splits)
qed

lemma copyToString_I: "I s \<Longrightarrow> copyToString s = (n, x, s') \<Longrightarrow> I s'"
  by (auto simp: copyToString_def split: prod.splits dest: copy_loop_I)

end

text \<open>A relation between the states before and after; what the log and the clocks do is in it.\<close>

locale frame =
  fixes R :: "hls_state \<Rightarrow> hls_state \<Rightarrow> bool"
  assumes refl [simp, intro]: "R h h"
    and trans: "R h h' \<Longrightarrow> R h' h'' \<Longrightarrow> R h h''"
    and tick [simp, intro]: "R h (tick h)"
    and log_line [simp, intro]: "R h (happen (LogLine f m) h)"
    and usleep [simp, intro]: "R h (happen (Usleep n) h)"
begin

lemma WriteLog_R [simp, intro]: "R h (WriteLog w m h)" "R h (WriteLogError w n h)" "R h (Sleep k h)"
  using trans [OF tick log_line] by (auto simp: WriteLog_def WriteLogError_def WriteBuf_def Sleep_def Let_def)

lemma log_R: "R h h' \<Longrightarrow> R h (WriteLog w m h')" "R h h' \<Longrightarrow> R h (WriteLogError w n h')" "R h h' \<Longrightarrow> R h (Sleep k h')"
  "R h h' \<Longrightarrow> R h (tick h')"
  using trans by blast+

lemma elapsed_R: "elapsed w start h = (el, h') \<Longrightarrow> R h h'"
  by (auto simp: elapsed_def split: if_splits prod.splits)

lemma write_block_R:
  assumes "write_block L w start e bd t x vs h = (t', vs', h')"
  shows "\<exists>h1. stream_write w x vs h = (vs', h1) \<and> R h1 h'"
proof -
  obtain vs1 h1 where v: "stream_write w x vs h = (vs1, h1)" by fastforce
  obtain el h2 where el: "elapsed w start h1 = (el, h2)" by fastforce
  from assms v el elapsed_R [OF el] show ?thesis by (auto simp: write_block_def Let_def log_R split: if_splits)
qed

lemma scan_records_R: "scan_records L w pl c h = (r, h') \<Longrightarrow> R h h'"
proof (induction pl arbitrary: c h)
  case (Cons x pl)
  obtain r1 h1 where 1: "scan_record L w x c h = (r1, h1)" by fastforce
  then have "R h h1" by (auto simp: scan_record_def Let_def split: if_splits)
  with 1 Cons show ?case by (cases r1) (auto intro: trans)
qed auto

lemma report_playlist_R: "R h (report_playlist L w prev c h)"
  by (simp add: report_playlist_def Let_def log_R)

lemma user_commands_R: "user_commands w v i q h = (q', h') \<Longrightarrow> R h h'"
proof (induction w v i q h rule: user_commands.induct)
  case (1 w v i q h)
  show ?case
    using 1 by (subst (asm) (2) user_commands.simps)
      (auto simp: Let_def split: if_splits intro: trans [OF WriteLog_R(1)])
qed

lemma user_request_R: "user_request w s q h = (x, q', h') \<Longrightarrow> R h h'"
  by (auto simp: user_request_def Let_def split: if_splits option.splits prod.splits dest: user_commands_R)

end

text \<open>Of a viewer: its clients' streams; what using them leaves as it is.\<close>

definition clients :: "(sstream \<Rightarrow> bool) \<Rightarrow> 'd viewer \<Rightarrow> bool" where
  "clients I v \<longleftrightarrow> I (client_stream (M3U8Client v)) \<and> I (client_stream (tsClient v))"

definition same_player :: "'d viewer \<Rightarrow> 'd viewer \<Rightarrow> bool" where
  "same_player v v' \<longleftrightarrow>
     VideoStream v' = VideoStream v \<and> length (TsList v') = length (TsList v) \<and> MaxHistLen v' = MaxHistLen v"

lemma same_player_refl [simp]: "same_player v v"
  by (simp add: same_player_def)

lemma same_player_trans: "same_player v v' \<Longrightarrow> same_player v' v'' \<Longrightarrow> same_player v v''"
  by (simp add: same_player_def)

text \<open>
  A property of streams and a relation on states, kept by everything the HTTP client does: \<open>I\<close> holds
  of its stream at all times, \<open>J\<close> while it is connected.
\<close>

locale conn_inv = read_inv I + frame R for I and R +
  fixes w :: hls_world and J :: "sstream \<Rightarrow> bool"
  assumes connecting: "I s \<Longrightarrow> stream_connect w u s h = (r, s', h') \<Longrightarrow>
      R h h' \<and> (case r of Inl _ \<Rightarrow> I s' | Inr _ \<Rightarrow> J s')"
    and writing: "J s \<Longrightarrow> stream_write w x s h = (s', h') \<Longrightarrow> J s' \<and> R h h'"
    and flushing: "J s \<Longrightarrow> stream_flush w s h = (s', h') \<Longrightarrow> J s' \<and> R h h'"
    and JI: "J s \<Longrightarrow> I s"
begin

lemma write_all_J: "J s \<Longrightarrow> write_all w xs s h = (s', h') \<Longrightarrow> J s' \<and> R h h'"
  by (induction xs arbitrary: s h) (auto split: prod.splits dest: writing intro: trans)

lemma http_exchange_I:
  assumes "I s" and x: "http_exchange w u s h = (r, s', h')"
  shows "I s' \<and> R h h'"
proof -
  obtain r1 s1 h1 where 1: "stream_connect w u s h = (r1, s1, h1)" by (metis prod.exhaust)
  note c = connecting [OF assms(1) 1]
  show ?thesis
  proof (cases r1)
    case (Inl e)
    with x 1 c show ?thesis by (auto simp: http_exchange_def)
  next
    case (Inr a)
    obtain s2 h2 s3 h3 where 2: "write_all w (request_parts u) s1 h1 = (s2, h2)" "stream_flush w s2 h2 = (s3, h3)"
      by fastforce
    have "J s2 \<and> R h1 h2" using write_all_J [OF _ 2(1)] c Inr by simp
    moreover from this have "J s3 \<and> R h2 h3" using flushing [OF _ 2(2)] by blast
    ultimately show ?thesis
      using x 1 2 c Inr JI by (auto simp: http_exchange_def split: prod.splits dest: http_response_I intro: trans)
  qed
qed

lemma attempts_I:
  "I (client_stream c) \<Longrightarrow> attempts n w resp u c h = (r, u', c', h') \<Longrightarrow> I (client_stream c') \<and> R h h'"
proof (induction n arbitrary: resp u c h)
  case (Suc n)
  obtain r1 s1 h1 where 1: "http_exchange w u (client_stream c) h = (r1, s1, h1)" by (metis prod.exhaust)
  note e = http_exchange_I [OF Suc.prems(1) 1]
  show ?case
  proof (cases "\<exists>resp' um. r1 = Inr resp' \<and> is_redirect resp' \<and> redirect_target resp' = Inr um")
    case False
    with Suc.prems(2) 1 e show ?thesis by (auto simp: Let_def split: sum.splits if_splits)
  next
    case True
    then obtain resp' v msg where t: "r1 = Inr resp'" "is_redirect resp'" "redirect_target resp' = Inr (v, msg)" by auto
    have "R h (WriteLog w msg h1)" using e by (blast intro: log_R)
    moreover have "attempts n w resp' v \<lparr>clientUri = v, client_stream = s1\<rparr> (WriteLog w msg h1) = (r, u', c', h')"
      using Suc.prems(2) 1 t by (simp add: Let_def)
    with Suc.IH [OF _ this] e have "I (client_stream c') \<and> R (WriteLog w msg h1) h'" by simp
    ultimately show ?thesis by (blast intro: trans)
  qed
qed auto

lemma getResponce_I:
  "I (client_stream c) \<Longrightarrow> getResponce w u c h = (r, u', c', h') \<Longrightarrow> I (client_stream c') \<and> R h h'"
  unfolding getResponce_def by (rule attempts_I)

lemma ReadM3U8_I:
  assumes "clients I v" "ReadM3U8 w v h = (r, v', h')"
  shows "clients I v' \<and> R h h' \<and> same_player v v'"
proof -
  obtain r1 u c h1 where g: "getResponce w (VideoUri v) (M3U8Client v) h = (r1, u, c, h1)" by (metis prod.exhaust)
  have I: "I (client_stream c)" "R h h1" using getResponce_I [OF _ g] assms(1) by (simp_all add: clients_def)
  obtain n x s where s: "copyToString (client_stream c) = (n, x, s)" by (metis prod.exhaust)
  show ?thesis
    using assms g s I copyToString_I [OF I(1) s]
    by (auto simp: ReadM3U8_def Let_def clients_def same_player_def split: sum.splits if_splits)
qed

lemma choose_stream_I:
  "clients I v \<Longrightarrow> choose_stream L w v h = (r, v', h') \<Longrightarrow> clients I v' \<and> R h h' \<and> same_player v v'"
proof -
  assume v: "clients I v" and c: "choose_stream L w v h = (r, v', h')"
  have "clients I (v\<lparr>VideoUri := u\<rparr>)" for u using v by (simp add: clients_def)
  from ReadM3U8_I [OF this] have *: "ReadM3U8 w (v\<lparr>VideoUri := u\<rparr>) h1 = (r1, v1, h2) \<Longrightarrow> R h h1 \<Longrightarrow>
      clients I v1 \<and> R h h2 \<and> same_player v v1" for u h1 r1 v1 h2
    by (fastforce simp: same_player_def intro: trans)
  show ?thesis
    using v c by (auto simp: choose_stream_def Let_def split: sum.splits if_splits dest!: *)
qed

lemma open_segment_I:
  assumes "clients I v" "open_segment L w i v h = (r, v', h')"
  shows "clients I v' \<and> R h h' \<and> same_player v v'"
proof -
  obtain r1 u c h1 where g: "getResponce w (seg_uri (TsList v ! i)) (tsClient v) h = (r1, u, c, h1)"
    by (metis prod.exhaust)
  have "I (client_stream c)" "R h h1" using getResponce_I [OF _ g] assms(1) by (simp_all add: clients_def)
  with assms g show ?thesis
    by (auto simp: open_segment_def Let_def clients_def same_player_def split: sum.splits if_splits)
qed

lemma read_records_I:
  "clients I v \<Longrightarrow> read_records L w k v h = (r, k', v', h') \<Longrightarrow>
    clients I v' \<and> R h h' \<and> VideoStream v' = VideoStream v \<and> MaxHistLen v' = MaxHistLen v"
  by (auto simp: read_records_def Let_def clients_def split: prod.splits sum.splits dest!: scan_records_R
      intro: trans [OF _ report_playlist_R])

lemma empty_round_I:
  assumes "clients I v" "empty_round L w c k v h = (r, k', v', h')"
  shows "clients I v' \<and> R h h' \<and> same_player v v'"
proof -
  let ?d = "Duration (lastTs c)"
  let ?h = "Sleep (d_long L (d_mul L ?d (d_int L 1000))) (WriteLog w (''Sleep->'' @ d_show2 L ?d) h)"
  obtain r1 v1 h1 where 1: "ReadM3U8 w v ?h = (r1, v1, h1)" by (metis prod.exhaust)
  have "R h ?h" by (simp add: log_R)
  then have "R h h1" using ReadM3U8_I [OF assms(1) 1] by (blast intro: trans)
  with assms 1 ReadM3U8_I [OF assms(1) 1] show ?thesis
    by (auto simp: empty_round_def Let_def split: if_splits)
qed

lemma segments_end_I:
  assumes "clients I v" "segments_end w k v h = (r, v', h')"
  shows "clients I v' \<and> R h h' \<and> same_player v v'"
proof -
  obtain r1 v1 h1 where 1: "ReadM3U8 w v h = (r1, v1, h1)" by (metis prod.exhaust)
  from assms 1 ReadM3U8_I [OF assms(1) 1] show ?thesis
    by (auto simp: segments_end_def Let_def split: if_splits)
qed

lemma stream_read_client:
  "clients I v \<Longrightarrow> stream_read n (client_stream (tsClient v)) = (x, s) \<Longrightarrow>
    clients I (v\<lparr>tsClient := (tsClient v)\<lparr>client_stream := s\<rparr>\<rparr>)"
  by (auto simp: clients_def dest: stream_read_I)

end

text \<open>Reading leaves the output side as it is.\<close>

interpretation out_side: read_inv "\<lambda>s. sock s = fd \<and> obuf s = b" for fd b
proof
  fix s s' x assume "sock s = fd \<and> obuf s = b" "sbumpc s = (x, s')"
  then show "sock s' = fd \<and> obuf s' = b"
    by (auto simp: sbumpc_def underflow_def split: if_splits list.splits recv_answer.splits prod.splits flow.splits)
qed simp

section \<open>The buffers\<close>

text \<open>Both buffers are inside their arrays; there is room for the next byte while the stream is good.\<close>

definition fits :: "sstream \<Rightarrow> bool" where
  "fits s \<longleftrightarrow> length (ibuf s) \<le> BUF_SIZE \<and> length (obuf s) \<le> BUF_SIZE"

definition writable :: "sstream \<Rightarrow> bool" where
  "writable s \<longleftrightarrow> fits s \<and> (flags_good s \<longrightarrow> length (obuf s) < BUF_SIZE)"

lemma output_buffer_room:
  "output_buffer w s h = (f, s', h') \<Longrightarrow> fits s \<Longrightarrow> fits s' \<and> same_in s s' \<and> (if f = Fine then obuf s' = [] else s' = s)"
  by (auto elim!: output_buffer_cases simp: fits_def BUF_SIZE_def)

lemma sputn_room:
  "length (obuf s) < BUF_SIZE \<Longrightarrow> fits s \<Longrightarrow> sputn w cs s h = (f, s', h') \<Longrightarrow>
    fits s' \<and> same_in s s' \<and> (f = Fine \<longrightarrow> length (obuf s') < BUF_SIZE)"
proof (induction cs arbitrary: s h)
  case (Cons c cs)
  obtain f1 s1 h1 where 1: "sputc w c s h = (f1, s1, h1)" by (metis prod.exhaust)
  have room: "fits s1 \<and> same_in s s1 \<and> (f1 = Fine \<longrightarrow> length (obuf s1) < BUF_SIZE)"
  proof (cases "length (obuf s) < BUF_SIZE - 1")
    case True
    with 1 Cons.prems show ?thesis by (auto simp: sputc_def fits_def)
  next
    case False
    let ?s = "s\<lparr>obuf := obuf s @ [c]\<rparr>"
    have o: "output_buffer w ?s h = (f1, s1, h1)" using 1 False by (simp add: sputc_def overflow_def)
    have "fits ?s" using Cons.prems(1,2) by (simp add: fits_def)
    from output_buffer_room [OF o this] show ?thesis
      by (auto simp: BUF_SIZE_def same_in_def split: if_splits)
  qed
  show ?case
  proof (cases "f1 = Fine")
    case True
    with 1 Cons.prems(3) have "sputn w cs s1 h1 = (f, s', h')" by simp
    with Cons.IH [OF _ _ this] room True show ?thesis by (blast intro: same_in_trans)
  next
    case False
    with 1 Cons.prems(3) room show ?thesis by (auto split: flow.splits)
  qed
qed simp

text \<open>Writing to the player needs room whatever its flags say: they are cleared by closing.\<close>

lemma stream_write_room:
  assumes "fits s" "length (obuf s) < BUF_SIZE" "stream_write w x s h = (s', h')"
  shows "writable s'"
proof (cases "flags_good s")
  case False
  with assms show ?thesis by (auto simp: stream_write_def writable_def fits_def flags_good_def)
next
  case True
  obtain f s1 h1 where 1: "sputn w x s h = (f, s1, h1)" by (metis prod.exhaust)
  from sputn_room [OF assms(2,1) 1] True assms(3) 1 show ?thesis
    by (cases f) (auto simp: stream_write_def writable_def fits_def flags_good_def)
qed

lemma stream_write_writable: "writable s \<Longrightarrow> stream_write w x s h = (s', h') \<Longrightarrow> writable s'"
proof (cases "flags_good s")
  case True
  then show "writable s \<Longrightarrow> stream_write w x s h = (s', h') \<Longrightarrow> writable s'"
    by (auto simp: writable_def [of s] intro: stream_write_room)
qed (auto simp: stream_write_def writable_def fits_def flags_good_def)

lemma stream_flush_writable:
  assumes "writable s" "stream_flush w s h = (s', h')"
  shows "writable s'"
proof -
  obtain f s1 h1 where 1: "output_buffer w s h = (f, s1, h1)" by (metis prod.exhaust)
  show ?thesis
  proof (cases "flags_good s")
    case False
    with assms show ?thesis by (auto simp: stream_flush_def writable_def fits_def flags_good_def)
  next
    case True
    with assms 1 output_buffer_room [OF 1] show ?thesis
      by (cases f) (auto simp: stream_flush_def writable_def fits_def flags_good_def BUF_SIZE_def)
  qed
qed

lemma stream_connect_writable:
  "fits s \<Longrightarrow> stream_connect w u s h = (r, s', h') \<Longrightarrow> (case r of Inl _ \<Rightarrow> fits s' | Inr _ \<Rightarrow> writable s')"
  by (auto simp: stream_connect_def buf_open_def stream_close_def buf_close_def Let_def fits_def writable_def
      BUF_SIZE_def split: prod.splits if_splits)

lemma fits_cong: "fits s \<Longrightarrow> ibuf s' = ibuf s \<Longrightarrow> obuf s' = obuf s \<Longrightarrow> fits s'"
  by (simp add: fits_def)

interpretation in_bounds: conn_inv fits "\<lambda>_ _. True" w writable for w
proof
  fix s s' x assume "fits s" "sbumpc s = (x, s')"
  then show "fits s'"
    by (auto simp: sbumpc_def underflow_def fits_def split: if_splits list.splits recv_answer.splits prod.splits flow.splits)
next
  fix s assume "writable s"
  then show "fits s" by (simp add: writable_def)
qed (auto intro: fits_cong dest: stream_connect_writable stream_write_writable stream_flush_writable)

section \<open>The player's socket\<close>

text \<open>How often a socket was closed; what leaves the socket \<open>fd\<close> alone. A socket's number stands for the
  socket: connections to servers do not get the number of the player's.\<close>

definition closes :: "int \<Rightarrow> hls_state \<Rightarrow> nat" where
  "closes fd h = length (filter (\<lambda>e. e = CloseFd fd) (hls_events h))"

definition fresh_fds :: "hls_world \<Rightarrow> int \<Rightarrow> bool" where
  "fresh_fds w fd \<longleftrightarrow> fd \<noteq> INVALID_SOCKET \<and> (\<forall>n host port. fd \<notin> fst ` set (snd (getaddrinfo w n host port)))"

definition still :: "int \<Rightarrow> hls_state \<Rightarrow> hls_state \<Rightarrow> bool" where
  "still fd h h' \<longleftrightarrow> sent_on fd h' = sent_on fd h \<and> closes fd h' = closes fd h"

definition spares :: "hls_world \<Rightarrow> int \<Rightarrow> hls_state \<Rightarrow> hls_state \<Rightarrow> bool" where
  "spares w fd h h' \<longleftrightarrow> (fresh_fds w fd \<longrightarrow> still fd h h')"

definition apart :: "hls_world \<Rightarrow> int \<Rightarrow> sstream \<Rightarrow> bool" where
  "apart w fd s \<longleftrightarrow> (fresh_fds w fd \<longrightarrow> sock s \<noteq> fd)"

lemma closes_simps [simp]:
  "closes fd (happen e h) = closes fd h + (if e = CloseFd fd then 1 else 0)" "closes fd (tick h) = closes fd h"
  by (simp_all add: closes_def)

lemma closes_log [simp]: "closes fd (WriteLog w m h) = closes fd h" "closes fd (WriteLogError w n h) = closes fd h"
  by (simp_all add: WriteLog_def WriteLogError_def WriteBuf_def Let_def)

interpretation stillness: frame "still fd" for fd
  by unfold_locales (auto simp: still_def)

lemma output_buffer_closes: "output_buffer w s h = (f, s', h') \<Longrightarrow> closes fd h' = closes fd h"
  by (auto simp: output_buffer_def Let_def split: if_splits)

lemma sputn_closes: "sputn w cs s h = (f, s', h') \<Longrightarrow> closes fd h' = closes fd h"
proof (induction cs arbitrary: s h)
  case (Cons c cs)
  obtain f1 s1 h1 where 1: "sputc w c s h = (f1, s1, h1)" by (metis prod.exhaust)
  then have "closes fd h1 = closes fd h"
    by (auto simp: sputc_def overflow_def split: if_splits dest: output_buffer_closes)
  with 1 Cons show ?case by (cases f1) auto
qed simp

lemma stream_write_closes: "stream_write w cs s h = (s', h') \<Longrightarrow> closes fd h' = closes fd h"
  by (auto simp: stream_write_def dest: sputn_closes split: if_splits prod.splits flow.splits)

lemma stream_flush_closes: "stream_flush w s h = (s', h') \<Longrightarrow> closes fd h' = closes fd h"
  by (auto simp: stream_flush_def dest: output_buffer_closes split: if_splits prod.splits flow.splits)

lemma try_addresses_apart:
  "try_addresses addrs fd0 h = (fd', ok, h') \<Longrightarrow> fd0 \<noteq> fd \<Longrightarrow> fd \<notin> fst ` set addrs \<Longrightarrow>
    fd' \<noteq> fd \<and> closes fd h' = closes fd h"
  by (induction addrs fd0 h rule: try_addresses.induct) (auto split: if_splits)

lemma stream_close_apart:
  "stream_close s h = (s', h') \<Longrightarrow> sock s' = INVALID_SOCKET \<and> sent_on fd h' = sent_on fd h \<and>
    closes fd h' = closes fd h + (if sock s = fd \<and> fd \<noteq> INVALID_SOCKET then 1 else 0)"
  by (auto simp: stream_close_def buf_close_def Let_def split: if_splits)

lemma stream_connect_apart:
  assumes "fresh_fds w fd" "sock s \<noteq> fd" "stream_connect w u s h = (r, s', h')"
  shows "sock s' \<noteq> fd \<and> sent_on fd h' = sent_on fd h \<and> closes fd h' = closes fd h"
proof -
  obtain s1 h1 where 1: "stream_close s h = (s1, h1)" by fastforce
  have s1: "buf_close s1 h1 = (s1, h1)" "sock s1 \<noteq> fd"
    using stream_close_apart [OF 1, of fd] assms(1) by (auto simp: buf_close_def fresh_fds_def)
  obtain rc addrs where g: "getaddrinfo w (hls_calls h1) (getHost u) (getPort u) = (rc, addrs)" by fastforce
  then have "fd \<notin> fst ` set addrs" using assms(1) unfolding fresh_fds_def by (metis snd_conv)
  moreover obtain fd1 ok h2 where t: "try_addresses addrs (sock s1) (tick h1) = (fd1, ok, h2)" by (metis prod.exhaust)
  ultimately have "fd1 \<noteq> fd \<and> closes fd h2 = closes fd h1" "sent_on fd h2 = sent_on fd h1"
    using try_addresses_apart [OF t s1(2)] try_addresses_sent [OF t] by auto
  with assms(2,3) 1 s1 g t stream_close_apart [OF 1, of fd] show ?thesis
    by (auto simp: stream_connect_def buf_open_def Let_def split: if_splits)
qed

interpretation player_apart: conn_inv "apart w fd" "spares w fd" w "apart w fd" for w fd
proof
  fix s s' x assume "apart w fd s" "sbumpc s = (x, s')"
  then show "apart w fd s'"
    by (auto simp: sbumpc_def underflow_def apart_def split: if_splits list.splits recv_answer.splits prod.splits flow.splits)
next
  fix s u h r s' h' assume "apart w fd s" "stream_connect w u s h = (r, s', h')"
  then show "spares w fd h h' \<and> (case r of Inl _ \<Rightarrow> apart w fd s' | Inr _ \<Rightarrow> apart w fd s')"
    by (auto simp: apart_def spares_def still_def dest: stream_connect_apart split: sum.split)
next
  fix s x h s' h' assume "apart w fd s" "stream_write w x s h = (s', h')"
  then show "apart w fd s' \<and> spares w fd h h'"
    using write_op.other_sockets [of s fd w x h s' h'] by (auto simp: apart_def spares_def still_def dest: stream_write_closes)
next
  fix s h s' h' assume "apart w fd s" "stream_flush w s h = (s', h')"
  then show "apart w fd s' \<and> spares w fd h h'"
    using flush_op.other_sockets [of s fd w h s' h'] by (auto simp: apart_def spares_def still_def dest: stream_flush_closes)
qed (auto simp: apart_def spares_def intro: stillness.trans)

end
