(* ===== verification/HlsPlayText.thy ===== *)
theory HlsPlayText
  imports HlsPlaylist
begin

text \<open>
  Playlists as they are written, and that \<open>ReadM3U8\<close> reads them back: tags with up to six attributes,
  and addresses in the forms it can come upon (relative to the playlist, relative to the root of its
  server, or with \<open>http://\<close>, host and port).
\<close>

section \<open>The format\<close>

datatype location = NoUri | Rel string | Root string | Abs string string string

type_synonym entry = "string \<times> string list \<times> location"

definition uri_text :: "location \<Rightarrow> string" where
  "uri_text l =
     (case l of NoUri \<Rightarrow> [] | Rel p \<Rightarrow> p | Root p \<Rightarrow> ''/'' @ p | Abs h p f \<Rightarrow> ''http://'' @ h @ port_text p @ ''/'' @ f)"

definition location_text :: "location \<Rightarrow> string" where
  "location_text l = (if l = NoUri then [] else newline # uri_text l)"

definition attrs_text :: "string list \<Rightarrow> string" where
  "attrs_text as = (case as of [] \<Rightarrow> [] | a # bs \<Rightarrow> '':'' @ a @ concat (map (\<lambda>b. CHR '','' # b) bs))"

definition entry_text :: "entry \<Rightarrow> string" where
  "entry_text = (\<lambda>(t, as, l). ''#EXT'' @ t @ attrs_text as @ location_text l @ [newline])"

text \<open>The address the record gets. For one that begins with a slash it is the one without the slash.\<close>

definition resolved :: "uri \<Rightarrow> location \<Rightarrow> uri" where
  "resolved base l =
     (case l of NoUri \<Rightarrow> no_uri | Rel p \<Rightarrow> uri_resolve base p | Root p \<Rightarrow> uri_resolve base p | Abs h p f \<Rightarrow> \<lparr>host = h, port = p, path = f\<rparr>)"

text \<open>The loop over the attributes goes on from the sixth one to the groups of the address.\<close>

definition spilled :: "location \<Rightarrow> string list" where
  "spilled l =
     (case l of NoUri \<Rightarrow> [] | Rel p \<Rightarrow> [p] | Root p \<Rightarrow> [uri_text l] | Abs h p f \<Rightarrow> uri_text l # h # (if p = [] then [] else [p]))"

definition attributes_read :: "string list \<Rightarrow> location \<Rightarrow> string list" where
  "attributes_read as l = as @ (if length as = 6 then spilled l else [])"

definition path_ok :: "string \<Rightarrow> bool" where
  "path_ok p \<longleftrightarrow> p \<noteq> [] \<and> list_all path_char p \<and> nul_free p"

definition location_ok :: "location \<Rightarrow> bool" where
  "location_ok l =
     (case l of
        NoUri \<Rightarrow> True
      | Rel p \<Rightarrow> path_ok p \<and> hd p \<noteq> CHR ''/'' \<and> \<not> prefix ''http://'' p
      | Root p \<Rightarrow> path_ok p
      | Abs h p f \<Rightarrow> h \<noteq> [] \<and> list_all (\<lambda>c. host_char c \<and> path_char c) h \<and> nul_free h \<and> list_all isdigit p \<and>
          path_ok f \<and> hd f \<noteq> CHR ''/'')"

definition entry_ok :: "entry \<Rightarrow> bool" where
  "entry_ok = (\<lambda>(t, as, l). t \<noteq> [] \<and> list_all tag_char t \<and> length as \<le> 6 \<and> hd (as @ [''x'']) \<noteq> [] \<and>
     list_all (\<lambda>a. list_all attr_char a \<and> nul_free a) as \<and> location_ok l)"

section \<open>Groups of the attributes\<close>

text \<open>The attributes behind the first one, as a chain of optional groups from the number \<open>n\<close> on.\<close>

fun more_chain :: "nat \<Rightarrow> nat \<Rightarrow> rx" where
  "more_chain n 0 = more_attr n"
| "more_chain n (Suc k) = Cat (more_attr n) (more_chain (n + 2) k)"

fun chain_groups :: "nat \<Rightarrow> string list \<Rightarrow> (nat \<times> string) list" where
  "chain_groups n [] = []"
| "chain_groups n (b # bs) = [(n, CHR '','' # b), (n + 1, b)] @ chain_groups (n + 2) bs"

lemma attrs_rx_chain:
  "attrs_rx = Cat (Lit '':'') (Cat (Grp 3 (Many attr_char)) (more_chain 4 4))"
  by (simp add: attrs_rx_def numeral_eq_Suc)

lemma more_attr_matches: "rx_matches (more_attr n) s \<longleftrightarrow> s = [] \<or> (\<exists>b. s = CHR '','' # b \<and> list_all attr_char b)"
  by (auto simp: more_attr_def matches_Cat)

lemma more_attr_one: "list_all attr_char b \<Longrightarrow> yields (more_attr n) (CHR '','' # b) [(n, CHR '','' # b), (n + 1, b)]"
proof -
  assume "list_all attr_char b"
  then have "yields (Cat (Lit '','') (Grp (n + 1) (Any attr_char))) ('','' @ b) ([] @ [(n + 1, b)])"
    by (intro yields_Cat yields_Lit halts_Lit yields_Grp yields_class(1))
  from yields_Opt [OF yields_Grp [OF this]] show ?thesis by (simp add: more_attr_def)
qed

lemma more_attr_none: "yields (more_attr n) [] []"
  by (simp add: yields_def more_attr_def matches_Cat)

lemma attr_text_starts: "\<not> starts_with attr_char (concat (map (\<lambda>b. CHR '','' # b) bs))"
  by (cases bs) (simp_all add: attr_char_def)

lemma more_attr_halts:
  "list_all attr_char b \<Longrightarrow> halts (more_attr n) (CHR '','' # b) (concat (map (\<lambda>b. CHR '','' # b) bs))"
  by (cases bs) (auto simp: halts_def more_attr_matches Cons_eq_append_conv attr_char_def)

lemma more_chain_none: "yields (more_chain n k) [] []"
proof (induction k arbitrary: n)
  case (Suc k)
  show ?case using yields_Cat [OF more_attr_none halts_Nil Suc.IH] by simp
qed (simp add: more_attr_none)

lemma more_chain_yields:
  "length bs \<le> Suc k \<Longrightarrow> list_all (list_all attr_char) bs \<Longrightarrow>
    yields (more_chain n k) (concat (map (\<lambda>b. CHR '','' # b) bs)) (chain_groups n bs)"
proof (induction k arbitrary: n bs)
  case 0
  then consider "bs = []" | b where "bs = [b]" by (cases bs) auto
  then show ?case
    by cases (use 0 more_attr_none more_attr_one in auto)
next
  case (Suc k)
  show ?case
  proof (cases bs)
    case Nil
    then show ?thesis using more_chain_none [of n "Suc k"] by simp
  next
    case (Cons b cs)
    with Suc have "yields (more_chain (n + 2) k) (concat (map (\<lambda>b. CHR '','' # b) cs)) (chain_groups (n + 2) cs)" by simp
    from yields_Cat [OF more_attr_one more_attr_halts this] Suc.prems Cons show ?thesis by simp
  qed
qed

lemma attrs_yields:
  assumes "a \<noteq> []" "list_all (list_all attr_char) (a # bs)" "length bs \<le> 5"
  shows "yields attrs_rx (attrs_text (a # bs)) ((3, a) # chain_groups 4 bs)"
proof -
  have c: "yields (more_chain 4 4) (concat (map (\<lambda>b. CHR '','' # b) bs)) (chain_groups 4 bs)"
    using more_chain_yields [of bs 4 4] assms by simp
  have h: "halts (Grp 3 (Many attr_char)) a (concat (map (\<lambda>b. CHR '','' # b) bs))"
    using halts_class(2) [OF attr_text_starts] by simp
  have y: "yields (Grp 3 (Many attr_char)) a [(3, a)]" using assms(1,2) by (auto intro: yields_Grp yields_class)
  have "yields (Cat (Lit '':'') (Cat (Grp 3 (Many attr_char)) (more_chain 4 4)))
      ('':'' @ a @ concat (map (\<lambda>b. CHR '','' # b) bs)) ([] @ [(3, a)] @ chain_groups 4 bs)"
    by (intro yields_Cat yields_Lit halts_Lit y h c)
  then show ?thesis by (simp add: attrs_rx_chain attrs_text_def)
qed

section \<open>Groups of an address\<close>

lemma path_chars: "path_char c \<Longrightarrow> c \<noteq> newline \<and> c \<noteq> CHR ''#''"
  by (simp add: path_char_def)

text \<open>Whatever the pattern of an address matches ends in a character of a path.\<close>

lemma uri_rx_cases:
  assumes "rx_matches uri_rx w"
  obtains (host) h p s f where "w = ''http://'' @ h @ p @ s @ f" "h \<noteq> []" "list_all host_char h"
      "p = [] \<or> (\<exists>d. p = CHR '':'' # d \<and> d \<noteq> [] \<and> list_all isdigit d)" "s = [] \<or> s = ''/''" "f \<noteq> []" "list_all path_char f"
    | (plain) s f where "w = s @ f" "s = [] \<or> s = ''/''" "f \<noteq> []" "list_all path_char f"
proof -
  obtain x s f where w: "w = x @ s @ f" "rx_matches (Opt (Grp 16 host_rx)) x" "s = [] \<or> s = ''/''" "f \<noteq> []"
    "list_all path_char f"
    using assms by (auto simp: uri_rx_def matches_Cat)
  show thesis
  proof (cases "x = []")
    case True
    with w plain show thesis by simp
  next
    case False
    with w(2) have "rx_matches host_rx x" by simp
    then obtain h p where "x = ''http://'' @ h @ p" "h \<noteq> []" "list_all host_char h"
      "p = [] \<or> (\<exists>d. p = CHR '':'' # d \<and> d \<noteq> [] \<and> list_all isdigit d)"
      unfolding host_rx_def host_pattern by blast
    from host [OF _ this(2-4) w(3-5)] this(1) w(1) show thesis by simp
  qed
qed

lemma uri_rx_last: "rx_matches uri_rx w \<Longrightarrow> w \<noteq> [] \<and> path_char (last w)"
  by (elim uri_rx_cases) (auto simp: list_all_iff)

lemma digit_path_char: "isdigit c \<Longrightarrow> path_char c"
  by (auto simp: isdigit_def path_char_def)

lemma rel_yields:
  assumes "location_ok (Rel p)"
  shows "yields uri_rx p [(20, p)]"
proof -
  have p: "p \<noteq> []" "list_all path_char p" "hd p \<noteq> CHR ''/''" "\<not> prefix ''http://'' p"
    using assms by (simp_all add: location_ok_def path_ok_def)
  have "rx_matches host_rx x \<Longrightarrow> prefix ''http://'' x" for x
    unfolding host_rx_def host_pattern by auto
  then have n: "\<not> rx_matches host_rx []" and h: "halts (Opt (Grp 16 host_rx)) [] p"
    using p(4) by (fastforce simp: halts_def intro: prefix_order.trans)+
  have y: "yields (Grp 20 (Many path_char)) p [(20, p)]" using p by (auto intro: yields_Grp yields_class)
  have l: "halts (Opt (Lit ''/'')) [] p" using p(1,3) by (auto simp: halts_def)
  have "yields (Opt (Lit ''/'')) [] []" "yields (Opt (Grp 16 host_rx)) [] []" using n by (simp_all add: yields_def)
  from yields_Cat [OF this(2) _ yields_Cat [OF this(1) l y]] h show ?thesis by (simp add: uri_rx_def)
qed

lemma root_yields:
  assumes "location_ok (Root p)"
  shows "yields uri_rx (''/'' @ p) [(20, p)]"
proof -
  have p: "p \<noteq> []" "list_all path_char p" using assms by (simp_all add: location_ok_def path_ok_def)
  have "rx_matches host_rx x \<Longrightarrow> \<exists>r. x = CHR ''h'' # r" for x
    unfolding host_rx_def host_pattern by auto
  then have n: "\<not> rx_matches host_rx []" and h: "halts (Opt (Grp 16 host_rx)) [] (''/'' @ p)"
    by (fastforce simp: halts_def)+
  have y: "yields (Grp 20 (Many path_char)) p [(20, p)]" using p by (auto intro: yields_Grp yields_class)
  have l: "halts (Opt (Lit ''/'')) ''/'' p" by (auto simp: halts_def)
  have "yields (Opt (Lit ''/'')) ''/'' []" "yields (Opt (Grp 16 host_rx)) [] []" using n by (simp_all add: yields_def)
  from yields_Cat [OF this(2) _ yields_Cat [OF this(1) l y]] h show ?thesis by (simp add: uri_rx_def)
qed

lemma abs_yields:
  assumes "location_ok (Abs h p f)"
  shows "\<exists>g. yields uri_rx (uri_text (Abs h p f)) g \<and> map_of g 17 = Some h \<and>
    map_of g 19 = (if p = [] then None else Some p) \<and> map_of g 20 = Some f \<and> set (map fst g) \<subseteq> {16..20}"
proof -
  have h: "h \<noteq> []" "list_all host_char h" "list_all isdigit p" and f: "f \<noteq> []" "list_all path_char f"
    using assms by (auto simp: location_ok_def path_ok_def list_all_iff)
  have ns: "CHR ''/'' \<notin> set h" "CHR ''/'' \<notin> set (port_text p)"
    using host_chars_no_slash [OF h(2)] digits_no_slash [OF h(3)] by (simp_all add: port_text_def)
  let ?x = "''http://'' @ h @ port_text p"
  have "rx_matches host_rx ?x" unfolding host_rx_def host_pattern using h by (auto simp: port_text_def)
  with groups_host [OF h] have 1: "yields (Opt (Grp 16 host_rx)) ?x
      ((16, ?x) # (17, h) # (if p = [] then [] else [(18, CHR '':'' # p), (19, p)]))"
    by (simp add: yields_def host_rx_def del: rx_groups.simps(4))
  have 2: "halts (Opt (Grp 16 host_rx)) ?x (''/'' @ f)"
    using halts_host [OF ns, where r = f] by (simp add: host_rx_def)
  have 3: "yields (Cat (Opt (Lit ''/'')) (Grp 20 (Many path_char))) (''/'' @ f) ([] @ [(20, f)])"
    using f by (intro yields_Cat yields_Grp yields_class) (auto simp: yields_def halts_def)
  from yields_Cat [OF 1 2 3] show ?thesis
    by (intro exI conjI) (auto simp: uri_rx_def uri_text_def split: if_splits)
qed

definition loc_host :: "location \<Rightarrow> string option" where
  "loc_host l = (case l of Abs h p f \<Rightarrow> Some h | _ \<Rightarrow> None)"

definition loc_port :: "location \<Rightarrow> string option" where
  "loc_port l = (case l of Abs h p f \<Rightarrow> (if p = [] then None else Some p) | _ \<Rightarrow> None)"

definition loc_path :: "location \<Rightarrow> string" where
  "loc_path l = (case l of NoUri \<Rightarrow> [] | Rel p \<Rightarrow> p | Root p \<Rightarrow> p | Abs h p f \<Rightarrow> f)"

lemma location_yields:
  assumes "location_ok l" "l \<noteq> NoUri"
  obtains g where "yields uri_rx (uri_text l) g" "map_of g 17 = loc_host l" "map_of g 19 = loc_port l"
    "map_of g 20 = Some (loc_path l)" "set (map fst g) \<subseteq> {16..20}"
proof (cases l)
  case (Rel p)
  with rel_yields [of p] assms(1) that show thesis
    by (simp add: uri_text_def loc_host_def loc_port_def loc_path_def)
next
  case (Root p)
  with root_yields [of p] assms(1) that show thesis
    by (simp add: uri_text_def loc_host_def loc_port_def loc_path_def)
next
  case (Abs h p f)
  with abs_yields [of h p f] assms(1) that show thesis
    by (auto simp: loc_host_def loc_port_def loc_path_def)
qed (use assms in simp)

section \<open>Groups of a record\<close>

lemma halts_Cat_Lit: "halts b p q \<Longrightarrow> halts (Cat (Lit l) b) (l @ p) q"
proof -
  have "rx_matches (Cat (Lit l) b) ((l @ p) @ u) \<Longrightarrow> rx_matches b (p @ u)" for u
    by (simp add: matches_Cat)
  then show "halts b p q \<Longrightarrow> halts (Cat (Lit l) b) (l @ p) q" unfolding halts_def by blast
qed

lemma attr_no_newline: "list_all attr_char s \<Longrightarrow> newline \<notin> set s"
  by (induction s) (auto simp: attr_char_def)

lemma more_attr_chars: "rx_matches (more_attr n) s \<Longrightarrow> newline \<notin> set s"
proof -
  assume "rx_matches (more_attr n) s"
  then consider "s = []" | b where "s = CHR '','' # b" "list_all attr_char b" unfolding more_attr_matches by blast
  then show ?thesis by cases (simp_all add: attr_no_newline)
qed

lemma more_chain_chars: "rx_matches (more_chain n k) s \<Longrightarrow> newline \<notin> set s"
proof (induction k arbitrary: n s)
  case 0
  then show ?case using more_attr_chars by simp
next
  case (Suc k)
  then obtain x y where "s = x @ y" "rx_matches (more_attr n) x" "rx_matches (more_chain (n + 2) k) y"
    by (auto simp: matches_Cat)
  with Suc.IH more_attr_chars show ?case by auto
qed

lemma attrs_rx_chars:
  assumes "rx_matches attrs_rx s"
  shows "newline \<notin> set s \<and> s \<noteq> [] \<and> hd s = CHR '':''"
proof -
  obtain a y where "s = '':'' @ a @ y" "list_all attr_char a" "rx_matches (more_chain 4 4) y"
    using assms unfolding attrs_rx_chain by (auto simp: matches_Cat)
  with more_chain_chars [OF this(3)] attr_no_newline [OF this(2)] show ?thesis by simp
qed

definition tag_rx :: rx where "tag_rx = Grp 1 (Cat (Lit ''#EXT'') (Many tag_char))"
definition loc_rx :: rx where "loc_rx = Grp 14 (Cat (Lit [newline]) (Grp 15 uri_rx))"

lemma PlRx_parts: "PlRx = Cat tag_rx (Cat (Opt (Grp 2 attrs_rx)) (Cat (Opt loc_rx) (Many eol_char)))"
  by (simp add: PlRx_def tag_rx_def loc_rx_def)

lemma tag_yields:
  assumes "t \<noteq> []" "list_all tag_char t"
  shows "yields tag_rx (''#EXT'' @ t) [(1, ''#EXT'' @ t)]"
proof -
  have "yields (Cat (Lit ''#EXT'') (Many tag_char)) (''#EXT'' @ t) ([] @ [])"
    using assms by (intro yields_Cat yields_Lit halts_Lit yields_class)
  from yields_Grp [OF this] show ?thesis by (simp add: tag_rx_def)
qed

lemma tag_halts: "\<not> starts_with tag_char q \<Longrightarrow> halts tag_rx (''#EXT'' @ t) q"
  unfolding tag_rx_def halts_Grp by (intro halts_Cat_Lit halts_class)

definition attr_groups :: "string list \<Rightarrow> (nat \<times> string) list" where
  "attr_groups as = (case as of [] \<Rightarrow> [] | a # bs \<Rightarrow> (2, attrs_text as) # (3, a) # chain_groups 4 bs)"

lemma attr_part:
  assumes "list_all (list_all attr_char) as" "length as \<le> 6" "hd (as @ [''x'']) \<noteq> []"
  shows "yields (Opt (Grp 2 attrs_rx)) (attrs_text as) (attr_groups as)"
    and "halts (Opt (Grp 2 attrs_rx)) (attrs_text as) (newline # q)"
proof -
  show "yields (Opt (Grp 2 attrs_rx)) (attrs_text as) (attr_groups as)"
  proof (cases as)
    case Nil
    have "\<not> rx_matches attrs_rx []" using attrs_rx_chars by blast
    with Nil show ?thesis by (simp add: attrs_text_def attr_groups_def yields_def)
  next
    case (Cons a bs)
    with attrs_yields [of a bs] assms show ?thesis
      by (auto simp: attr_groups_def intro!: yields_Opt yields_Grp)
  qed
  show "halts (Opt (Grp 2 attrs_rx)) (attrs_text as) (newline # q)"
    by (rule halts_set [where P = "\<lambda>c. c \<noteq> newline"]) (use attrs_rx_chars in auto)
qed

definition loc_groups_ok :: "location \<Rightarrow> (nat \<times> string) list \<Rightarrow> bool" where
  "loc_groups_ok l g \<longleftrightarrow> set (map fst g) \<subseteq> {14..20} \<and>
     (if l = NoUri then g = []
      else map_of g 15 = Some (uri_text l) \<and> map_of g 17 = loc_host l \<and> map_of g 19 = loc_port l \<and>
        map_of g 20 = Some (loc_path l))"

lemma loc_part:
  assumes "location_ok l"
  obtains g where "yields (Opt loc_rx) (location_text l) g" "halts (Opt loc_rx) (location_text l) [newline]" "loc_groups_ok l g"
proof -
  have ends: "\<not> rx_matches loc_rx (x @ [newline])" for x
  proof
    assume "rx_matches loc_rx (x @ [newline])"
    then obtain w where w: "x @ [newline] = newline # w" "rx_matches uri_rx w"
      by (auto simp: loc_rx_def matches_Cat)
    note l = uri_rx_last [OF w(2)]
    then have "last w = newline" using w(1) by (metis last_ConsR last_snoc)
    with l show False using path_chars by blast
  qed
  have h: "halts (Opt loc_rx) (location_text l) [newline]"
    using ends by (auto simp: halts_def Cons_eq_append_conv)
  show thesis
  proof (cases "l = NoUri")
    case True
    have "\<not> rx_matches loc_rx []" by (simp add: loc_rx_def matches_Cat)
    with True h that [of "[]"] show thesis by (simp add: location_text_def yields_def loc_groups_ok_def)
  next
    case False
    obtain g where g: "yields uri_rx (uri_text l) g" "map_of g 17 = loc_host l" "map_of g 19 = loc_port l"
      "map_of g 20 = Some (loc_path l)" "set (map fst g) \<subseteq> {16..20}"
      using location_yields [OF assms False] .
    have "yields (Cat (Lit [newline]) (Grp 15 uri_rx)) ([newline] @ uri_text l) ([] @ (15, uri_text l) # g)"
      by (intro yields_Cat yields_Lit halts_Lit yields_Grp g(1))
    then have "yields (Opt loc_rx) (location_text l) ((14, location_text l) # (15, uri_text l) # g)"
      using False by (auto simp: loc_rx_def location_text_def intro!: yields_Opt yields_Grp)
    moreover have "loc_groups_ok l ((14, location_text l) # (15, uri_text l) # g)"
      using g False by (auto simp: loc_groups_ok_def)
    ultimately show thesis using h that by blast
  qed
qed

lemma entry_yields:
  assumes "entry_ok (t, as, l)"
  obtains g where "yields PlRx (entry_text (t, as, l)) ((1, ''#EXT'' @ t) # attr_groups as @ g)" "loc_groups_ok l g"
proof -
  have t: "t \<noteq> []" "list_all tag_char t" and as: "list_all (list_all attr_char) as" "length as \<le> 6" "hd (as @ [''x'']) \<noteq> []"
    and l: "location_ok l"
    using assms by (auto simp: entry_ok_def list_all_iff)
  obtain g where g: "yields (Opt loc_rx) (location_text l) g" "halts (Opt loc_rx) (location_text l) [newline]" "loc_groups_ok l g"
    using loc_part [OF l] .
  obtain q where q: "location_text l @ [newline] = newline # q" by (cases "l = NoUri") (auto simp: location_text_def)
  have d: "yields (Many eol_char) [newline] []" by (simp add: yields_def eol_char_def)
  have hb: "halts (Opt (Grp 2 attrs_rx)) (attrs_text as) (location_text l @ [newline])"
    unfolding q by (rule attr_part(2) [OF as])
  have ha: "halts tag_rx (''#EXT'' @ t) (attrs_text as @ location_text l @ [newline])"
    by (rule tag_halts) (cases as; simp add: attrs_text_def q tag_char_def)
  have "yields PlRx ((''#EXT'' @ t) @ attrs_text as @ location_text l @ [newline])
      ([(1, ''#EXT'' @ t)] @ attr_groups as @ g @ [])"
    unfolding PlRx_parts by (intro yields_Cat tag_yields [OF t] attr_part(1) [OF as] g(1,2) d hb ha)
  then show thesis using g(3) that by (simp add: entry_text_def)
qed

section \<open>Where a record ends\<close>

lemma list_all_not: "list_all P s \<Longrightarrow> \<not> P c \<Longrightarrow> c \<notin> set s"
  by (auto simp: list_all_iff)

lemma class_free:
  "list_all isdigit s \<Longrightarrow> CHR ''#'' \<notin> set s" "list_all tag_char s \<Longrightarrow> newline \<notin> set s"
  "list_all path_char s \<Longrightarrow> CHR ''#'' \<notin> set s" "list_all eol_char s \<Longrightarrow> CHR ''#'' \<notin> set s"
  by (erule list_all_not, simp add: isdigit_def tag_char_def path_char_def eol_char_def less_eq_char_def)+

lemma uri_rx_hash:
  assumes "rx_matches uri_rx w" "CHR ''#'' \<in> set w"
  obtains h r where "w = ''http://'' @ h @ r" "list_all host_char h" "CHR ''#'' \<in> set h"
  using assms(1)
proof (cases rule: uri_rx_cases)
  case (host h p s f)
  have "CHR ''#'' \<notin> set p" using host(4) class_free(1) by auto
  moreover have "CHR ''#'' \<notin> set s" "CHR ''#'' \<notin> set f" using host(5) class_free(3) [OF host(7)] by auto
  ultimately have "CHR ''#'' \<in> set h" using assms(2) host(1) by auto
  with host that show thesis by blast
next
  case (plain s f)
  then have "CHR ''#'' \<notin> set w" using class_free(3) [OF plain(4)] by auto
  with assms(2) show thesis by simp
qed

lemma host_ends:
  assumes "h @ q = h' @ r" "list_all host_char h'" "\<not> starts_with host_char q" "q \<noteq> []"
  shows "prefix h' h"
proof -
  from assms(1) consider us where "h' = h @ us" "q = us @ r" | us where "h = h' @ us"
    by (auto simp: append_eq_append_conv2)
  then show ?thesis
  proof cases
    case 1
    with assms(2-4) have "us = []" by (cases us) auto
    with 1 show ?thesis by simp
  qed simp
qed

lemma scheme_newline:
  assumes "p @ newline # x = s @ y" "newline \<notin> set s"
  shows "prefix s p"
proof -
  from assms(1) consider us where "p = s @ us" | us where "p @ us = s" "newline # x = us @ y"
    by (auto simp: append_eq_append_conv2)
  then show ?thesis
  proof cases
    case 2
    then have "us = []" using assms(2) by (cases us) auto
    with 2(1) show ?thesis by simp
  qed simp
qed

lemma location_no_hash:
  assumes "location_ok l" "l \<noteq> NoUri" "rx_matches uri_rx w" "uri_text l @ newline # x = w @ z"
  shows "CHR ''#'' \<notin> set w"
proof
  assume "CHR ''#'' \<in> set w"
  then obtain h' r where w: "w = ''http://'' @ h' @ r" "list_all host_char h'" "CHR ''#'' \<in> set h'"
    using uri_rx_hash [OF assms(3)] by metis
  show False
  proof (cases l)
    case (Rel p)
    then have "p @ newline # x = ''http://'' @ (h' @ r @ z)" using assms(4) w(1) by (simp add: uri_text_def)
    from scheme_newline [OF this] assms(1) Rel show False by (simp add: location_ok_def)
  next
    case (Root p)
    with assms(4) w(1) show False by (simp add: uri_text_def)
  next
    case (Abs h p f)
    then have "h @ (port_text p @ ''/'' @ f @ newline # x) = h' @ (r @ z)" using assms(4) w(1) by (simp add: uri_text_def)
    moreover have "\<not> starts_with host_char (port_text p @ ''/'' @ f @ newline # x)" by (simp add: port_text_def host_char_def)
    ultimately have "prefix h' h" using host_ends w(2) by blast
    then have "CHR ''#'' \<in> set h" using w(3) set_mono_prefix by blast
    with assms(1) Abs show False by (auto simp: location_ok_def list_all_iff path_char_def)
  qed (use assms in simp)
qed

lemma PlRx_split:
  assumes "rx_matches PlRx m"
  obtains x z where "m = x @ z" "newline \<notin> set x" "list_all eol_char z"
    | x w z where "m = x @ newline # w @ z" "newline \<notin> set x" "rx_matches uri_rx w" "list_all eol_char z"
proof -
  obtain a b c z where m: "m = a @ b @ c @ z" "rx_matches tag_rx a" "rx_matches (Opt (Grp 2 attrs_rx)) b"
    "rx_matches (Opt loc_rx) c" "list_all eol_char z"
    using assms unfolding PlRx_parts matches_Cat by auto
  have "newline \<notin> set a" using m(2) class_free(2) by (auto simp: tag_rx_def matches_Cat)
  moreover have "newline \<notin> set b" using m(3) attrs_rx_chars by auto
  ultimately have x: "newline \<notin> set (a @ b)" by simp
  show thesis
  proof (cases "c = []")
    case True
    then show thesis using that(1) [of "a @ b" z] x m(1,5) by simp
  next
    case False
    then obtain w where "c = newline # w" "rx_matches uri_rx w" using m(4) by (auto simp: loc_rx_def matches_Cat)
    then show thesis using that(2) [of "a @ b" w z] x m(1,5) by simp
  qed
qed

lemma behind_newline:
  assumes "x @ z = y @ newline # r" "newline \<notin> set x"
  shows "set r \<subseteq> set z"
proof -
  from assms(1) consider us where "z = us @ newline # r" | us where "x = y @ us" "us @ z = newline # r"
    by (auto simp: append_eq_append_conv2)
  then show ?thesis
  proof cases
    case 2
    then have "us = []" using assms(2) by (cases us) auto
    with 2(2) show ?thesis by auto
  qed auto
qed

lemma no_newline_before:
  assumes "newline \<notin> set x" "newline \<notin> set y" "x @ newline # r = y @ newline # s"
  shows "x = y \<and> r = s"
proof -
  have t: "takeWhile (\<lambda>c. c \<noteq> newline) (u @ newline # v) = u" if "newline \<notin> set u" for u v
    using that by (induction u) auto
  have "x = y" using t [OF assms(1), of r] t [OF assms(2), of s] assms(3) by simp
  with assms(3) show ?thesis by simp
qed

lemma attrs_text_newline:
  assumes "list_all (list_all attr_char) as"
  shows "newline \<notin> set (attrs_text as)"
proof -
  have "\<forall>a \<in> set as. newline \<notin> set a" using assms attr_no_newline unfolding list_all_iff [of _ as] by blast
  then show ?thesis by (cases as) (auto simp: attrs_text_def)
qed

lemma entry_halts:
  assumes "entry_ok (t, as, l)" "rest = [] \<or> hd rest = CHR ''#''"
  shows "halts PlRx (entry_text (t, as, l)) rest"
  unfolding halts_def
proof (intro allI impI notI)
  fix u v assume u: "rest = u @ v" "u \<noteq> []" and m: "rx_matches PlRx (entry_text (t, as, l) @ u)"
  obtain u' where u': "u = CHR ''#'' # u'" using u assms(2) by (cases u) auto
  let ?H = "''#EXT'' @ t @ attrs_text as"
  let ?R = "if l = NoUri then u else uri_text l @ newline # u"
  have E: "entry_text (t, as, l) @ u = ?H @ newline # ?R" by (simp add: entry_text_def location_text_def)
  have "newline \<notin> set t" using assms(1) class_free(2) by (simp add: entry_ok_def)
  moreover have "list_all (list_all attr_char) as" using assms(1) by (simp add: entry_ok_def list_all_iff)
  then have "newline \<notin> set (attrs_text as)" by (rule attrs_text_newline)
  ultimately have H: "newline \<notin> set ?H" by simp
  have hash: "CHR ''#'' \<notin> set z" if "list_all eol_char z" for z using class_free(4) [OF that] .
  from m show False
  proof (cases rule: PlRx_split)
    case (1 x z)
    from 1(1) E have e: "x @ z = ?H @ newline # ?R" by simp
    then have "set ?R \<subseteq> set z" by (rule behind_newline [OF _ 1(2)])
    moreover have "CHR ''#'' \<in> set ?R" by (simp add: u')
    ultimately show False using hash [OF 1(3)] by blast
  next
    case (2 x w z)
    have "?H @ newline # ?R = x @ newline # (w @ z)" using 2(1) unfolding E by simp
    then have R: "?R = w @ z" using no_newline_before [OF H 2(2)] by blast
    moreover have "CHR ''#'' \<in> set ?R" by (simp add: u')
    ultimately have w: "CHR ''#'' \<in> set w" using hash [OF 2(4)] by auto
    show False
    proof (cases "l = NoUri")
      case True
      then have "w \<noteq> [] \<and> hd w = CHR ''#''" using R u' uri_rx_last [OF 2(3)] by (cases w) auto
      moreover obtain h r where "w = ''http://'' @ h @ r" using uri_rx_hash [OF 2(3) w] by metis
      ultimately show False by simp
    next
      case False
      with location_no_hash [OF _ False 2(3), of u z] R w assms(1) show False by (simp add: entry_ok_def)
    qed
  qed
qed

section \<open>Reading a playlist\<close>

lemma chain_groups_keys: "set (map fst (chain_groups n bs)) = {n..<n + 2 * length bs}"
proof (induction n bs rule: chain_groups.induct)
  case (2 n b bs)
  have "{n..<n + 2 * length (b # bs)} = {n, n + 1} \<union> {n + 2..<n + 2 + 2 * length bs}" by auto
  with 2 show ?case by simp
qed simp

lemma chain_groups_attr: "j < length bs \<Longrightarrow> map_of (chain_groups n bs) (n + 1 + 2 * j) = Some (bs ! j)"
proof (induction n bs arbitrary: j rule: chain_groups.induct)
  case (2 n b bs)
  show ?case
  proof (cases j)
    case (Suc k)
    with 2 have "map_of (chain_groups (n + 2) bs) (n + 2 + 1 + 2 * k) = Some (bs ! k)" by simp
    with Suc show ?thesis by (simp add: add.commute add.left_commute)
  qed simp
qed simp

lemma map_of_None_keys: "k \<notin> set (map fst g) \<Longrightarrow> map_of g k = None"
  by (simp add: map_of_eq_None_iff)

lemma entry_groups:
  fixes tg :: string
  assumes "length as \<le> 6" "loc_groups_ok l g"
  defines "gs \<equiv> (1, tg) # attr_groups as @ g"
  shows "map_of gs 1 = Some tg" "j < length as \<Longrightarrow> map_of gs (3 + 2 * j) = Some (as ! j)"
    "length as \<le> j \<Longrightarrow> j \<le> 5 \<Longrightarrow> map_of gs (3 + 2 * j) = None"
    "14 \<le> n \<Longrightarrow> map_of gs n = map_of g n"
proof -
  have keys: "set (map fst (attr_groups as)) \<subseteq> {2..<2 + 2 * length as}"
    by (cases as) (auto simp: attr_groups_def chain_groups_keys simp del: set_map)
  have g: "set (map fst g) \<subseteq> {14..20}" using assms(2) by (simp add: loc_groups_ok_def)
  show "map_of gs 1 = Some tg" by (simp add: gs_def)
  show "map_of gs n = map_of g n" if "14 \<le> n"
  proof -
    have "n \<notin> set (map fst (attr_groups as))" using keys assms(1) that by fastforce
    then have "map_of (attr_groups as) n = None" by (rule map_of_None_keys)
    then show ?thesis using that by (simp add: gs_def map_add_def)
  qed
  show "map_of gs (3 + 2 * j) = None" if "length as \<le> j" "j \<le> 5"
  proof -
    have "3 + 2 * j \<notin> set (map fst (attr_groups as))" "3 + 2 * j \<notin> set (map fst g)"
      using keys g that by fastforce+
    from this [THEN map_of_None_keys] show ?thesis by (simp add: gs_def map_add_def)
  qed
  show "map_of gs (3 + 2 * j) = Some (as ! j)" if j: "j < length as"
  proof -
    obtain a bs where as: "as = a # bs" using j by (cases as) auto
    have "map_of (attr_groups as) (3 + 2 * j) = Some (as ! j)"
    proof (cases j)
      case (Suc k)
      then have "map_of (chain_groups 4 bs) (4 + 1 + 2 * k) = Some (bs ! k)" using j as by (intro chain_groups_attr) simp
      with Suc show ?thesis by (simp add: as attr_groups_def)
    qed (simp add: as attr_groups_def)
    moreover have "map_of g (3 + 2 * j) = None" using g j assms(1) by (intro map_of_None_keys) fastforce
    ultimately show ?thesis by (simp add: gs_def map_add_def)
  qed
qed

lemma collect_attributes_eq:
  assumes "\<And>j. j < length as \<Longrightarrow> group_at v (i + 2 * j) = Some (as ! j)" "i + 2 * length as < length v \<Longrightarrow> group_at v (i + 2 * length as) = None"
    and "i + 2 * length as \<le> Suc (length v)"
  shows "collect_attributes v i = as"
  using assms
proof (induction as arbitrary: i)
  case Nil
  then show ?case by (subst collect_attributes.simps) (auto simp: group_at_def split: if_splits)
next
  case (Cons a as)
  have "group_at v i = Some a" using Cons.prems(1) [of 0] by simp
  note m = group_atD(2) [OF this]
  have "collect_attributes v (i + 2) = as"
  proof (rule Cons.IH)
    show "group_at v (i + 2 + 2 * j) = Some (as ! j)" if "j < length as" for j
      using Cons.prems(1) [of "Suc j"] that by (simp add: add.commute add.left_commute)
  qed (use Cons.prems(2,3) in \<open>simp_all add: add.commute add.left_commute\<close>)
  with m Cons.prems(3) show ?case by (subst collect_attributes.simps) auto
qed

lemma entry_search:
  assumes "entry_ok (t, as, l)" "rest = [] \<or> hd rest = CHR ''#''"
  obtains v where "regex_search PlRx (entry_text (t, as, l) @ rest) = Some v" "sm_text (v ! 0) = entry_text (t, as, l)"
    "record_of base v = \<lparr>Tag = ''#EXT'' @ t, Attributes = attributes_read as l, TsUri = resolved base l\<rparr>"
proof -
  let ?e = "entry_text (t, as, l)"
  obtain g where g: "yields PlRx ?e ((1, ''#EXT'' @ t) # attr_groups as @ g)" "loc_groups_ok l g"
    using entry_yields [OF assms(1)] .
  let ?gs = "(1, ''#EXT'' @ t) # attr_groups as @ g"
  have "regexec PlRx (?e @ rest) = Some (0, ?e, ?gs)" by (rule regexec_yields [OF g(1) entry_halts [OF assms]])
  from regex_search_groups [OF this] obtain v where v: "regex_search PlRx (?e @ rest) = Some v"
    "length v = Suc (re_nsub PlRx)" "sm_text (v ! 0) = ?e"
    "\<And>n. 1 \<le> n \<Longrightarrow> n \<le> re_nsub PlRx \<Longrightarrow> group_at v n = map_of ?gs n" by metis
  have sub: "re_nsub PlRx = 20"
    by (simp add: PlRx_def attrs_rx_def more_attr_def uri_rx_def host_rx_def)
  have len: "length as \<le> 6" and ok: "location_ok l" using assms(1) by (simp_all add: entry_ok_def)
  note eg = entry_groups [where tg = "''#EXT'' @ t", OF len g(2)]
  have grp: "group_at v n = map_of g n" if "14 \<le> n" "n \<le> 20" for n
    using v(4) [of n] eg(4) [of n] that unfolding sub by simp
  have "group_at v 1 = Some (''#EXT'' @ t)" using v(4) [of 1] eg(1) unfolding sub by simp
  then have tag: "str (v ! 1) = ''#EXT'' @ t" using group_atD by blast
  have own: "group_at v (3 + 2 * j) = Some (as ! j)" if "j < length as" for j
    using v(4) [of "3 + 2 * j"] eg(2) [OF that] that len unfolding sub by simp
  have attrs: "collect_attributes v 3 = attributes_read as l"
  proof (cases "length as = 6")
    case False
    have "group_at v (3 + 2 * length as) = None"
      using v(4) [of "3 + 2 * length as"] eg(3) [of "length as"] len False unfolding sub by simp
    then have "collect_attributes v 3 = as"
      by (intro collect_attributes_eq) (use own v(2) len sub in auto)
    with False show ?thesis by (simp add: attributes_read_def)
  next
    case True
    let ?s = "spilled l"
    have s: "(\<forall>j < length ?s. group_at v (15 + 2 * j) = Some (?s ! j)) \<and> length ?s \<le> 3 \<and>
        (length ?s < 3 \<longrightarrow> group_at v (15 + 2 * length ?s) = None)"
      using g(2) grp [of 15] grp [of 17] grp [of 19]
      by (cases l) (auto simp: loc_groups_ok_def spilled_def loc_host_def loc_port_def uri_text_def less_Suc_eq
          numeral_eq_Suc)
    have "collect_attributes v 3 = as @ ?s"
    proof (rule collect_attributes_eq)
      show "group_at v (3 + 2 * j) = Some ((as @ ?s) ! j)" if "j < length (as @ ?s)" for j
      proof (cases "j < 6")
        case False
        then obtain k where "j = 6 + k" using le_Suc_ex by (metis not_less)
        with s that True show ?thesis by (auto simp: nth_append)
      qed (use own True in \<open>simp add: nth_append\<close>)
    qed (use s True v(2) sub in auto)
    with True show ?thesis by (simp add: attributes_read_def)
  qed
  have "record_uri base v = resolved base l"
  proof (cases "l = NoUri")
    case True
    with g(2) have "group_at v 15 = None" using grp [of 15] by (simp add: loc_groups_ok_def)
    with True show ?thesis by (simp add: record_uri_def resolved_def group_at_def split: if_splits)
  next
    case False
    with g(2) have m: "group_at v 15 = Some (uri_text l)" "group_at v 17 = loc_host l" "group_at v 19 = loc_port l"
      "group_at v 20 = Some (loc_path l)"
      using grp [of 15] grp [of 17] grp [of 19] grp [of 20] by (simp_all add: loc_groups_ok_def)
    show ?thesis
      using group_atD(2) [OF m(1)] group_atD(2) [OF m(4)] m(2,3) False
      by (cases l) (auto simp: record_uri_def resolved_def loc_host_def loc_port_def loc_path_def dest: group_atD split: if_splits)
  qed
  with v(1,3) tag attrs that show thesis by (simp add: record_of_def)
qed

lemma entry_text_nul_free:
  assumes "entry_ok (t, as, l)"
  shows "nul_free (entry_text (t, as, l))"
proof -
  have "\<not> tag_char NUL" by (simp add: tag_char_def less_eq_char_def)
  then have t: "nul_free t" using assms list_all_not [of tag_char t NUL] by (simp add: entry_ok_def nul_free_def)
  have "\<forall>a \<in> set as. nul_free a" using assms by (auto simp: entry_ok_def list_all_iff)
  then have as: "nul_free (attrs_text as)"
    by (cases as) (auto simp: attrs_text_def nul_free_def)
  have "nul_free (port_text p)" if "list_all isdigit p" for p
    using digits_no_slash [OF that] by (simp add: port_text_def nul_free_def)
  then have "nul_free (location_text l)"
    using assms by (cases l) (simp_all add: location_text_def uri_text_def entry_ok_def location_ok_def path_ok_def)
  with t as show ?thesis by (simp add: entry_text_def)
qed

text \<open>The records of a text in the format.\<close>

definition entry_records :: "uri \<Rightarrow> entry list \<Rightarrow> play_record list" where
  "entry_records base es =
     map (\<lambda>(t, as, l). \<lparr>Tag = ''#EXT'' @ t, Attributes = attributes_read as l, TsUri = resolved base l\<rparr>) es"

lemma playlist_records_entries:
  "list_all entry_ok es \<Longrightarrow> playlist_records base (concat (map entry_text es)) = entry_records base es"
proof (induction es)
  case Nil
  then show ?case by (simp add: playlist_records.simps [of base "[]"] entry_records_def)
next
  case (Cons e es)
  obtain t as l where e: "e = (t, as, l)" by (metis prod.exhaust)
  let ?r = "concat (map entry_text es)"
  have "?r = [] \<or> hd ?r = CHR ''#''" by (cases es) (auto simp: entry_text_def)
  then obtain v where v: "regex_search PlRx (entry_text e @ ?r) = Some v" "sm_text (v ! 0) = entry_text e"
    "record_of base v = \<lparr>Tag = ''#EXT'' @ t, Attributes = attributes_read as l, TsUri = resolved base l\<rparr>"
    using entry_search [of t as l ?r base] Cons.prems unfolding e by auto
  have "nul_free (entry_text x)" if "x \<in> set (e # es)" for x
    using Cons.prems that entry_text_nul_free by (cases x) (auto simp: list_all_iff)
  then have "nul_free (entry_text e @ ?r)" by (auto simp: nul_free_def)
  then have c: "cstr (entry_text e @ ?r) 0 = entry_text e @ ?r" by (rule cstr_nul_free)
  have "entry_text e @ ?r \<noteq> []" by (simp add: e entry_text_def)
  then have "playlist_records base (entry_text e @ ?r) = record_of base v # playlist_records base ?r"
    using v(1,2) c by (subst playlist_records.simps) simp
  with Cons v(3) e show ?case by (simp add: entry_records_def)
qed

text \<open>C3: a playlist in the supported format is read as it was written: the tags with their attributes
  and the addresses, absolute ones as they are and the others relative to the playlist; also those that
  begin with a slash and so are meant relative to the root of the server. Only when a
  tag has six attributes and an address, the address, its host and its port are read as attributes too.\<close>

theorem playlist_roundtrip:
  assumes "list_all entry_ok es"
  shows "playlist_records base (concat (map entry_text es)) =
    map (\<lambda>(t, as, l). \<lparr>Tag = ''#EXT'' @ t, Attributes = attributes_read as l, TsUri = resolved base l\<rparr>) es"
  unfolding playlist_records_entries [OF assms] by (rule entry_records_def)

text \<open>A playlist with a relative and an absolute address.\<close>

definition demo_entries :: "entry list" where
  "demo_entries =
     [(''M3U'', [], NoUri), (''INF'', [''9.5'', ''title''], Rel ''a.ts''), (''INF'', [''8''], Abs ''h.tv'' ''8080'' ''b.ts''),
      (''INF'', [''7''], Root ''z/c.ts'')]"

lemma demo_entries_ok: "list_all entry_ok demo_entries"
  by (simp add: demo_entries_def entry_ok_def location_ok_def path_ok_def tag_char_def attr_char_def path_char_def
      host_char_def isdigit_def less_eq_char_def)

theorem playlist_roundtrip_witness:
  "playlist_records \<lparr>host = ''h'', port = [], path = ''x/y.m3u8''\<rparr> (concat (map entry_text demo_entries)) =
    [\<lparr>Tag = ''#EXTM3U'', Attributes = [], TsUri = no_uri\<rparr>,
     \<lparr>Tag = ''#EXTINF'', Attributes = [''9.5'', ''title''], TsUri = \<lparr>host = ''h'', port = [], path = ''x/a.ts''\<rparr>\<rparr>,
     \<lparr>Tag = ''#EXTINF'', Attributes = [''8''], TsUri = \<lparr>host = ''h.tv'', port = ''8080'', path = ''b.ts''\<rparr>\<rparr>,
     \<lparr>Tag = ''#EXTINF'', Attributes = [''7''], TsUri = \<lparr>host = ''h'', port = [], path = ''x/z/c.ts''\<rparr>\<rparr>]"
  using playlist_roundtrip [OF demo_entries_ok, of "\<lparr>host = ''h'', port = [], path = ''x/y.m3u8''\<rparr>"]
  by (simp add: demo_entries_def resolved_def uri_resolve_def up_to_slash_def attributes_read_def)

end
