(* ===== verification/HlsRead.thy ===== *)
theory HlsRead
  imports HlsFetch HlsPlayText HlsHistory
begin

text \<open>
  Reading a playlist from end to end: connection, request, response, body and records (\<open>ReadM3U8\<close>),
  when the network works and the server sends a playlist in the supported format.
\<close>

lemma getResponce_ok:
  assumes "http_exchange w u (client_stream c) h = (Inr resp, s', h')" and "\<not> is_redirect resp"
  shows "getResponce w u c h = (Inr resp, u, \<lparr>clientUri = u, client_stream = s'\<rparr>, h')"
proof -
  have "attempts (Suc n) w r u c h = (Inr resp, u, \<lparr>clientUri = u, client_stream = s'\<rparr>, h')" for n r
    using assms by (simp add: Let_def)
  from this [of 4] show ?thesis by (simp add: getResponce_def eval_nat_numeral del: attempts.simps)
qed

lemma copyToString_all:
  "flags_good s \<Longrightarrow> end_flow s = AtEof \<Longrightarrow> \<exists>s'. copyToString s = (length (avail s), avail s, s')"
  using copy_loop_all [of s] by (auto simp: copyToString_def)

text \<open>What happens with servers: one connection for every address of a list, all on the socket \<open>sd\<close>, and on
  each of them the request for it and nothing else.\<close>

definition asked :: "int \<Rightarrow> uri list \<Rightarrow> hls_state \<Rightarrow> hls_state \<Rightarrow> bool" where
  "asked sd us h h' \<longleftrightarrow>
     connections h' = connections h @ map (\<lambda>u. (sd, getHost u, getPort u)) us \<and>
     sent_on sd h' = sent_on sd h @ concat (map (request_lines [newline]) us)"

lemma asked_trans: "asked sd us h h1 \<Longrightarrow> asked sd vs h1 h2 \<Longrightarrow> asked sd (us @ vs) h h2"
  by (simp add: asked_def)

lemma exchange_asked:
  "http_exchange w u s h = (Inr resp, s', h') \<Longrightarrow> sock s' = sd \<Longrightarrow> asked sd [u] h h'"
  using exchange_sends [of w u s h resp s' h'] by (auto simp: asked_def)

text \<open>When the network works and the server answers with the status 200 and a playlist in the supported
  format (any reason, any headers of the format, either end of line, in whatever pieces), beginning
  with the record \<open>#EXTM3U\<close> and with another one, reading the playlist succeeds and the viewer has exactly
  its records, addresses resolved against that of the playlist.\<close>

lemma ReadM3U8_listing:
  fixes v :: "'d viewer"
  assumes "sends_all w" and "\<And>n h p. getaddrinfo w n h p = (0, [(fd, True)])" and "0 \<le> fd"
    and "arriving (answers w (hls_calls h) (VideoUri v)) = response_text e 200 why hs @ concat (map entry_text es)"
    and "left_over (answers w (hls_calls h) (VideoUri v)) = []"
    and "eol_ok e" and "text_ok why" and "\<forall>kv \<in> set hs. header_ok kv" and "32 \<le> hls_long_bits w"
    and "list_all entry_ok es" and "fst (hd es) = ''M3U''" and "2 \<le> length es"
  shows "\<exists>v' h'. ReadM3U8 w v h = (Inr (), v', h') \<and> PlayList v' = entry_records (VideoUri v) es \<and>
    VideoUri v' = VideoUri v \<and> asked fd [VideoUri v] h h'"
proof -
  let ?r = "\<lparr>status = int 200, reason = why, headers = map_of (rev hs)\<rparr>"
  obtain s1 h1 where x: "http_exchange w (VideoUri v) (client_stream (M3U8Client v)) h = (Inr ?r, s1, h1)"
      "avail s1 = concat (map entry_text es)" "stream_good s1" "end_flow s1 = AtEof" "sock s1 = fd"
    using http_exchange_ok [OF assms(1,2,3,4,6) _ assms(7,8,9)] assms(5) by fastforce
  have "\<not> is_redirect ?r"
    by (simp add: is_redirect_def HTTP_FOUND_def HTTP_MOVED_PERMANENTLY_def HTTP_TEMPORARY_REDIRECT_def)
  note g = getResponce_ok [OF x(1) this]
  obtain s2 where c: "copyToString s1 = (length (avail s1), avail s1, s2)"
    using copyToString_all [of s1] x(3,4) by (auto simp: stream_good_def)
  have p: "playlist_records (VideoUri v) (avail s1) = entry_records (VideoUri v) es"
    unfolding x(2) by (rule playlist_records_entries [OF assms(10)])
  obtain l es' where "es = (''M3U'', l) # es'"
    using assms(11,12) by (cases es) auto
  then have "Tag (entry_records (VideoUri v) es ! 0) = ''#EXTM3U''" "length (entry_records (VideoUri v) es) \<ge> 2"
    using assms(12) by (simp_all add: entry_records_def split: prod.split)
  then show ?thesis
    using g c p exchange_asked [OF x(1,5)] by (simp add: ReadM3U8_def Let_def HTTP_OK_def)
qed

text \<open>A server that sends a playlist with one segment, in two pieces.\<close>

definition demo_listing :: "entry list" where
  "demo_listing = [(''M3U'', [], NoUri), (''INF'', [''8''], Rel ''s.ts'')]"

definition demo_site :: hls_world where
  "demo_site = demo_net (\<lambda>_ _. [Data (response_text [newline] 200 ''OK'' []),
     Data (concat (map entry_text demo_listing))])"

lemma demo_listing_ok: "list_all entry_ok demo_listing"
  by (simp add: demo_listing_def entry_ok_def location_ok_def path_ok_def tag_char_def attr_char_def path_char_def
      host_char_def isdigit_def less_eq_char_def)

lemma demo_site_ok:
  "sends_all demo_site" "getaddrinfo demo_site n x p = (0, [(5, True)])" "32 \<le> hls_long_bits demo_site"
  "arriving (answers demo_site n u) = response_text [newline] 200 ''OK'' [] @ concat (map entry_text demo_listing)"
  "left_over (answers demo_site n u) = []"
  by (simp_all add: demo_site_def response_text_def demo_listing_def entry_text_def)

lemma demo_answer_ok: "eol_ok [newline]" "text_ok ''OK''" "\<forall>kv \<in> set []. header_ok kv" "(0 :: int) \<le> 5"
  "fst (hd demo_listing) = ''M3U''" "2 \<le> length demo_listing"
  by (simp_all add: eol_ok_def text_ok_def isspace_def demo_listing_def)

lemma demo_site_read:
  "\<exists>v' h'. ReadM3U8 demo_site v h = (Inr (), v', h') \<and> PlayList v' = entry_records (VideoUri v) demo_listing"
  using ReadM3U8_listing [OF demo_site_ok(1,2) demo_answer_ok(4) demo_site_ok(4,5) demo_answer_ok(1-3) demo_site_ok(3)
      demo_listing_ok demo_answer_ok(5,6), of v] by blast

end
