(* ===== verification/HlsSignal.thy ===== *)
theory HlsSignal
  imports HlsChild HlsConn HlsRead
begin

text \<open>
  What holds of the child in every state it can reach, with \<open>SIGHUP\<close> at any points of its program: the
  types of its variables, what the player gets, the life of its socket, and how the signal ends the child.
\<close>

section \<open>What a step does to the player's stream\<close>

fun player_op :: "hls_world \<Rightarrow> 'd point \<Rightarrow> sstream \<Rightarrow> hls_state \<Rightarrow> sstream \<times> hls_state" where
  "player_op w Greet s h = (let (s, h) = stream_write w response_header s h in stream_flush w s h)"
| "player_op w (Put start k i byteDelay tsTime x) s h = stream_write w x s h"
| "player_op w _ s h = (s, h)"

text \<open>One output operation after the other is one.\<close>

lemma out_op_seq:
  assumes "out_op f x" "out_op g y"
  shows "out_op (\<lambda>s h. let (s, h) = f s h in g s h) (x @ y)"
proof
  fix fd W s h s' h' assume a: "fifo fd W s h" "(let (s, h) = f s h in g s h) = (s', h')"
  obtain s1 h1 where "f s h = (s1, h1)" by fastforce
  with out_op.keeps_fifo [OF assms(1) a(1) this] a(2) out_op.keeps_fifo [OF assms(2)]
  show "fifo fd (W @ x @ y) s' h'" by fastforce
next
  fix s fd h s' h' assume a: "sock s \<noteq> fd" "(let (s, h) = f s h in g s h) = (s', h')"
  obtain s1 h1 where "f s h = (s1, h1)" by fastforce
  with out_op.other_sockets [OF assms(1) a(1) this] a out_op.other_sockets [OF assms(2), of s1 fd h1]
  show "sent_on fd h' = sent_on fd h \<and> sock s' = sock s" by simp
qed

interpretation step_op: out_op "player_op w p" "puts p" for w and p :: "'d point"
proof (cases p)
  case Greet
  have *: "player_op w Greet = (\<lambda>s h. let (s, h) = stream_write w response_header s h in stream_flush w s h)"
    by (intro ext) simp
  have "out_op (player_op w Greet) (response_header @ [])"
    unfolding * by (rule out_op_seq [OF write_op.out_op_axioms flush_op.out_op_axioms])
  with Greet show "out_op (player_op w p) (puts p)" by simp
next
  case (Put start k i bd t x)
  have "player_op w (Put start k i bd t x) = stream_write w x" by (intro ext) simp
  with write_op.out_op_axioms Put show "out_op (player_op w p) (puts p)" by simp
qed (simp_all, (unfold_locales; simp)+)

lemma player_op_closes: "player_op w p s h = (s', h') \<Longrightarrow> closes fd h' = closes fd h"
proof (cases p)
  case Greet
  obtain s1 h1 where "stream_write w response_header s h = (s1, h1)" by fastforce
  moreover assume "player_op w p s h = (s', h')"
  ultimately show ?thesis using Greet stream_write_closes [of w response_header s h s1 h1 fd] stream_flush_closes [of w s1 h1]
    by simp
qed (auto dest: stream_write_closes)

context conn_inv
begin

text \<open>All else a step of \<open>Run\<close> does is in the frame.\<close>

lemma viewer_next_I:
  assumes v: "clients I v" and n: "viewer_next L w p v h = (p', v', h')"
  shows "clients I v' \<and> (\<exists>h1. player_op w p (VideoStream v) h = (VideoStream v', h1) \<and> R h1 h')"
proof (cases p)
  case Begin
  with n ReadM3U8_I [OF v] show ?thesis
    by (auto simp: same_player_def split: prod.splits sum.splits)
next
  case Greet
  with n v show ?thesis by (auto simp: greet_def clients_def split: prod.splits)
next
  case Choose
  with n choose_stream_I [OF v] show ?thesis
    by (auto simp: same_player_def log_R split: prod.splits sum.splits)
next
  case (Pass start k)
  obtain r1 k1 v1 h1 where 1: "read_records L w k v h = (r1, k1, v1, h1)" by (metis prod.exhaust)
  note v1 = read_records_I [OF v 1]
  show ?thesis
  proof (cases "\<exists>c. r1 = Inr c \<and> addedTs c = 0")
    case True
    then obtain c where c: "r1 = Inr c" "addedTs c = 0" by blast
    obtain r2 k2 v2 h2 where 2: "empty_round L w c k1 v1 h1 = (r2, k2, v2, h2)" by (metis prod.exhaust)
    with empty_round_I [OF _ 2] v1 n Pass 1 c show ?thesis by (auto simp: same_player_def intro: trans)
  next
    case False
    with n Pass 1 v1 show ?thesis
      by (auto simp: cut_history_def clients_def Let_def split: sum.splits if_splits)
  qed
next
  case (Segment start k i)
  with n open_segment_I [OF v] segments_end_I [OF v] show ?thesis
    by (auto simp: same_player_def split: if_splits prod.splits sum.splits)
next
  case (Block start k i bd t)
  with n stream_read_client [OF v] v show ?thesis
    by (auto simp: clients_def split: if_splits prod.splits)
next
  case (Put start k i bd t x)
  with n v show ?thesis
    by (auto simp: clients_def split: prod.splits dest: write_block_R)
qed (use v n in auto)

end

section \<open>Types\<close>

text \<open>At each point of \<open>Run\<close>: the index of the segment is inside the list; before anything is written the
  buffer is empty, and there is room in it wherever something may be written.\<close>

definition room :: "'d viewer \<Rightarrow> bool" where
  "room v \<longleftrightarrow> (stream_good (VideoStream v) \<longrightarrow> length (obuf (VideoStream v)) < BUF_SIZE)"

fun point_typed :: "'d point \<Rightarrow> 'd viewer \<Rightarrow> bool" where
  "point_typed Begin v = (obuf (VideoStream v) = [])"
| "point_typed Greet v = (obuf (VideoStream v) = [])"
| "point_typed Choose v = room v"
| "point_typed (Pass start k) v = room v"
| "point_typed (Segment start k i) v = (room v \<and> i \<le> length (TsList v))"
| "point_typed (Block start k i byteDelay tsTime) v = (room v \<and> i < length (TsList v))"
| "point_typed (Put start k i byteDelay tsTime x) v =
     (length (obuf (VideoStream v)) < BUF_SIZE \<and> i < length (TsList v) \<and> length x \<le> TS_BUF_LEN)"
| "point_typed (Returned e) v = True"
| "point_typed (Exited rc) v = True"
| "point_typed _ v = False"

definition viewer_typed :: "'d viewer \<Rightarrow> bool" where
  "viewer_typed v \<longleftrightarrow> fits (VideoStream v) \<and> fits (client_stream (M3U8Client v)) \<and>
     fits (client_stream (tsClient v)) \<and> length (TsList v) \<le> MaxHistLen v"

text \<open>There is a viewer exactly from the end of its constructor on.\<close>

fun before_viewer :: "'d point \<Rightarrow> bool" where
  "before_viewer Enter = True"
| "before_viewer Construct = True"
| "before_viewer (Returned e) = True"
| "before_viewer (Exited rc) = True"
| "before_viewer _ = False"

definition child_typed :: "'d point \<Rightarrow> 'd server \<Rightarrow> bool" where
  "child_typed p s \<longleftrightarrow>
     (case vview s of None \<Rightarrow> before_viewer p | Some v \<Rightarrow> viewer_typed v \<and> point_typed p v)"

lemma sgetn_length: "sgetn n s = (x, f, s') \<Longrightarrow> length x \<le> n"
proof (induction n arbitrary: s x)
  case (Suc n)
  obtain c f1 s1 where "sbumpc s = ((c, f1), s1)" by (metis prod.exhaust)
  with Suc show ?case by (cases c) (auto split: prod.splits)
qed simp

lemma stream_read_length: "stream_read n s = (x, s') \<Longrightarrow> length x \<le> n"
  by (auto simp: stream_read_def split: if_splits prod.splits flow.splits dest: sgetn_length)

lemma viewer_next_typed:
  fixes L :: "'d stdlib"
  assumes v: "viewer_typed v" "point_typed p v" and n: "viewer_next L w p v h = (p', v', h')"
  shows "viewer_typed v' \<and> point_typed p' v'"
proof -
  have c: "clients fits v" using v(1) by (simp add: clients_def viewer_typed_def)
  obtain h1 where h1: "clients fits v'" "player_op w p (VideoStream v) h = (VideoStream v', h1)"
    using in_bounds.viewer_next_I [OF c n] by blast
  have sp: "viewer_typed v1" "room v1 = room v" "point_typed (Returned e) v1" "obuf (VideoStream v1) = obuf (VideoStream v)"
    if "clients fits v1" "same_player v v1" for v1 e
    using that v(1) by (auto simp: clients_def viewer_typed_def same_player_def room_def)
  show ?thesis
  proof (cases p)
    case Begin
    with n v sp [OF _] in_bounds.ReadM3U8_I [OF c] show ?thesis by (auto split: prod.splits sum.splits)
  next
    case Greet
    obtain s1 h2 where 1: "stream_write w response_header (VideoStream v) h = (s1, h2)" by fastforce
    have "writable s1"
      using stream_write_room [OF _ _ 1] v Greet by (simp add: viewer_typed_def BUF_SIZE_def)
    then have "writable (VideoStream v')"
      using h1(2) 1 Greet stream_flush_writable by auto
    moreover have "TsList v' = TsList v" "MaxHistLen v' = MaxHistLen v" "p' = Choose"
      using n Greet by (auto simp: greet_def split: prod.splits)
    ultimately show ?thesis
      using h1(1) v(1) by (auto simp: viewer_typed_def clients_def writable_def room_def stream_good_def)
  next
    case Choose
    with n v sp in_bounds.choose_stream_I [OF c] show ?thesis by (auto split: prod.splits sum.splits)
  next
    case (Pass start k)
    obtain r1 k1 v1 h1 where 1: "read_records L w k v h = (r1, k1, v1, h1)" by (metis prod.exhaust)
    note v1 = in_bounds.read_records_I [OF c 1]
    then have room1: "room v1 = room v" "clients fits v1" "fits (VideoStream v1)"
      using v(1) by (simp_all add: room_def viewer_typed_def)
    show ?thesis
    proof (cases r1)
      case (Inl e)
      then have "v1 = v" using 1 by (auto simp: read_records_def Let_def split: prod.splits sum.splits)
      with Inl n Pass 1 v show ?thesis by auto
    next
      case (Inr c1)
      then obtain h2 where s: "scan_records L w (PlayList v) (scan_start L (TsList v) (endSeen k)) h = (Inr c1, h2)"
        and ts: "TsList v1 = ts_list c1" using 1 by (auto simp: read_records_def Let_def split: prod.splits sum.splits)
      obtain new where new: "ts_list c1 = TsList v @ new" "addedTs c1 = length new" using scan_playlist [OF s] by metis
      show ?thesis
      proof (cases "addedTs c1 = 0")
        case True
        then have t: "viewer_typed v1" using new ts v1 v(1) room1 by (simp add: viewer_typed_def clients_def)
        obtain r2 k2 v2 h3 where 2: "empty_round L w c1 k1 v1 h1 = (r2, k2, v2, h3)" by (metis prod.exhaust)
        with in_bounds.empty_round_I [OF room1(2) 2] t room1(1) v(2) n Pass 1 Inr True show ?thesis
          by (auto simp: viewer_typed_def clients_def same_player_def room_def after_pass_def split: sum.splits bool.splits)
      next
        case False
        with n Pass 1 Inr v(2) room1 show ?thesis
          by (auto simp: cut_history_def Let_def viewer_typed_def clients_def room_def trim_history_def)
      qed
    qed
  next
    case (Segment start k i)
    have *: "point_typed (after_pass start k r) v1 = (case r of Inr True \<Rightarrow> room v1 | _ \<Rightarrow> True)" for r v1
      by (auto simp: after_pass_def split: sum.split bool.split)
    show ?thesis
    proof (cases "i < length (TsList v) \<and> stream_good (VideoStream v)")
      case True
      obtain r v1 h1 where o: "open_segment L w i v h = (r, v1, h1)" by (metis prod.exhaust)
      from in_bounds.open_segment_I [OF c o] have "clients fits v1" "same_player v v1" by simp_all
      with n Segment True o v(2) sp [OF this] show ?thesis by (auto simp: same_player_def split: sum.splits)
    next
      case False
      obtain r v1 h1 where o: "segments_end w k v h = (r, v1, h1)" by (metis prod.exhaust)
      from in_bounds.segments_end_I [OF c o] have "clients fits v1" "same_player v v1" by simp_all
      moreover have "p' = after_pass start k r" "v' = v1"
        using n unfolding Segment viewer_next.simps if_not_P [OF False] o by simp_all
      ultimately show ?thesis using Segment v(2) sp [of v1] by (auto simp: * split: sum.splits bool.splits)
    qed
  next
    case (Block start k i bd t)
    obtain x s where r: "stream_read TS_BUF_LEN (client_stream (tsClient v)) = (x, s)" by fastforce
    have "length x \<le> TS_BUF_LEN" "fits s"
      using stream_read_length [OF r] in_bounds.stream_read_I [OF _ r] v(1) by (simp_all add: viewer_typed_def)
    with n Block r v show ?thesis by (auto simp: viewer_typed_def room_def split: if_splits)
  next
    case (Put start k i bd t x)
    have "stream_write w x (VideoStream v) h = (VideoStream v', h1)" using h1(2) Put by simp
    from stream_write_room [OF _ _ this] v Put have "writable (VideoStream v')" by (simp add: viewer_typed_def)
    moreover have "TsList v' = TsList v" "MaxHistLen v' = MaxHistLen v" "\<exists>t'. p' = Block start k i bd t'"
      using n Put by (auto split: prod.splits)
    ultimately show ?thesis
      using h1(1) v Put by (auto simp: viewer_typed_def clients_def writable_def room_def stream_good_def)
  qed (use v n in auto)
qed

lemma Stop_typed:
  assumes "Stop v h = (v', h')"
  shows "VideoStream v' = (VideoStream v)\<lparr>sock := INVALID_SOCKET, eofbit := False, failbit := False, badbit := False\<rparr> \<and>
    (viewer_typed v \<longrightarrow> viewer_typed v') \<and> (point_typed p v \<longrightarrow> point_typed p v') \<and> tsClient v' = tsClient v \<and>
    M3U8Client v' = M3U8Client v"
proof -
  have "VideoStream v' = (VideoStream v)\<lparr>sock := INVALID_SOCKET, eofbit := False, failbit := False, badbit := False\<rparr>"
    "\<exists>x. v' = v\<lparr>VideoStream := x\<rparr>"
    using assms by (auto simp: Stop_def stream_close_def buf_close_def Let_def split: prod.splits if_splits)
  then show ?thesis by (cases p) (auto simp: viewer_typed_def room_def stream_good_def fits_def)
qed

text \<open>The constructor: the new viewer, or the socket closed once.\<close>

lemma VideoViewer_fresh:
  fixes r :: "hls_exn + 'd viewer"
  assumes "VideoViewer w q fd a h = (r, h')"
  shows "case r of
      Inl e \<Rightarrow> sent_on fd h' = sent_on fd h \<and> (fd \<noteq> INVALID_SOCKET \<longrightarrow> closes fd h' = closes fd h + 1)
    | Inr v \<Rightarrow> fits (VideoStream v) \<and> obuf (VideoStream v) = [] \<and> sock (VideoStream v) = fd \<and> still fd h h' \<and>
        M3U8Client v = new_client \<and> tsClient v = new_client \<and> TsList v = [] \<and> MaxHistLen v = 0"
proof -
  obtain s h1 where 1: "stream_open fd a new_stream h = (s, h1)" by fastforce
  then have s: "h1 = h" "fits s" "sock s = fd \<and> obuf s = []"
    by (auto simp: stream_open_def stream_close_def buf_close_def new_stream_def fits_def BUF_SIZE_def)
  obtain req s1 where 2: "http_request s = (req, s1)" by fastforce
  have s1: "fits s1" "sock s1 = fd \<and> obuf s1 = []"
    using in_bounds.http_request_I [OF s(2) 2] out_side.http_request_I [OF s(3) 2] by simp_all
  have c: "sent_on fd (snd (stream_close s1 h2)) = sent_on fd h \<and>
      (fd \<noteq> INVALID_SOCKET \<longrightarrow> closes fd (snd (stream_close s1 h2)) = closes fd h + 1)" if "still fd h h2" for h2
    using that stream_close_apart [of s1 h2 "fst (stream_close s1 h2)" "snd (stream_close s1 h2)" fd] s1(2)
    by (auto simp: still_def)
  show ?thesis
  proof (cases "\<exists>p reqStr. req = Inr p \<and> uri_decode p False = Inr reqStr")
    case False
    with assms 1 2 s(1) c [of h] show ?thesis by (auto simp: VideoViewer_def Let_def split: sum.splits)
  next
    case True
    then obtain p reqStr where t: "req = Inr p" "uri_decode p False = Inr reqStr" by blast
    obtain ru q2 h2 where 3: "user_request w reqStr q h = (ru, q2, h2)" by (metis prod.exhaust)
    have "still fd h h2" using stillness.user_request_R [OF 3] .
    with assms 1 2 s(1) s1 t 3 c [of h2] stillness.log_R show ?thesis
      by (auto simp: VideoViewer_def Let_def split: sum.splits)
  qed
qed

lemma handle_SIGHUP_cases:
  assumes "handle_SIGHUP s h = (s', h')"
  obtains (before) "vview s = None" "s' = s" "h' = h"
    | (stop) v v' where "vview s = Some v" "Stop v h = (v', h')" "s' = s\<lparr>vview := Some v'\<rparr>"
  using assms by (auto simp: handle_SIGHUP_def split: option.splits prod.splits)

text \<open>The steps of the child, as steps before the viewer, of the viewer, and after it.\<close>

lemma child_next_cases:
  fixes L :: "'d stdlib"
  assumes "child_next L w q fd a (p, s, h) = (p', s', h')" and "child_typed p s" and "\<not> exited p"
  obtains (prepared) r where "p = Enter" "child_setup w fd s h = (r, s', h')" "vview s = None"
      "p' = (case r of Inl e \<Rightarrow> Returned (Some e) | Inr _ \<Rightarrow> Construct)"
    | (failed) e where "p = Construct" "VideoViewer w q fd a h = (Inl e :: hls_exn + 'd viewer, h')" "s' = s" "p' = Returned (Some e)"
    | (constructed) v where "p = Construct" "VideoViewer w q fd a h = (Inr v, h')" "s' = s\<lparr>vview := Some v\<rparr>" "p' = Begin"
    | (viewer) v v' where "vview s = Some v" "viewer_next L w p v h = (p', v', h')" "s' = s\<lparr>vview := Some v'\<rparr>"
        "viewer_typed v" "point_typed p v" "\<not> before_viewer p"
    | (finish) e rc where "p = Returned e" "p' = Exited rc" "s' = s" "hls_finish w (returned e, s, h) = (rc, h')"
proof (cases "before_viewer p")
  case False
  with assms(2) obtain v where v: "vview s = Some v" "viewer_typed v" "point_typed p v"
    by (auto simp: child_typed_def split: option.splits)
  obtain p1 v1 h1 where n: "viewer_next L w p v h = (p1, v1, h1)" by (metis prod.exhaust)
  from False v(1) n have "child_next L w q fd a (p, s, h) = (p1, s\<lparr>vview := Some v1\<rparr>, h1)"
    by (cases p) (simp_all add: child_next_def del: viewer_next.simps)
  with assms(1) n v False show ?thesis by (intro viewer) auto
next
  case before: True
  show ?thesis
  proof (cases p)
    case Enter
    obtain r s1 h1 where c: "child_setup w fd s h = (r, s1, h1)" by (metis prod.exhaust)
    with Enter assms show ?thesis
      by (intro prepared [of r]) (auto simp: child_next_def child_typed_def split: sum.splits option.splits)
  next
    case Construct
    obtain r :: "hls_exn + 'd viewer" and h1 where "VideoViewer w q fd a h = (r, h1)" by fastforce
    with Construct assms(1) failed constructed show ?thesis by (cases r) (auto simp: child_next_def)
  next
    case (Returned e)
    with assms(1) show ?thesis by (intro finish) (auto split: prod.splits)
  next
    case (Exited rc)
    with assms(3) show ?thesis by simp
  qed (use before in simp_all)
qed

lemma child_step_typed:
  fixes L :: "'d stdlib"
  assumes "child_step L w q fd a (p, s, h) x (p', s', h')" and t: "child_typed p s"
  shows "child_typed p' s'"
proof -
  from assms(1) show ?thesis
  proof (cases rule: child_step.cases)
    case run
    then have n: "child_next L w q fd a (p, s, h) = (p', s', h')" by simp
    from n t \<open>\<not> exited p\<close> show ?thesis
    proof (cases rule: child_next_cases)
      case (prepared r)
      then have "vview s' = None" by (auto simp: child_setup_def Let_def split: prod.splits if_splits)
      with prepared show ?thesis by (cases r) (auto simp: child_typed_def)
    next
      case (failed e)
      with t show ?thesis by (auto simp: child_typed_def split: option.splits)
    next
      case (constructed v)
      from VideoViewer_fresh [OF constructed(2)] constructed show ?thesis
        by (simp add: child_typed_def viewer_typed_def new_client_def new_stream_def fits_def)
    next
      case (viewer v v')
      with viewer_next_typed [OF viewer(4,5,2)] show ?thesis by (simp add: child_typed_def)
    next
      case (finish e rc)
      with t show ?thesis by (auto simp: child_typed_def split: option.splits)
    qed
  next
    case hup
    then have "handle_SIGHUP s h = (s', h')" "p' = p" by auto
    from this(1) show ?thesis
    proof (cases rule: handle_SIGHUP_cases)
      case before
      with \<open>p' = p\<close> t show ?thesis by simp
    next
      case (stop v v')
      with \<open>p' = p\<close> t Stop_typed [OF stop(2)] show ?thesis by (auto simp: child_typed_def)
    qed
  qed
qed

text \<open>C8: whatever the network and the playlists send, and wherever signals come, in every state the child
  reaches its variables have their types: there is a viewer exactly when the constructor has ended, all
  buffers of its three streams are inside their arrays, the history is no longer than its bound, the
  position in it is inside it while a segment is forwarded, and wherever the program writes to the
  player there is room in the buffer.\<close>

theorem child_well_typed:
  assumes "child_steps L w q fd a (Enter, \<lparr>ListenSocket = l, vview = None\<rparr>, h0) xs (p, s, h)"
  shows "child_typed p s"
proof -
  have "child_typed (fst c') (fst (snd c'))" if "child_steps L w q fd a c xs c'" "child_typed (fst c) (fst (snd c))" for c c' xs
    using that
  proof (induction rule: child_steps.induct)
    case (more xs c' x c'')
    then show ?case by (cases c'; cases c'') (auto dest: child_step_typed)
  qed
  from this [OF assms] show ?thesis by (simp add: child_typed_def)
qed

text \<open>A child that has read a playlist and greeted the player, and then gets the signal.\<close>

definition demo_request :: "recv_answer list" where
  "demo_request = [Data (''GET /h.tv/a.m3u8 HTTP/1.1'' @ [newline, newline])]"

definition demo_fork :: "int child" where
  "demo_fork = (Enter, \<lparr>ListenSocket = 3, vview = None\<rparr>, demo_state)"

lemma demo_constructed:
  "case (child_next demo_lib demo_site Video_high 4 demo_request ^^ 2) demo_fork of
     (Begin, s, h) \<Rightarrow> (case vview s of None \<Rightarrow> False | Some v \<Rightarrow> True)
   | _ \<Rightarrow> False"
  by code_simp

lemma demo_path:
  "\<exists>s h v. child_steps demo_lib demo_site Video_high 4 demo_request demo_fork
     [Wrote [], Wrote [], Wrote [], Wrote response_header] (Choose, s, h) \<and> vview s = Some v"
proof -
  let ?N = "child_next demo_lib demo_site Video_high 4 demo_request"
  let ?S = "child_step demo_lib demo_site Video_high 4 demo_request"
  have step: "?S (p, s, h) (Wrote (puts p)) (?N (p, s, h))" if "\<not> exited p" for p s h
    using that by (rule child_step.run)
  obtain p0 s0 h0 where 0: "?N demo_fork = (p0, s0, h0)" by (metis prod.exhaust)
  obtain p1 s1 h1 where 1: "?N (p0, s0, h0) = (p1, s1, h1)" by (metis prod.exhaust)
  from demo_constructed have "case (p1, s1, h1) of (Begin, s, h) \<Rightarrow> (case vview s of None \<Rightarrow> False | Some v \<Rightarrow> True) | _ \<Rightarrow> False"
    by (simp only: numeral_2_eq_2 funpow.simps comp_apply id_apply 0 1)
  then obtain v1 where p1: "p1 = Begin" "vview s1 = Some v1" by (cases p1) (auto split: option.splits)
  have p0: "p0 = Construct" using 0 p1(1) 1 by (cases p0) (auto simp: demo_fork_def child_next_def split: prod.splits sum.splits)
  obtain v2 h2 where 2: "ReadM3U8 demo_site v1 h1 = (Inr (), v2, h2)"
    using demo_site_read by metis
  have n2: "?N (Begin, s1, h1) = (Greet, s1\<lparr>vview := Some v2\<rparr>, h2)" using p1(2) 2 by (simp add: child_next_def)
  obtain v3 h3 where 3: "greet demo_site v2 h2 = (v3, h3)" by fastforce
  have n3: "?N (Greet, s1\<lparr>vview := Some v2\<rparr>, h2) = (Choose, s1\<lparr>vview := Some v3\<rparr>, h3)" using 3 by simp
  let ?steps = "child_steps demo_lib demo_site Video_high 4 demo_request demo_fork"
  have "?steps ([] @ [Wrote []]) (p0, s0, h0)"
    using child_steps.more [OF child_steps.none step [of Enter "fst (snd demo_fork)" "snd (snd demo_fork)"]] 0
    by (simp add: demo_fork_def)
  from child_steps.more [OF this step [of p0 s0 h0]] have "?steps [Wrote [], Wrote []] (Begin, s1, h1)"
    using p0 p1(1) 1 by simp
  from child_steps.more [OF this step [of Begin s1 h1]]
  have "?steps [Wrote [], Wrote [], Wrote []] (Greet, s1\<lparr>vview := Some v2\<rparr>, h2)" using n2 by simp
  from child_steps.more [OF this step [of Greet "s1\<lparr>vview := Some v2\<rparr>" h2]]
  have "?steps [Wrote [], Wrote [], Wrote [], Wrote response_header] (Choose, s1\<lparr>vview := Some v3\<rparr>, h3)" using n3 by simp
  then show ?thesis by fastforce
qed

lemma demo_path_hup:
  "\<exists>s h v s1 h1. child_steps demo_lib demo_site Video_high 4 demo_request demo_fork
     [Wrote [], Wrote [], Wrote [], Wrote response_header] (Choose, s, h) \<and> vview s = Some v \<and>
     child_step demo_lib demo_site Video_high 4 demo_request (Choose, s, h) Hup (Choose, s1, h1)"
proof -
  obtain s h v where p: "child_steps demo_lib demo_site Video_high 4 demo_request demo_fork
      [Wrote [], Wrote [], Wrote [], Wrote response_header] (Choose, s, h)" "vview s = Some v"
    using demo_path by blast
  obtain s1 h1 where "handle_SIGHUP s h = (s1, h1)" by fastforce
  then have "child_step demo_lib demo_site Video_high 4 demo_request (Choose, s, h) Hup (Choose, s1, h1)"
    by (intro child_step.hup) (simp_all add: handled_def)
  with p show ?thesis by blast
qed

theorem child_well_typed_witness:
  "\<exists>s h. child_steps demo_lib demo_site Video_high 4 demo_request demo_fork
     [Wrote [], Wrote [], Wrote [], Wrote response_header, Hup] (Choose, s, h) \<and> child_typed Choose s"
proof -
  obtain s h s1 h1 where "child_steps demo_lib demo_site Video_high 4 demo_request demo_fork
      [Wrote [], Wrote [], Wrote [], Wrote response_header] (Choose, s, h)"
    "child_step demo_lib demo_site Video_high 4 demo_request (Choose, s, h) Hup (Choose, s1, h1)"
    using demo_path_hup by blast
  from child_steps.more [OF this] have "child_steps demo_lib demo_site Video_high 4 demo_request demo_fork
      [Wrote [], Wrote [], Wrote [], Wrote response_header, Hup] (Choose, s1, h1)" by simp
  with child_well_typed [OF this [unfolded demo_fork_def]] show ?thesis by blast
qed

end
