(* ===== verification/HlsPlayer.thy ===== *)
theory HlsPlayer
  imports HlsSignal
begin

text \<open>
  The player's side of a child that signals may interrupt: what the player gets, how often its socket is
  closed, and the end of the child after a signal.
\<close>

section \<open>The invariant\<close>

text \<open>\<open>W\<close> was written: while the viewer has the socket, which was closed \<open>n\<close> times before, its stream is
  first in, first out; when it does not have it any more, the socket was closed once more.\<close>

definition player_ok :: "int \<Rightarrow> nat \<Rightarrow> string \<Rightarrow> sstream \<Rightarrow> hls_state \<Rightarrow> bool" where
  "player_ok fd n W vs h \<longleftrightarrow> prefix (sent_on fd h) W \<and>
     (if sock vs = fd then closes fd h = n \<and> fifo fd W vs h else sock vs = INVALID_SOCKET \<and> closes fd h = Suc n)"

text \<open>The child, since the state \<open>h0\<close>.\<close>

definition player_inv :: "hls_world \<Rightarrow> int \<Rightarrow> hls_state \<Rightarrow> act list \<Rightarrow> 'd child \<Rightarrow> bool" where
  "player_inv w fd h0 xs = (\<lambda>(p, s, h).
     (if p = Enter then ListenSocket s \<noteq> fd else ListenSocket s = INVALID_SOCKET) \<and>
     prefix (sent_on fd h) (sent_on fd h0 @ written xs) \<and> closes fd h \<le> Suc (closes fd h0) \<and>
     (case p of
        Exited rc \<Rightarrow> rc = Some 0 \<longrightarrow> closes fd h = Suc (closes fd h0)
      | _ \<Rightarrow>
          (case vview s of
             None \<Rightarrow> written xs = [] \<and> sent_on fd h = sent_on fd h0 \<and>
               (case p of Returned e \<Rightarrow> e \<noteq> None | _ \<Rightarrow> closes fd h = closes fd h0)
           | Some v \<Rightarrow> clients (apart w fd) v \<and>
               player_ok fd (closes fd h0) (sent_on fd h0 @ written xs) (VideoStream v) h)))"

lemma player_inv_viewer:
  "vview s = Some v \<Longrightarrow> \<not> exited p \<Longrightarrow> p \<noteq> Enter \<Longrightarrow>
    player_inv w fd h0 xs (p, s, h) \<longleftrightarrow> ListenSocket s = INVALID_SOCKET \<and> clients (apart w fd) v \<and>
      player_ok fd (closes fd h0) (sent_on fd h0 @ written xs) (VideoStream v) h"
  by (cases p) (auto simp: player_inv_def player_ok_def split: if_splits)

lemma player_ok_still: "still fd h h' \<Longrightarrow> player_ok fd n W vs h \<Longrightarrow> player_ok fd n W vs h'"
  by (auto simp: player_ok_def still_def fifo_def)

lemma player_ok_op:
  assumes "player_ok fd n W vs h" "player_op w p vs h = (vs', h')"
  shows "player_ok fd n (W @ puts p) vs' h'"
proof (cases "sock vs = fd")
  case True
  with assms(1) have "fifo fd (W @ puts p) vs' h'"
    using step_op.keeps_fifo [OF _ assms(2)] by (simp add: player_ok_def)
  with assms player_op_closes [OF assms(2)] True show ?thesis by (simp add: player_ok_def fifo_def)
next
  case False
  with assms step_op.other_sockets [OF False assms(2)] player_op_closes [OF assms(2)] show ?thesis
    by (auto simp: player_ok_def)
qed

lemma player_ok_stop:
  assumes "player_ok fd n W (VideoStream v) h" "Stop v h = (v', h')" "fd \<noteq> INVALID_SOCKET"
  shows "player_ok fd n W (VideoStream v') h' \<and> sock (VideoStream v') = INVALID_SOCKET \<and> sent_on fd h' = sent_on fd h"
proof -
  obtain vs where c: "stream_close (VideoStream v) h = (vs, h')" "VideoStream v' = vs"
    using assms(2) by (auto simp: Stop_def split: prod.splits)
  from stream_close_apart [OF c(1), of fd] c(2) assms(1,3) show ?thesis
    by (auto simp: player_ok_def split: if_splits)
qed

lemma destroy_stream_closes: "sock s \<noteq> fd \<Longrightarrow> closes fd (destroy_stream w s h) = closes fd h"
  by (auto simp: destroy_stream_def stream_close_def buf_close_def output_buffer_def Let_def split: prod.split if_splits)

lemma delete_viewer_closes:
  assumes "clients (apart w fd) v" "fresh_fds w fd" "player_ok fd n W (VideoStream v) h"
  shows "closes fd (delete_viewer w v h) = Suc n"
proof -
  obtain v1 h1 where 1: "Stop v h = (v1, h1)" by fastforce
  have fd: "fd \<noteq> INVALID_SOCKET" using assms(2) by (simp add: fresh_fds_def)
  from player_ok_stop [OF assms(3) 1 fd] fd have "closes fd h1 = Suc n" "sock (VideoStream v1) \<noteq> fd"
    by (auto simp: player_ok_def)
  moreover have "clients (apart w fd) v1" using Stop_typed [OF 1] assms(1) by (simp add: clients_def)
  ultimately show ?thesis
    using 1 assms(2) by (simp add: delete_viewer_def destroy_stream_closes clients_def apart_def)
qed

lemma hls_finish_cases:
  assumes "hls_finish w (returned e, s, h) = (rc, h')" "ListenSocket s = INVALID_SOCKET"
  shows "case e of
      Some x \<Rightarrow> rc = Some (- 1) \<and> still fd h h'
    | None \<Rightarrow> rc = Some 0 \<and> h' = (case vview s of None \<Rightarrow> h | Some v \<Rightarrow> delete_viewer w v h)"
  using assms by (auto simp: hls_finish_def returned_def report_exn_def split: option.splits hls_exn.splits)

lemma viewer_next_not_exited: "viewer_next L w p v h = (p', v', h') \<Longrightarrow> \<not> exited p \<Longrightarrow> \<not> exited p'"
  by (cases p) (auto simp: after_pass_def split: prod.splits sum.splits if_splits bool.splits)

lemma p_Enter: "p = Returned e \<Longrightarrow> p \<noteq> Enter"
  by simp

lemma child_step_player:
  fixes L :: "'d stdlib"
  assumes step: "child_step L w q fd a (p, s, h) x (p', s', h')" and fresh: "fresh_fds w fd"
    and t: "child_typed p s" and i: "player_inv w fd h0 xs (p, s, h)"
  shows "player_inv w fd h0 (xs @ [x]) (p', s', h')"
proof -
  have fd: "fd \<noteq> INVALID_SOCKET" using fresh by (simp add: fresh_fds_def)
  from step show ?thesis
  proof (cases rule: child_step.cases)
    case run
    then have n: "child_next L w q fd a (p, s, h) = (p', s', h')" and x: "x = Wrote (puts p)" by simp_all
    from n t \<open>\<not> exited p\<close> show ?thesis
    proof (cases rule: child_next_cases)
      case (prepared r)
      then have "still fd h h'" "ListenSocket s' = INVALID_SOCKET" "vview s' = None"
        using i by (auto simp: child_setup_def player_inv_def still_def Let_def split: prod.splits if_splits)
      with prepared i x show ?thesis by (cases r) (auto simp: player_inv_def still_def)
    next
      case (failed e)
      with VideoViewer_fresh [OF failed(2)] i x fd t show ?thesis
        by (auto simp: player_inv_def child_typed_def split: option.splits)
    next
      case (constructed v)
      from VideoViewer_fresh [OF constructed(2)] have v: "obuf (VideoStream v) = []" "sock (VideoStream v) = fd"
        "still fd h h'" "clients (apart w fd) v"
        using fd by (simp_all add: clients_def apart_def new_client_def new_stream_def)
      moreover have "vview s = None" using t constructed(1) by (auto simp: child_typed_def split: option.splits)
      ultimately show ?thesis using constructed i x fd
        by (auto simp: player_inv_def player_ok_def fifo_def still_def BUF_SIZE_def)
    next
      case (viewer v v')
      have p: "p \<noteq> Enter" "\<not> exited p'" "p' \<noteq> Enter"
        using viewer(6) viewer_next_typed [OF viewer(4,5,2)] viewer_next_not_exited [OF viewer(2)] \<open>\<not> exited p\<close> by auto
      note j = i [unfolded player_inv_viewer [OF viewer(1) \<open>\<not> exited p\<close> p(1)]]
      from player_apart.viewer_next_I [OF _ viewer(2)] j obtain h1 where
        h1: "clients (apart w fd) v'" "player_op w p (VideoStream v) h = (VideoStream v', h1)" "still fd h1 h'"
        using fresh by (auto simp: spares_def)
      have "player_ok fd (closes fd h0) (sent_on fd h0 @ written (xs @ [x])) (VideoStream v') h'"
        using player_ok_still [OF h1(3) player_ok_op [OF _ h1(2)]] j x by (simp flip: append_assoc)
      with j h1(1) viewer(3) show ?thesis by (subst player_inv_viewer [of _ v']) (simp_all add: p)
    next
      case (finish e rc)
      have ls: "ListenSocket s = INVALID_SOCKET" using i finish(1) by (simp add: player_inv_def)
      note f = hls_finish_cases [OF finish(4) ls, of fd]
      show ?thesis
      proof (cases e)
        case (Some y)
        with f i finish x ls show ?thesis by (simp add: player_inv_def still_def)
      next
        case None
        then obtain v where v: "vview s = Some v" using i finish(1) by (auto simp: player_inv_def split: option.splits)
        note j = i [unfolded player_inv_viewer [OF v \<open>\<not> exited p\<close> p_Enter [OF finish(1)]]]
        have "closes fd h' = Suc (closes fd h0)" "sent_on fd h' = sent_on fd h"
          using f None v j delete_viewer_closes [OF _ fresh] by (auto simp: delete_viewer_sent)
        with j finish x ls show ?thesis by (simp add: player_inv_def player_ok_def)
      qed
    qed
  next
    case hup
    then have h: "handle_SIGHUP s h = (s', h')" and p: "p' = p" "x = Hup" "handled p" by auto
    from h show ?thesis
    proof (cases rule: handle_SIGHUP_cases)
      case before
      with p i show ?thesis by (cases p) (simp_all add: player_inv_def handled_def)
    next
      case (stop v v')
      have np: "p \<noteq> Enter" "\<not> exited p" using p(3) by (simp_all add: handled_def)
      note j = i [unfolded player_inv_viewer [OF stop(1) np(2,1)]]
      have "player_ok fd (closes fd h0) (sent_on fd h0 @ written (xs @ [x])) (VideoStream v') h'"
        using player_ok_stop [OF _ stop(2) fd] j p(2) by auto
      moreover have "clients (apart w fd) v'" using Stop_typed [OF stop(2)] j by (simp add: clients_def)
      ultimately show ?thesis using j stop(3) p(1) np by (subst player_inv_viewer [of _ v']) simp_all
    qed
  qed
qed

lemma child_reaches:
  assumes "child_steps L w q fd a (Enter, \<lparr>ListenSocket = l, vview = None\<rparr>, h0) xs (p, s, h)"
    and "fresh_fds w fd" "l \<noteq> fd"
  shows "child_typed p s \<and> player_inv w fd h0 xs (p, s, h)"
proof -
  have "child_typed (fst c') (fst (snd c')) \<and> player_inv w fd h0 xs c'"
    if "child_steps L w q fd a c xs c'" "child_typed (fst c) (fst (snd c)) \<and> player_inv w fd h0 [] c" for c c' xs
    using that
  proof (induction rule: child_steps.induct)
    case (more xs c' x c'')
    then show ?case using assms(2) by (cases c'; cases c'') (auto dest: child_step_typed child_step_player)
  qed simp
  from this [OF assms(1)] assms(3) show ?thesis by (simp add: child_typed_def player_inv_def)
qed

text \<open>The header comes first.\<close>

fun header_first :: "'d point \<Rightarrow> string \<Rightarrow> bool" where
  "header_first Enter W = (W = [])"
| "header_first Construct W = (W = [])"
| "header_first Begin W = (W = [])"
| "header_first Greet W = (W = [])"
| "header_first (Returned e) W = (W = [] \<or> prefix response_header W)"
| "header_first (Exited rc) W = (W = [] \<or> prefix response_header W)"
| "header_first _ W = prefix response_header W"

lemma viewer_next_header:
  "viewer_next L w p v h = (p', v', h') \<Longrightarrow> header_first p W \<Longrightarrow> \<not> before_viewer p \<Longrightarrow> header_first p' (W @ puts p)"
  by (cases p) (auto simp: after_pass_def split: prod.splits sum.splits if_splits bool.splits)

lemma child_step_header:
  fixes L :: "'d stdlib"
  assumes "child_step L w q fd a (p, s, h) x (p', s', h')" "child_typed p s" "header_first p (written xs)"
  shows "header_first p' (written (xs @ [x]))"
  using assms(1)
proof (cases rule: child_step.cases)
  case run
  then have n: "child_next L w q fd a (p, s, h) = (p', s', h')" and x: "x = Wrote (puts p)" by simp_all
  from n assms(2) \<open>\<not> exited p\<close> show ?thesis
  proof (cases rule: child_next_cases)
    case (prepared r)
    with assms(3) x show ?thesis by (cases r) auto
  next
    case (viewer v v')
    from viewer_next_header [OF viewer(2) assms(3) viewer(6)] x show ?thesis by simp
  qed (use assms(3) x in simp_all)
qed (use assms(3) in simp)

section \<open>What the player gets\<close>

text \<open>C7: whatever the network sends and wherever signals come, what the player has got is a beginning of
  what the viewer wrote to it, in order, without gaps or repetitions, and that begins with the header of
  the response; while the player's stream is good, what is missing is exactly what is in its buffer.\<close>

theorem player_gets:
  assumes "child_steps L w q fd a (Enter, \<lparr>ListenSocket = l, vview = None\<rparr>, h0) xs (p, s, h)"
    and "fresh_fds w fd" and "l \<noteq> fd"
  shows "prefix (sent_on fd h) (sent_on fd h0 @ written xs) \<and>
    (written xs = [] \<or> prefix response_header (written xs)) \<and>
    (case vview s of
       None \<Rightarrow> True
     | Some v \<Rightarrow> if stream_good (VideoStream v) \<and> \<not> exited p
         then sent_on fd h @ obuf (VideoStream v) = sent_on fd h0 @ written xs else True)"
proof -
  have "child_typed (fst c') (fst (snd c')) \<and> header_first (fst c') (written xs)"
    if "child_steps L w q fd a c xs c'" "child_typed (fst c) (fst (snd c)) \<and> header_first (fst c) []" for c c' xs
    using that
  proof (induction rule: child_steps.induct)
    case (more xs c' x c'')
    then show ?case by (cases c'; cases c'') (auto dest: child_step_typed child_step_header)
  qed simp
  from this [OF assms(1)] have "header_first p (written xs)" by (simp add: child_typed_def)
  then have "written xs = [] \<or> prefix response_header (written xs)" by (cases p) auto
  moreover have i: "child_typed p s" "player_inv w fd h0 xs (p, s, h)" using child_reaches [OF assms] by simp_all
  moreover have "sent_on fd h @ obuf (VideoStream v) = sent_on fd h0 @ written xs"
    if "vview s = Some v" "stream_good (VideoStream v)" "\<not> exited p" for v
  proof -
    have "p \<noteq> Enter" using i(1) that(1) by (auto simp: child_typed_def)
    from i(2) [unfolded player_inv_viewer [OF that(1,3) this]] that(2) show ?thesis
      by (auto simp: player_ok_def fifo_def stream_good_def split: if_splits)
  qed
  ultimately show ?thesis by (auto simp: player_inv_def split: option.split)
qed

lemma demo_site_fresh: "fresh_fds demo_site 4"
  by (simp add: fresh_fds_def INVALID_SOCKET_def demo_site_ok)

theorem player_gets_witness:
  "\<exists>s h. child_steps demo_lib demo_site Video_high 4 demo_request demo_fork
     [Wrote [], Wrote [], Wrote [], Wrote response_header] (Choose, s, h) \<and> prefix (sent_on 4 h) response_header"
proof -
  obtain s h where p: "child_steps demo_lib demo_site Video_high 4 demo_request demo_fork
      [Wrote [], Wrote [], Wrote [], Wrote response_header] (Choose, s, h)" using demo_path by blast
  have "sent_on 4 demo_state = []" by (simp add: demo_state_def sent_on_def)
  moreover have "written [Wrote [], Wrote [], Wrote [], Wrote response_header] = response_header"
    by (simp add: written_def)
  ultimately have "prefix (sent_on 4 h) response_header"
    using player_gets [OF p [unfolded demo_fork_def] demo_site_fresh] by simp
  with p show ?thesis by blast
qed

text \<open>As long as closing a stream and destroying the viewer are not interrupted themselves (each is one step
  here), the player's socket is never closed twice, by the viewer, by the signal and by the end of the program
  together; when the program ends with the status 0 it has closed it exactly once. In the program itself a
  signal between \<open>closesocket (sock)\<close> and the assignment behind it closes the socket a second time.\<close>

theorem player_socket_closed_once:
  assumes "child_steps L w q fd a (Enter, \<lparr>ListenSocket = l, vview = None\<rparr>, h0) xs (p, s, h)"
    and "fresh_fds w fd" and "l \<noteq> fd"
  shows "closes fd h \<le> Suc (closes fd h0) \<and>
    (case p of Exited (Some rc) \<Rightarrow> if rc = 0 then closes fd h = Suc (closes fd h0) else True | _ \<Rightarrow> True)"
  using child_reaches [OF assms] by (auto simp: player_inv_def split: point.splits option.splits)

theorem player_socket_closed_once_witness:
  "\<exists>s h s1 h1. child_steps demo_lib demo_site Video_high 4 demo_request demo_fork
     [Wrote [], Wrote [], Wrote [], Wrote response_header] (Choose, s, h) \<and>
     child_step demo_lib demo_site Video_high 4 demo_request (Choose, s, h) Hup (Choose, s1, h1) \<and> closes 4 h1 \<le> 1"
proof -
  obtain s h s1 h1 where p: "child_steps demo_lib demo_site Video_high 4 demo_request demo_fork
      [Wrote [], Wrote [], Wrote [], Wrote response_header] (Choose, s, h)"
    "child_step demo_lib demo_site Video_high 4 demo_request (Choose, s, h) Hup (Choose, s1, h1)"
    using demo_path_hup by blast
  have "closes 4 demo_state = 0" by (simp add: demo_state_def closes_def)
  then have "closes 4 h1 \<le> 1"
    using player_socket_closed_once [OF child_steps.more [OF p, unfolded demo_fork_def] demo_site_fresh] by simp
  with p show ?thesis by blast
qed

section \<open>After a signal\<close>

text \<open>How many steps are left when the stream is closed.\<close>

fun rank :: "'d point \<Rightarrow> nat" where
  "rank Begin = 11"
| "rank Greet = 10"
| "rank Choose = 9"
| "rank (Pass start k) = 3 + (5 - emptCnt k)"
| "rank (Put start k i byteDelay tsTime x) = 4"
| "rank (Block start k i byteDelay tsTime) = 3"
| "rank (Segment start k i) = 2"
| "rank (Returned e) = 1"
| "rank _ = 0"

definition stopped :: "'d server \<Rightarrow> bool" where
  "stopped s \<longleftrightarrow> (case vview s of None \<Rightarrow> False | Some v \<Rightarrow> sock (VideoStream v) = INVALID_SOCKET)"

lemma viewer_next_rank:
  assumes n: "viewer_next L w p v h = (p', v', h')" and d: "sock (VideoStream v) = INVALID_SOCKET"
    and p: "\<not> before_viewer p"
  shows "rank p' < rank p"
proof -
  have b: "\<not> stream_good (VideoStream v)" using d by (simp add: stream_good_def)
  show ?thesis
  proof (cases p)
    case Choose
    with n show ?thesis by (auto simp: loop_start_def split: prod.splits sum.splits)
  next
    case (Pass start k)
    obtain r1 k1 v1 h1 where 1: "read_records L w k v h = (r1, k1, v1, h1)" by (metis prod.exhaust)
    then have k1: "emptCnt k1 = emptCnt k" by (auto simp: read_records_def Let_def split: prod.splits sum.splits)
    show ?thesis
    proof (cases "\<exists>c. r1 = Inr c \<and> addedTs c = 0")
      case True
      then obtain c where c: "r1 = Inr c" "addedTs c = 0" by blast
      obtain r2 k2 v2 h2 where 2: "empty_round L w c k1 v1 h1 = (r2, k2, v2, h2)" by (metis prod.exhaust)
      have "p' = after_pass start k2 r2" using n Pass 1 c 2 by simp
      moreover have "emptCnt k \<le> 4 \<and> emptCnt k2 = emptCnt k + 1" if "r2 = Inr True"
        using 2 that k1 by (auto simp: empty_round_def Let_def split: if_splits prod.splits sum.splits)
      ultimately show ?thesis using Pass by (auto simp: after_pass_def split: sum.split bool.split)
    next
      case False
      with n Pass 1 show ?thesis by (auto split: sum.splits if_splits prod.splits)
    qed
  next
    case (Segment start k i)
    obtain r1 v1 h1 where 1: "segments_end w k v h = (r1, v1, h1)" by (metis prod.exhaust)
    with b have "r1 = Inr False" by (simp add: segments_end_def)
    with n b 1 Segment show ?thesis by (auto simp: after_pass_def)
  qed (use n b p in \<open>auto split: prod.splits sum.splits\<close>)
qed

lemma child_step_stopped:
  fixes L :: "'d stdlib"
  assumes "child_step L w q fd a (p, s, h) x (p', s', h')" "stopped s" "child_typed p s"
  shows "stopped s' \<and> rank p' + (if x = Hup then 0 else 1) \<le> rank p"
  using assms(1)
proof (cases rule: child_step.cases)
  case run
  then have n: "child_next L w q fd a (p, s, h) = (p', s', h')" and x: "x = Wrote (puts p)" by simp_all
  from n assms(3) \<open>\<not> exited p\<close> show ?thesis
  proof (cases rule: child_next_cases)
    case (viewer v v')
    have d: "sock (VideoStream v) = INVALID_SOCKET" using assms(2) viewer(1) by (simp add: stopped_def)
    obtain h1 where "player_op w p (VideoStream v) h = (VideoStream v', h1)"
      using in_bounds.viewer_next_I [OF _ viewer(2)] viewer(4) by (auto simp: clients_def viewer_typed_def)
    then have "sock (VideoStream v') = INVALID_SOCKET"
      using step_op.other_sockets [of "VideoStream v" 0 w p h] d by (simp add: INVALID_SOCKET_def)
    with viewer_next_rank [OF viewer(2) d viewer(6)] viewer(3) x show ?thesis by (simp add: stopped_def)
  qed (use assms(2,3) x in \<open>auto simp: stopped_def child_typed_def split: option.splits\<close>)
next
  case hup
  then have "handle_SIGHUP s h = (s', h')" "p' = p" "x = Hup" by auto
  from this(1) show ?thesis
  proof (cases rule: handle_SIGHUP_cases)
    case (stop v v')
    with Stop_typed [OF stop(2)] \<open>p' = p\<close> \<open>x = Hup\<close> show ?thesis by (simp add: stopped_def)
  qed (use assms(2) \<open>p' = p\<close> \<open>x = Hup\<close> in simp)
qed

lemma child_step_silent:
  fixes L :: "'d stdlib"
  assumes "child_step L w q fd a (p, s, h) x (p', s', h')" "stopped s" "child_typed p s" "fresh_fds w fd"
    and i: "player_inv w fd h0 xs (p, s, h)"
  shows "sent_on fd h' = sent_on fd h"
proof -
  have fd: "fd \<noteq> INVALID_SOCKET" using assms(4) by (simp add: fresh_fds_def)
  obtain v where v: "vview s = Some v" "sock (VideoStream v) = INVALID_SOCKET"
    using assms(2) by (auto simp: stopped_def split: option.splits)
  have np: "p \<noteq> Enter" "\<not> exited p"
    using assms(1,3) v(1) by (auto simp: child_typed_def handled_def elim!: child_step.cases)
  note j = i [unfolded player_inv_viewer [OF v(1) np(2,1)]]
  from assms(1) show ?thesis
  proof (cases rule: child_step.cases)
    case run
    then have n: "child_next L w q fd a (p, s, h) = (p', s', h')" by simp
    from n assms(3) np(2) show ?thesis
    proof (cases rule: child_next_cases)
      case (viewer v1 v')
      then have v1: "v1 = v" using v(1) by simp
      obtain h1 where h1: "player_op w p (VideoStream v) h = (VideoStream v', h1)" "still fd h1 h'"
        using player_apart.viewer_next_I [OF _ viewer(2) [unfolded v1]] j assms(4) by (auto simp: spares_def)
      with step_op.other_sockets [OF _ h1(1), of fd] v(2) fd show ?thesis by (simp add: still_def)
    next
      case (finish e rc)
      have "ListenSocket s = INVALID_SOCKET" using j by simp
      from hls_finish_cases [OF finish(4) this, of fd] show ?thesis
        by (auto simp: still_def delete_viewer_sent split: option.splits)
    qed (use v(1) assms(3) np in \<open>auto simp: child_typed_def\<close>)
  next
    case hup
    then have "handle_SIGHUP s h = (s', h')" by simp
    then show ?thesis
    proof (cases rule: handle_SIGHUP_cases)
      case (stop v1 v')
      then show ?thesis using player_ok_stop [OF _ stop(2) fd] j v(1) by auto
    qed simp
  qed
qed

lemma stopped_ends:
  fixes L :: "'d stdlib"
  shows "stopped s \<Longrightarrow> child_typed p s \<Longrightarrow> rank p \<le> n \<Longrightarrow> exited (fst ((child_next L w q fd a ^^ n) (p, s, h)))"
proof (induction n arbitrary: p s h)
  case 0
  then show ?case by (cases p) (auto simp: stopped_def child_typed_def split: option.splits)
next
  case (Suc n)
  show ?case
  proof (cases "exited p")
    case True
    then show ?thesis using exited_stays [where c = "(p, s, h)" and n = "Suc n"] by simp
  next
    case False
    obtain p1 s1 h1 where n: "child_next L w q fd a (p, s, h) = (p1, s1, h1)" by (metis prod.exhaust)
    have step: "child_step L w q fd a (p, s, h) (Wrote (puts p)) (p1, s1, h1)"
      using child_step.run [OF False, of L w q fd a s h] n by simp
    from child_step_stopped [OF step Suc.prems(1,2)] child_step_typed [OF step Suc.prems(2)] Suc.prems(3)
    have "exited (fst ((child_next L w q fd a ^^ n) (p1, s1, h1)))" by (intro Suc.IH) auto
    then show ?thesis by (simp add: funpow_Suc_right n del: funpow.simps)
  qed
qed

lemma rank_bound: "rank p \<le> 11"
  by (cases p) auto

text \<open>C9: a signal ends a child that has its viewer: when the constructor of the viewer has returned (so that
  \<open>vview\<close> is set) and \<open>SIGHUP\<close> then comes between two steps of the program, nothing more is sent to the player,
  and at most eleven steps of the program later the child has ended, wherever more signals come. Before that
  point, while the constructor waits for the request, the handler does nothing and the child serves on.\<close>

theorem signal_ends_child:
  assumes "child_steps L w q fd a (Enter, \<lparr>ListenSocket = l, vview = None\<rparr>, h0) xs (p, s, h)"
    and "fresh_fds w fd" and "l \<noteq> fd" and "vview s = Some v"
    and "child_step L w q fd a (p, s, h) Hup (p, s1, h1)"
    and "child_steps L w q fd a (p, s1, h1) ys (p2, s2, h2)"
  shows "program_steps ys \<le> 11 \<and> sent_on fd h2 = sent_on fd h \<and>
    exited (fst ((child_next L w q fd a ^^ (11 - program_steps ys)) (p2, s2, h2)))"
proof -
  have fd: "fd \<noteq> INVALID_SOCKET" using assms(2) by (simp add: fresh_fds_def)
  note r = child_reaches [OF assms(1-3)]
  have np: "p \<noteq> Enter" "\<not> exited p" and h: "handle_SIGHUP s h = (s1, h1)"
    using assms(5) by (auto simp: handled_def elim!: child_step.cases)
  have 1: "stopped s1 \<and> sent_on fd h1 = sent_on fd h"
    using h
  proof (cases rule: handle_SIGHUP_cases)
    case (stop v1 v')
    then have "player_ok fd (closes fd h0) (sent_on fd h0 @ written xs) (VideoStream v1) h"
      using r player_inv_viewer [OF stop(1) np(2,1)] by blast
    from player_ok_stop [OF this stop(2) fd] stop(3) show ?thesis by (simp add: stopped_def)
  qed (use assms(4) in simp_all)
  have t1: "child_typed p s1" "player_inv w fd h0 (xs @ [Hup]) (p, s1, h1)"
    using r child_step_typed [OF assms(5)] child_step_player [OF assms(5) assms(2)] by blast+
  have "stopped (fst (snd c')) \<and> child_typed (fst c') (fst (snd c')) \<and> player_inv w fd h0 (zs @ ys) c' \<and>
      rank (fst c') + program_steps ys \<le> rank (fst c) \<and> sent_on fd (snd (snd c')) = sent_on fd (snd (snd c))"
    if "child_steps L w q fd a c ys c'" "stopped (fst (snd c))" "child_typed (fst c) (fst (snd c))" "player_inv w fd h0 zs c"
    for c c' ys zs
    using that
  proof (induction rule: child_steps.induct)
    case (more ys c' x c'')
    obtain p3 s3 h3 p4 s4 h4 where c: "c' = (p3, s3, h3)" "c'' = (p4, s4, h4)" by (metis prod.exhaust)
    note ih = more.IH [OF more.prems, unfolded c fst_conv snd_conv]
    note step = more.hyps(2) [unfolded c]
    have "program_steps (ys @ [x]) = program_steps ys + (if x = Hup then 0 else 1)" by (cases x) simp_all
    with ih child_step_stopped [OF step] child_step_typed [OF step] child_step_player [OF step assms(2)]
      child_step_silent [OF step _ _ assms(2)]
    show ?case unfolding c by (fastforce simp flip: append_assoc)
  qed simp
  from this [OF assms(6)] 1 t1 have *: "stopped s2" "child_typed p2 s2" "rank p2 + program_steps ys \<le> rank p"
    "sent_on fd h2 = sent_on fd h" by auto
  then have "program_steps ys \<le> 11" "rank p2 \<le> 11 - program_steps ys" using rank_bound [of p] by auto
  with * stopped_ends show ?thesis by blast
qed

theorem signal_ends_child_witness:
  "\<exists>s h s1 h1 c. child_steps demo_lib demo_site Video_high 4 demo_request demo_fork
     [Wrote [], Wrote [], Wrote [], Wrote response_header] (Choose, s, h) \<and>
     child_step demo_lib demo_site Video_high 4 demo_request (Choose, s, h) Hup (Choose, s1, h1) \<and>
     child_steps demo_lib demo_site Video_high 4 demo_request (Choose, s1, h1) [Wrote []] c \<and>
     sent_on 4 (snd (snd c)) = sent_on 4 h \<and>
     exited (fst ((child_next demo_lib demo_site Video_high 4 demo_request ^^ 10) c))"
proof -
  obtain s h v s1 h1 where p: "child_steps demo_lib demo_site Video_high 4 demo_request demo_fork
      [Wrote [], Wrote [], Wrote [], Wrote response_header] (Choose, s, h)" "vview s = Some v"
    "child_step demo_lib demo_site Video_high 4 demo_request (Choose, s, h) Hup (Choose, s1, h1)"
    using demo_path_hup by blast
  let ?N = "child_next demo_lib demo_site Video_high 4 demo_request"
  obtain p2 s2 h2 where n: "?N (Choose, s1, h1) = (p2, s2, h2)" by (metis prod.exhaust)
  have "child_step demo_lib demo_site Video_high 4 demo_request (Choose, s1, h1) (Wrote []) (p2, s2, h2)"
    using child_step.run [of Choose demo_lib demo_site Video_high 4 demo_request s1 h1] n by simp
  from child_steps.more [OF child_steps.none this]
  have c: "child_steps demo_lib demo_site Video_high 4 demo_request (Choose, s1, h1) [Wrote []] (p2, s2, h2)" by simp
  have "program_steps [Wrote []] = 1" by (simp add: program_steps_def)
  then have "sent_on 4 h2 = sent_on 4 h" "exited (fst ((?N ^^ 10) (p2, s2, h2)))"
    using signal_ends_child [OF p(1) [unfolded demo_fork_def] demo_site_fresh _ p(2,3) c] by simp_all
  with p c show ?thesis by fastforce
qed

end
