(* ===== verification/HlsDelivery.thy ===== *)
theory HlsDelivery
  imports HlsConn HlsRead
begin

text \<open>
  Segments from end to end: over a network that works, the segments of a playlist are asked for one after
  the other, each on a connection of its own, and reach the player complete and in order.
\<close>

section \<open>Nothing said to servers\<close>

interpretation mute: frame "asked sd []" for sd
  by unfold_locales (auto simp: asked_def)

lemma stream_write_mute:
  "stream_write w x s h = (s', h') \<Longrightarrow> sock s \<noteq> sd \<Longrightarrow> asked sd [] h h' \<and> sock s' = sock s"
  using write_op.other_sockets [of s sd w x h s' h'] quiet_connections [OF stream_write_quiet]
  by (auto simp: asked_def)

lemma stream_flush_mute:
  "stream_flush w s h = (s', h') \<Longrightarrow> sock s \<noteq> sd \<Longrightarrow> asked sd [] h h' \<and> sock s' = sock s"
  using flush_op.other_sockets [of s sd w h s' h'] quiet_connections [OF stream_flush_quiet]
  by (auto simp: asked_def)

lemma forward_mute:
  "forward L w start e bd t ts vs h = (ts', vs', h') \<Longrightarrow> sock vs \<noteq> sd \<Longrightarrow> asked sd [] h h' \<and> sock ts' = sock ts"
proof (induction L w start e bd t ts vs h rule: forward.induct)
  case (1 L w start e bd t ts vs h)
  show ?case
  proof (cases "stream_good ts \<and> stream_good vs")
    case False
    with "1.prems" forward_stop show ?thesis by (metis mute.refl prod.inject)
  next
    case True
    obtain x ts1 where r: "stream_read TS_BUF_LEN ts = (x, ts1)" by fastforce
    obtain t1 vs1 h1 where v: "write_block L w start e bd t x vs h = (t1, vs1, h1)" by (metis prod.exhaust)
    have s: "sock ts1 = sock ts" using out_side.stream_read_I [OF _ r] by blast
    obtain h2 where h2: "stream_write w x vs h = (vs1, h2)" "asked sd [] h2 h1"
      using mute.write_block_R [OF v] by blast
    from stream_write_mute [OF h2(1) "1.prems"(2)] h2(2) "1.prems"(2)
    have m: "asked sd [] h h1" "sock vs1 \<noteq> sd" by (auto intro: mute.trans)
    have f: "forward L w start e bd t1 ts1 vs1 h1 = (ts', vs', h')"
      using True r v "1.prems"(1) by (subst (asm) forward.simps) auto
    from "1.IH" [OF True r [symmetric] refl v [symmetric] refl refl f m(2)] s m(1)
    show ?thesis by (auto intro: mute.trans)
  qed
qed

section \<open>One segment\<close>

text \<open>Every connection gets the socket \<open>sd\<close> and can be written to.\<close>

definition works :: "hls_world \<Rightarrow> int \<Rightarrow> bool" where
  "works w sd \<longleftrightarrow> sends_all w \<and> 32 \<le> hls_long_bits w \<and> 0 \<le> sd \<and>
     (\<forall>n host port. getaddrinfo w n host port = (0, [(sd, True)]))"

lemma worksD:
  "works w sd \<Longrightarrow> sends_all w" "works w sd \<Longrightarrow> 32 \<le> hls_long_bits w" "works w sd \<Longrightarrow> 0 \<le> sd"
  "works w sd \<Longrightarrow> getaddrinfo w n x p = (0, [(sd, True)])"
  by (simp_all add: works_def)

lemma works_fresh: "works w sd \<Longrightarrow> fresh_fds w fd \<Longrightarrow> sd \<noteq> fd"
  by (auto simp: works_def fresh_fds_def)

text \<open>An answer with the status 200, headers that announce a length, and the body \<open>b\<close>, after which the
  server closes the connection.\<close>

definition brings :: "nat \<Rightarrow> recv_answer list \<Rightarrow> string \<Rightarrow> bool" where
  "brings lb a b \<longleftrightarrow> left_over a = [] \<and>
     (\<exists>e why hs. arriving a = response_text e 200 why hs @ b \<and> eol_ok e \<and> text_ok why \<and>
        (\<forall>kv \<in> set hs. header_ok kv) \<and>
        getContentLength lb \<lparr>status = 200, reason = why, headers = map_of (rev hs)\<rparr> \<noteq> 0)"

text \<open>The servers answer a request for an address \<open>u\<close> of \<open>us\<close>, whenever it comes, with the content \<open>S u\<close>.\<close>

definition serves :: "hls_world \<Rightarrow> uri set \<Rightarrow> (uri \<Rightarrow> string) \<Rightarrow> bool" where
  "serves w us S \<longleftrightarrow> (\<forall>n. \<forall>u \<in> us. brings (hls_long_bits w) (answers w n u) (S u))"

lemma open_segment_ok:
  assumes w: "works w sd" and b: "brings (hls_long_bits w) (answers w (hls_calls h) (seg_uri (TsList v ! i))) b"
    and i: "i < length (TsList v)"
  shows "\<exists>bd c h'. open_segment L w i v h = (Inr bd, v\<lparr>tsClient := c\<rparr>, h') \<and> stream_good (client_stream c) \<and>
    avail (client_stream c) = b \<and> end_flow (client_stream c) = AtEof \<and> sock (client_stream c) = sd \<and>
    asked sd [seg_uri (TsList v ! i)] h h'"
proof -
  let ?u = "seg_uri (TsList v ! i)"
  obtain e why hs where a: "arriving (answers w (hls_calls h) ?u) = response_text e 200 why hs @ b"
      "eol_ok e" "text_ok why" "\<forall>kv \<in> set hs. header_ok kv" "left_over (answers w (hls_calls h) ?u) = []"
    and len: "getContentLength (hls_long_bits w) \<lparr>status = 200, reason = why, headers = map_of (rev hs)\<rparr> \<noteq> 0"
    using b unfolding brings_def by (elim conjE exE)
  let ?r = "\<lparr>status = int 200, reason = why, headers = map_of (rev hs)\<rparr>"
  obtain s h1 where x: "http_exchange w ?u (client_stream (tsClient v)) h = (Inr ?r, s, h1)"
      "avail s = b" "stream_good s" "end_flow s = AtEof" "sock s = sd"
    using http_exchange_ok [OF worksD(1,4,3) [OF w] a(1,2) _ a(3,4) worksD(2) [OF w]] a(5) by fastforce
  have "\<not> is_redirect ?r"
    by (simp add: is_redirect_def HTTP_FOUND_def HTTP_MOVED_PERMANENTLY_def HTTP_TEMPORARY_REDIRECT_def)
  from getResponce_ok [OF x(1) this] have "open_segment L w i v h =
      (Inr (d_div L (Duration (TsList v ! i)) (d_int L (int (getContentLength (hls_long_bits w) ?r)))),
       v\<lparr>tsClient := \<lparr>clientUri = ?u, client_stream = s\<rparr>\<rparr>, h1)"
    using len by (simp add: open_segment_def Let_def HTTP_OK_def)
  with x(2-5) exchange_asked [OF x(1,5)] show ?thesis by auto
qed

text \<open>One segment: asked for once, and sent on or kept for the player behind what was written before.\<close>

lemma segment_delivered:
  assumes w: "works w sd" "fresh_fds w pfd"
    and b: "brings (hls_long_bits w) (answers w (hls_calls h) (seg_uri (TsList v ! i))) b"
    and v: "sock (client_stream (tsClient v)) \<noteq> pfd" "i < length (TsList v)"
    and f: "fifo pfd W (VideoStream v) h" "stream_good (VideoStream v)"
  shows "\<exists>bd c h1 s vs h2. open_segment L w i v h = (Inr bd, v\<lparr>tsClient := c\<rparr>, h1) \<and>
    forward L w start e bd t (client_stream c) (VideoStream v) h1 = (s, vs, h2) \<and>
    fifo pfd (W @ b) vs h2 \<and> stream_good vs \<and> sock s = sd \<and>
    length (obuf vs) = (length (obuf (VideoStream v)) + length b) mod BUF_SIZE \<and>
    asked sd [seg_uri (TsList v ! i)] h h2"
proof -
  let ?u = "seg_uri (TsList v ! i)"
  obtain bd c h1 where o: "open_segment L w i v h = (Inr bd, v\<lparr>tsClient := c\<rparr>, h1)" "stream_good (client_stream c)"
      "avail (client_stream c) = b" "end_flow (client_stream c) = AtEof" "sock (client_stream c) = sd"
      "asked sd [?u] h h1"
    using open_segment_ok [OF w(1) b v(2)] by metis
  have ne: "sd \<noteq> pfd" by (rule works_fresh [OF w])
  obtain r u c' h3 where g: "getResponce w ?u (tsClient v) h = (r, u, c', h3)" by (metis prod.exhaust)
  with o(1) have "h3 = h1" by (auto simp: open_segment_def Let_def split: sum.splits if_splits)
  then have st: "still pfd h h1"
    using player_apart.getResponce_I [OF _ g] w(2) v(1) by (simp add: apart_def spares_def)
  obtain s vs h2 where fw: "forward L w start e bd t (client_stream c) (VideoStream v) h1 = (s, vs, h2)"
    by (metis prod.exhaust)
  have vs: "stream_good vs" by (rule forward_good [OF worksD(1) [OF w(1)] fw o(2) f(2)])
  have "fifo pfd W (VideoStream v) h1" using f(1) st by (auto simp: still_def fifo_def)
  from forward_fifo [OF this o(2) fw] vs obtain n where n: "fifo pfd (W @ take n (delivered (client_stream c))) vs h2"
    "n = length (delivered (client_stream c))" "length (obuf vs) = (length (obuf (VideoStream v)) + n) mod BUF_SIZE"
    by (auto simp: stream_good_def)
  have d: "delivered (client_stream c) = b" using o(3,4) by (simp add: delivered_def)
  have "sock (VideoStream v) \<noteq> sd" using f ne by (auto simp: fifo_def stream_good_def)
  with forward_mute [OF fw this] asked_trans [OF o(6)] o(5) have "asked sd [?u] h h2" "sock s = sd"
    by (metis append_Nil2)+
  then show ?thesis using o(1) fw vs n by (auto simp: d intro!: exI)
qed

section \<open>All segments\<close>

text \<open>The segments from a position of the history on are asked for, one connection after the other, and the
  player gets or has in its buffer the whole content of each, in order, behind what was written before.\<close>

lemma play_segments_delivers:
  assumes w: "works w sd" "fresh_fds w pfd" "serves w us S"
  shows "sock (client_stream (tsClient v)) \<noteq> pfd \<Longrightarrow> fifo pfd W (VideoStream v) h \<Longrightarrow> stream_good (VideoStream v) \<Longrightarrow>
    seg_uri ` set (drop i (TsList v)) \<subseteq> us \<Longrightarrow>
    \<exists>t v' h'. play_segments L w start e i m v h = (Inr t, v', h') \<and>
      asked sd (map seg_uri (drop i (TsList v))) h h' \<and> stream_good (VideoStream v') \<and>
      (let body = concat (map (S \<circ> seg_uri) (drop i (TsList v)))
       in fifo pfd (W @ body) (VideoStream v') h' \<and>
          length (obuf (VideoStream v')) = (length (obuf (VideoStream v)) + length body) mod BUF_SIZE)"
proof (induction "length (TsList v) - i" arbitrary: i m v h W)
  case 0
  then have "play_segments L w start e i m v h = (Inr m, v, h)" by (subst play_segments.simps) simp
  moreover have "length (obuf (VideoStream v)) < BUF_SIZE" using 0 by (simp add: fifo_def stream_good_def)
  ultimately show ?case using 0 by simp
next
  case (Suc k)
  have i: "i < length (TsList v)" using Suc.hyps(2) by simp
  let ?u = "seg_uri (TsList v ! i)"
  have d: "drop i (TsList v) = TsList v ! i # drop (Suc i) (TsList v)" using i by (simp add: Cons_nth_drop_Suc)
  have us: "?u \<in> us" "seg_uri ` set (drop (Suc i) (TsList v)) \<subseteq> us" using Suc.prems(4) unfolding d by auto
  then have "brings (hls_long_bits w) (answers w (hls_calls h) ?u) (S ?u)" using w(3) by (simp add: serves_def)
  from segment_delivered [OF w(1,2) this Suc.prems(1) i Suc.prems(2,3), of L start e m]
  obtain bd c h1 s vs h2 where o: "open_segment L w i v h = (Inr bd, v\<lparr>tsClient := c\<rparr>, h1)"
      "forward L w start e bd m (client_stream c) (VideoStream v) h1 = (s, vs, h2)"
    and f: "fifo pfd (W @ S ?u) vs h2" "stream_good vs" "sock s = sd"
      "length (obuf vs) = (length (obuf (VideoStream v)) + length (S ?u)) mod BUF_SIZE" "asked sd [?u] h h2" by blast
  let ?v = "v\<lparr>VideoStream := vs, tsClient := c\<lparr>client_stream := s\<rparr>\<rparr>"
  let ?m = "d_add L m (Duration (TsList v ! i))"
  have p: "play_segments L w start e i m v h = play_segments L w start e (Suc i) ?m ?v h2"
    using i Suc.prems(3) o by (subst play_segments.simps) (simp add: Let_def)
  have "k = length (TsList ?v) - Suc i" "sock (client_stream (tsClient ?v)) \<noteq> pfd"
    using Suc.hyps(2) works_fresh [OF w(1,2)] f(3) by simp_all
  from Suc.hyps(1) [OF this, of "W @ S ?u" h2 ?m] f(1,2) us(2)
  obtain t v' h' where r: "play_segments L w start e (Suc i) ?m ?v h2 = (Inr t, v', h')"
    "asked sd (map seg_uri (drop (Suc i) (TsList v))) h2 h'" "stream_good (VideoStream v')"
    "let body = concat (map (S \<circ> seg_uri) (drop (Suc i) (TsList v)))
     in fifo pfd ((W @ S ?u) @ body) (VideoStream v') h' \<and>
        length (obuf (VideoStream v')) = (length (obuf vs) + length body) mod BUF_SIZE" by auto
  have "asked sd (map seg_uri (drop i (TsList v))) h h'" using asked_trans [OF f(5) r(2)] unfolding d by simp
  with r(1,3,4) f(4) p show ?case
    by (auto simp: d Let_def mod_add_left_eq add.assoc)
qed

end
