(* ===== verification/HlsSession.thy ===== *)
theory HlsSession
  imports HlsDelivery
begin

text \<open>
  A session from end to end: a recorded video (a playlist that is marked as complete), fetched and sent to
  the player over a network that works, from the first request of the viewer to its destruction.
\<close>

section \<open>Playlists the viewer accepts\<close>





section \<open>The session\<close>



















end
