(* ===== verification/Spec2Isabelle.thy ===== *)
theory Spec2Isabelle
  imports UuProps UpsOut SdWatch HlsPlayer HlsSession
begin

text \<open>
  The C and C++ programs of the Entware feed. The repository is a collection of package descriptions;
  four files of C and the daemon \<open>hlspxd\<close> are its own programs, and this development models all of them,
  function by function.

  \<^bold>\<open>The programs.\<close> They are independent of each other and share only the C library:

  \<^item> \<open>zork/files/uudecode.c\<close>, the decoder of uuencoded files used to unpack the data of a game:
    theories \<open>UuLine\<close> (the macro \<open>DEC\<close> and the loop over one data line), \<open>UuProgram\<close> (\<open>decode\<close> stage by
    stage, \<open>main\<close>), \<open>UuSafe\<close> (memory safety, totality), \<open>UuRound\<close> (the format and the round trip),
    \<open>UuProps\<close>.
  \<^item> \<open>25volt/src/usb_ups_powercom_wow.c\<close> and \<open>25volt/src/usb_ups_apc_smart.c\<close>, two monitors for UPSs on
    USB, variants of one program: theories \<open>UpsCommon\<close> (the view of libusb, state, printing),
    \<open>UpsPowercom\<close> and \<open>UpsApc\<close> (each file on its own), \<open>UpsSession\<close> (the session the two have in
    common), \<open>UpsTools\<close>, \<open>UpsProps\<close>, \<open>UpsOut\<close>.
  \<^item> \<open>sd-idle/src/sd-idle-2.6.c\<close>, a daemon that reads \<open>/proc/diskstats\<close> at intervals and stops disks that
    have been idle: theories \<open>SdState\<close> (globals, log, version check, command line), \<open>SdDisk\<close>
    (\<open>_disk_stop\<close>, \<open>_transition_message\<close>, \<open>_disk_idle\<close>, \<open>_disk_active\<close>), \<open>SdManage\<close>
    (\<open>_manage_diskstats_line\<close>, \<open>_manage\<close>, \<open>main\<close>), \<open>SdSafe\<close>, \<open>SdLines\<close>, \<open>SdSense\<close> (runs in a world whose sense
    buffers are strings, and where other runs part from them), \<open>SdProps\<close>, \<open>SdLife\<close>, \<open>SdWatch\<close> (the automaton
    of one disk).
  \<^item> \<open>hlspxd/src\<close>, a daemon in C++ that turns an HLS video stream (a playlist that is read again and again,
    and the segments it names) into one endless HTTP response for a player: theories \<open>HlsRegex\<close> (POSIX
    regular expressions and the wrapper in \<open>platform.h\<close>), \<open>HlsUri\<close> (class \<open>Uri\<close>), \<open>HlsStream\<close>
    (\<open>LogWriter\<close>, \<open>socketbuf\<close>, \<open>socketstream\<close>, \<open>copyToString\<close>), \<open>HlsFlow\<close> (laws of the streams), \<open>HlsHttp\<close>
    (\<open>HttpMessage\<close>, \<open>HttpRequest\<close>, \<open>HttpResponce\<close>, \<open>HttpClient\<close>), \<open>HlsHttpLaws\<close>, \<open>HlsFetch\<close>, \<open>HlsPlaylist\<close>
    (\<open>ReadM3U8\<close>, the constructor of \<open>VideoViewer\<close>), \<open>HlsPlayText\<close> (the format of playlists), \<open>HlsViewer\<close>
    (\<open>VideoViewer::Run\<close>), \<open>HlsHistory\<close>, \<open>HlsForward\<close>, \<open>HlsRead\<close>, \<open>HlsDelivery\<close> and \<open>HlsSession\<close>
    (a playlist, its segments, a session from end to end), \<open>HlsServer\<close>
    (command line, signals, \<open>HttpServer\<close>, \<open>main\<close>), \<open>HlsTrace\<close> (whole runs), \<open>HlsChild\<close> (the process that
    serves one player, as a machine of single steps that \<open>SIGHUP\<close> may interrupt), \<open>HlsConn\<close> (what every use
    of a connection keeps), \<open>HlsSignal\<close> and \<open>HlsPlayer\<close> (what holds in every state of that machine).

  The shared theories are \<open>Prelude\<close> (widths of integers, writing and reading buffers), \<open>CLib\<close>
  (strings in buffers, \<open>fgets\<close>), \<open>CNum\<close> (\<open>printf\<close>, \<open>strtol\<close>, \<open>strstr\<close>, \<open>basename\<close>) and \<open>Getopt\<close>.

  \<^bold>\<open>How state and operations correspond.\<close> The globals of a file and the record of what it did to the
  outside, in order, are one record (\<open>uu_state\<close>, \<open>ups_state\<close>, \<open>sd_state\<close>, \<open>hls_state\<close>). A C function is one
  definition that takes the state and returns it; the functions of the APC and Powercom monitors have
  the prefixes \<open>apc_\<close> and \<open>pc_\<close>, those of \<open>sd-idle\<close> lose their leading underscore. The long bodies of
  \<open>main\<close> and \<open>decode\<close> are cut at their comments into stages that are composed as the code composes
  them. Early returns and exits are an \<open>Inl\<close>; an access outside an array is \<open>None\<close>. What the
  code does not determine is a parameter: \<open>uu_env\<close> (password database, files, uninitialised locals),
  \<open>usb_world\<close> (devices, the outcome of each control transfer), \<open>ups_build\<close> (conditional compilation, the
  width of \<open>long\<close>), \<open>sd_world\<close> (time, \<open>open\<close>, \<open>ioctl\<close>, the contents of \<open>/proc/diskstats\<close> in each round),
  \<open>hls_world\<close> (sockets, what servers answer to the request for an address and what a player sends, clocks,
  \<open>fork\<close>) and \<open>stdlib\<close> (numbers of type
  \<open>double\<close>, \<open>std::sort\<close>). An object of a C++ class is a record, a method a definition over it, a
  \<open>throw\<close> an \<open>Inl\<close> of \<open>hls_exn\<close>.
  Events are lists, so the order of calls is part of every statement about them.

  \<^bold>\<open>Interfaces.\<close> \<open>line_reader\<close> (what a loop over \<open>fgets\<close> relies on; interpreted at both buffer sizes),
  \<open>uu_stage\<close> and \<open>uu_log\<close> (the stages of \<open>decode\<close>), \<open>report_reader\<close> (reading one report), \<open>ups_tool\<close> and
  its extension \<open>ups_commands\<close> (the parts of a monitor its session uses), \<open>disk_op\<close> (an operation on one
  disk), \<open>out_op\<close> (an output operation of a stream: first in, first out, within its buffer), \<open>read_inv\<close> and
  \<open>frame\<close> (a property of streams that reading keeps; a relation of states that the log and the clocks
  keep) and their extension \<open>conn_inv\<close> (kept by everything the HTTP client does). Each is interpreted on
  the definitions that model the code.

  \<^bold>\<open>What is shown.\<close> For \<open>uudecode\<close>: it inverts the format, never leaves its buffer, always returns; its
  actions and its exit status; the expansion of \<open>~user\<close>; the permissions it sets. For the monitors:
  which device is opened, the bracket of claim and release on every path, all that is ever sent to the
  device, the exit status, what the options set, the value of a report, the complete output in the
  format for scripts. For \<open>sd-idle\<close>: the one place where a run on plain lines can leave its arrays (a printed
  sense buffer) and that there is no other, the invariant of reachable states, the meaning of a line, when a disk is stopped and that it is stopped once, the messages, the
  options and their bounds. For \<open>hlspxd\<close>: encoding and printing of addresses are inverted by decoding and
  parsing, responses and playlists are read as they were written however the network splits them, a
  fetch ends, the new segments of a playlist are found and played in order, segments are forwarded byte
  for byte, a stalled viewer gives up, sockets are closed, and a recorded video is served from end to end over
  a network that works. For the process that serves a player, wherever
  \<open>SIGHUP\<close> interrupts it: its variables keep their types, the player gets a beginning of what was written
  to it, and once it has its viewer the signal ends it within eleven steps; and without
  signals the machine and the function \<open>serve_child\<close> agree. Where the code does not do what its texts
  say, a theorem states what it does.

  \<^bold>\<open>Bounds.\<close> Loops end by measures on what is left to read; no fuel is used. The endless loop of
  \<open>_manage\<close> is run for any number of rounds (\<open>manage_rounds\<close>) and is the step relation \<open>sd_step\<close>; those of
  \<open>hlspxd\<close> are run for any number of connections (\<open>accept_loop\<close>) and of passes (\<open>viewer_rounds\<close>), and
  \<open>child_steps\<close> are runs of any length, with a signal between any two steps. Integers
  of C type \<open>int\<close> are integers with an explicit wrap (\<open>s32\<close>) where they can leave their range, bytes
  and bit sets are words. \<open>MAXPATHLEN\<close> is 4096 as on Linux; \<open>long\<close> is 32 or 64 bits wide.

  \<^bold>\<open>Not modelled.\<close> The Windows branches of \<open>hlspxd\<close>, its failures of \<open>malloc\<close>, \<open>fopen\<close> and
  \<open>regcomp\<close>, signals that interrupt a library call or another step in its middle, the type
  \<open>TsPacketHdr\<close>, which no code uses; the Python and shell scripts, the package descriptions and the
  patches. Four patches, in \<open>hlspxd/patches\<close>, change \<open>hlspxd\<close> itself when its package is built (a check of
  \<open>fopen\<close>, the method \<open>HEAD\<close>, CR LF line ends of requests and of the response header, relative
  redirections, addresses with a leading slash): the model is of the sources without them. Nor are
  the messages \<open>getopt\<close> itself prints modelled, the locale, and failures of \<open>fgets\<close>, \<open>printf\<close> and \<open>close\<close>, which
  the sources do not look at either. In the machine with signals, closing a stream and destroying the viewer
  are one step each, and a number stands for one socket: that of the player's is not given to a later
  connection (\<open>fresh_fds\<close>).
\<close>

end
